(* ===== verification/Prelude.thy ===== *)
theory Prelude
  imports Main "HOL-Library.Word"
begin

text \<open>
  The vocabulary every component shares.

  \<^item> Go's fallible functions return a value and an error. A pure one is modelled by a
    value of \<open>'e + 'a\<close>, with \<open>Inl\<close> for the error that is returned.
  \<^item> A function that also acts on a store is a program \<open>('s, 'e, 'a) prog\<close>: it takes the
    store and returns the result together with the store it leaves behind. The store of a
    failing call is kept: what a failed call has already done is not undone unless
    somebody undoes it.
  \<^item> \<open>bindE m k\<close> is the Go idiom \<open>x, err := m(); if err != nil { return nil, err }; k(x)\<close>.
  \<^item> \<open>onResult m k\<close> hands the whole result of \<open>m\<close>, error or value, to \<open>k\<close>, for the places
    where the code looks at the error (\<open>errors.Is\<close>) before it decides.

  The rules \<open>bindE_InrE\<close> and \<open>onResultE\<close> take a successful run apart, which is how the
  outcome lemmas of the components are proved.
\<close>

section \<open>Programs\<close>

type_synonym ('s, 'e, 'a) prog = "'s \<Rightarrow> ('e + 'a) \<times> 's"

definition ret :: "'a \<Rightarrow> ('s, 'e, 'a) prog" where
  "ret x = (\<lambda>s. (Inr x, s))"

definition fail :: "'e \<Rightarrow> ('s, 'e, 'a) prog" where
  "fail e = (\<lambda>s. (Inl e, s))"

definition liftE :: "'e + 'a \<Rightarrow> ('s, 'e, 'a) prog" where
  "liftE r = (\<lambda>s. (r, s))"

definition bindE :: "('s, 'e, 'a) prog \<Rightarrow> ('a \<Rightarrow> ('s, 'e, 'b) prog) \<Rightarrow> ('s, 'e, 'b) prog" where
  "bindE m k = (\<lambda>s. case m s of (Inl e, s') \<Rightarrow> (Inl e, s') | (Inr x, s') \<Rightarrow> k x s')"

definition onResult :: "('s, 'e, 'a) prog \<Rightarrow> ('e + 'a \<Rightarrow> ('s, 'f, 'b) prog) \<Rightarrow> ('s, 'f, 'b) prog" where
  "onResult m k = (\<lambda>s. case m s of (r, s') \<Rightarrow> k r s')"

text \<open>The same for a call that touches no store.\<close>

definition bindR :: "'e + 'a \<Rightarrow> ('a \<Rightarrow> 'e + 'b) \<Rightarrow> 'e + 'b" where
  "bindR r k = (case r of Inl e \<Rightarrow> Inl e | Inr x \<Rightarrow> k x)"

lemma ret_simp [simp]: "ret x s = (Inr x, s)"
  by (simp add: ret_def)

lemma fail_simp [simp]: "fail e s = (Inl e, s)"
  by (simp add: fail_def)

lemma liftE_simp [simp]: "liftE r s = (r, s)"
  by (simp add: liftE_def)

lemma bindE_Inl: "m s = (Inl e, s') \<Longrightarrow> bindE m k s = (Inl e, s')"
  by (simp add: bindE_def)

lemma bindE_Inr: "m s = (Inr x, s') \<Longrightarrow> bindE m k s = k x s'"
  by (simp add: bindE_def)

lemma onResult_eq: "m s = (r, s') \<Longrightarrow> onResult m k s = k r s'"
  by (simp add: onResult_def)

lemma bindE_InrE:
  assumes "bindE m k s = (Inr y, t)"
  obtains x s' where "m s = (Inr x, s')" and "k x s' = (Inr y, t)"
  using assms by (auto simp: bindE_def split: prod.splits sum.splits)

lemma bindE_InlE:
  assumes "bindE m k s = (Inl e, t)"
  obtains (first) "m s = (Inl e, t)"
    | (second) x s' where "m s = (Inr x, s')" and "k x s' = (Inl e, t)"
  using assms by (auto simp: bindE_def split: prod.splits sum.splits)

lemma onResultE:
  assumes "onResult m k s = (r, t)"
  obtains q s' where "m s = (q, s')" and "k q s' = (r, t)"
  using assms by (auto simp: onResult_def split: prod.splits)

lemma bindR_simps [simp]:
  "bindR (Inl e) k = Inl e"
  "bindR (Inr x) k = k x"
  by (simp_all add: bindR_def)

lemma bindR_Inr_iff: "bindR r k = Inr y \<longleftrightarrow> (\<exists>x. r = Inr x \<and> k x = Inr y)"
  by (cases r) simp_all

lemma bindR_Inl_iff: "bindR r k = Inl e \<longleftrightarrow> r = Inl e \<or> (\<exists>x. r = Inr x \<and> k x = Inl e)"
  by (cases r) simp_all

section \<open>Machine integers\<close>

text \<open>Go's \<open>int64\<close>; on the platforms the service is built for \<open>int\<close> is the same width.\<close>

type_synonym i64 = "64 word"

abbreviation min_i64 :: int where "min_i64 \<equiv> - 9223372036854775808"
abbreviation max_i64 :: int where "max_i64 \<equiv> 9223372036854775807"

definition fits_i64 :: "int \<Rightarrow> bool" where
  "fits_i64 x \<longleftrightarrow> min_i64 \<le> x \<and> x \<le> max_i64"

lemma sint_bounds: "min_i64 \<le> sint (a :: i64)" "sint (a :: i64) \<le> max_i64"
  using sint_greater_eq [of a] sint_lt [of a] by simp_all

lemma fits_i64_sint [simp, intro]: "fits_i64 (sint (a :: i64))"
  by (simp add: fits_i64_def sint_bounds)

lemma sint_of_int_fits: "fits_i64 x \<Longrightarrow> sint (of_int x :: i64) = x"
  by (simp add: fits_i64_def sint_sbintrunc' signed_take_bit_int_eq_self)

lemma of_int_sint_eq: "of_int (sint (a :: i64)) = a"
  by simp

lemma sint_eq_iff: "sint (a :: i64) = sint b \<longleftrightarrow> a = b"
  by (metis of_int_sint_eq)

text \<open>Signed addition and negation, with the wrap-around written as a case split on \<open>int\<close>.\<close>

lemma sint_add_cases:
  fixes a b :: i64
  shows "sint (a + b) =
    (if max_i64 < sint a + sint b then sint a + sint b - 2 ^ 64
     else if sint a + sint b < min_i64 then sint a + sint b + 2 ^ 64
     else sint a + sint b)"
proof -
  let ?x = "sint a + sint b"
  have ab: "a + b = of_int ?x" by simp
  have x: "min_i64 + min_i64 \<le> ?x" "?x \<le> max_i64 + max_i64"
    using sint_bounds [of a] sint_bounds [of b] by simp_all
  have shift: "(of_int ?x :: i64) = of_int (?x - 2 ^ 64)" "(of_int ?x :: i64) = of_int (?x + 2 ^ 64)"
    by (simp_all add: word_of_int_eq_iff take_bit_eq_mod mod_diff_eq mod_add_eq)
  show ?thesis
  proof (cases "max_i64 < ?x")
    case True
    have "fits_i64 (?x - 2 ^ 64)" using True x(2) by (simp add: fits_i64_def)
    then have "sint (of_int (?x - 2 ^ 64) :: i64) = ?x - 2 ^ 64" by (rule sint_of_int_fits)
    with True ab shift(1) show ?thesis by presburger
  next
    case hi: False
    show ?thesis
    proof (cases "?x < min_i64")
      case True
      have "fits_i64 (?x + 2 ^ 64)" using True x(1) by (simp add: fits_i64_def)
      then have "sint (of_int (?x + 2 ^ 64) :: i64) = ?x + 2 ^ 64" by (rule sint_of_int_fits)
      with True hi ab shift(2) show ?thesis by presburger
    next
      case False
      with hi have "fits_i64 ?x" by (simp add: fits_i64_def)
      then have "sint (of_int ?x :: i64) = ?x" by (rule sint_of_int_fits)
      with hi False ab show ?thesis by presburger
    qed
  qed
qed

lemma sint_minus_fits: "sint (a :: i64) \<noteq> min_i64 \<Longrightarrow> sint (- a) = - sint a"
proof -
  assume "sint a \<noteq> min_i64"
  with sint_bounds [of a] have "fits_i64 (- sint a)" by (simp add: fits_i64_def)
  then have "sint (of_int (- sint a) :: i64) = - sint a" by (rule sint_of_int_fits)
  then show ?thesis by simp
qed

section \<open>Lists\<close>

lemma length_2E:
  assumes "length xs = 2"
  obtains a b where "xs = [a, b]"
  using assms by (cases xs; cases "tl xs") auto

lemma find_Some_iff_first:
  "List.find P xs = Some x \<Longrightarrow> P x \<and> x \<in> set xs"
  by (auto simp: find_Some_iff in_set_conv_nth)

lemma find_None_iff_none: "List.find P xs = None \<longleftrightarrow> (\<forall>x\<in>set xs. \<not> P x)"
  by (auto simp: find_None_iff)

end
