(* ===== verification/Errors.thy ===== *)
theory Errors
  imports Prelude
begin

text \<open>
  The sentinel errors of the packages, one datatype per package in the order of its \<open>var\<close>
  block, and the sum of them, which is what a Go \<open>error\<close> can be here. Two sentinels with the
  same text in two packages are two values, as two \<open>errors.New\<close> results are.

  \<open>pg_error\<close> is what the database driver reports: no row, a violated constraint of the
  schema (the driver gives its name), a statement sent inside an already failed transaction,
  a row that cannot be scanned, or any other driver error with the answer
  \<open>pgconn.SafeToRetry\<close> gives for it. \<open>Unavailable\<close> is \<open>app.ErrUnavailable\<close> wrapped around
  such an error.
\<close>

datatype money_error =
    ErrInvalidAmount
  | ErrInvalidCurrency
  | ErrCurrencyMismatch
  | ErrOverflow

datatype wallet_error =
    ErrInsufficientBalance
  | ErrNegativeInitialBalance
  | Wallet_ErrNonPositiveAmount

datatype ledger_error =
    Wallet_ErrInvalidInput
  | ErrInvalidDirection
  | ErrNegativeBalance
  | ErrInconsistentBalance

datatype wager_error =
    Wager_ErrInvalidInput
  | ErrInvalidKind
  | ErrInvalidReference
  | Wager_ErrInvalidTransition
  | ErrLossAmountMustBeZero
  | ErrMissingReference
  | Wager_ErrNonPositiveAmount
  | ErrReferenceMismatch
  | ErrTerminalTransaction
  | ErrUnexpectedReference

datatype inbox_error =
    Inbox_ErrInvalidInput
  | ErrAlreadyCompleted

datatype outbox_error =
    Outbox_ErrInvalidInput
  | Outbox_ErrInvalidTransition

datatype app_error =
    ErrWalletNotFound
  | ErrWalletAlreadyExists
  | ErrLedgerEntryNotFound
  | ErrWagerTransactionNotFound
  | ErrWagerTransactionAlreadyExists
  | ErrIdempotencyConflict
  | ErrInboxEntryNotFound
  | ErrOutboxEntryNotFound
  | ErrNoMovementDefined

datatype pg_error =
    NoRows
  | UniqueViolation string
  | ForeignKeyViolation string
  | CheckViolation string
  | InFailedTransaction
  | ScanError
  | DriverError bool

datatype consumer_error =
    MalformedEnvelope
  | UnsupportedType
  | MissingMessageId
  | IdempotencyKeyMismatch
  | ContentChanged

datatype error =
    MoneyE money_error
  | WalletE wallet_error
  | LedgerE ledger_error
  | WagerE wager_error
  | InboxE inbox_error
  | OutboxE outbox_error
  | AppE app_error
  | PgE pg_error
  | Unavailable pg_error
  | ConsumerE consumer_error
  | ExternalE string

end
