(* ===== verification/Money.thy ===== *)
theory Money
  imports Errors Gostd
begin

text \<open>
  \<open>internal/money/money.go\<close>. A \<open>Money\<close> is a currency code and an \<open>int64\<close> number of minor
  units; the arithmetic is on machine words, with the code's own overflow tests. The currency
  table belongs to \<open>golang.org/x/text/currency\<close>: the predicate \<open>validISO\<close> stands for the strings
  \<open>currency.ParseISO\<close> accepts and is an argument of every operation that validates a code.

  The lemmas show that the overflow tests decide exactly whether the mathematical result fits
  in 64 bits, that the result is then the mathematical one, that amounts survive printing and
  parsing in both directions, and that the accepted amount strings are the canonical ones.
\<close>

section \<open>Data\<close>

record money =
  m_currency :: string
  m_amount :: i64

definition Currency_Zero :: "string \<Rightarrow> money" where
  "Currency_Zero c = \<lparr>m_currency = c, m_amount = 0\<rparr>"

section \<open>Amount strings\<close>

definition amountRegex_matches :: "string \<Rightarrow> bool" where
  "amountRegex_matches s =
     (let t = (case s of c # r \<Rightarrow> if c = CHR ''-'' then r else s | [] \<Rightarrow> []);
          whole = takeWhile (\<lambda>c. c \<noteq> CHR ''.'') t;
          tail = dropWhile (\<lambda>c. c \<noteq> CHR ''.'') t
      in (whole = ''0'' \<or> whole \<noteq> [] \<and> hd whole \<noteq> CHR ''0'' \<and> list_all is_digit whole)
         \<and> (case tail of [_, a, b] \<Rightarrow> is_digit a \<and> is_digit b | _ \<Rightarrow> False))"

definition parseAmountString :: "string \<Rightarrow> error + i64" where
  "parseAmountString s =
     (if \<not> amountRegex_matches s \<or> s = ''-0.00'' then Inl (MoneyE ErrInvalidAmount)
      else (case parse_int (remove1 CHR ''.'' s) of
              Inl _ \<Rightarrow> Inl (MoneyE ErrOverflow)
            | Inr amount \<Rightarrow> Inr amount))"

definition amountString :: "money \<Rightarrow> string" where
  "amountString m =
     (let s = format_int (m_amount m);
          neg = (take 1 s = ''-'');
          sign = (if neg then ''-'' else []);
          s = (if neg then drop 1 s else s);
          s = (if length s < 3 then replicate (3 - length s) CHR ''0'' @ s else s);
          whole = take (length s - 2) s;
          decimal = drop (length s - 2) s
      in sign @ whole @ ''.'' @ decimal)"

section \<open>Constructors\<close>

definition validateCurrency :: "(string \<Rightarrow> bool) \<Rightarrow> string \<Rightarrow> error + unit" where
  "validateCurrency validISO cur = (if validISO cur then Inr () else Inl (MoneyE ErrInvalidCurrency))"

definition Money_New :: "(string \<Rightarrow> bool) \<Rightarrow> string \<Rightarrow> string \<Rightarrow> error + money" where
  "Money_New validISO cur amountStr =
     bindR (validateCurrency validISO cur) (\<lambda>_.
     bindR (parseAmountString amountStr) (\<lambda>amount.
     Inr \<lparr>m_currency = cur, m_amount = amount\<rparr>))"

definition FromMinorUnits :: "(string \<Rightarrow> bool) \<Rightarrow> string \<Rightarrow> i64 \<Rightarrow> error + money" where
  "FromMinorUnits validISO cur amount =
     bindR (validateCurrency validISO cur) (\<lambda>_.
     Inr \<lparr>m_currency = cur, m_amount = amount\<rparr>)"

definition Money_Zero :: "(string \<Rightarrow> bool) \<Rightarrow> string \<Rightarrow> error + money" where
  "Money_Zero validISO cur = bindR (validateCurrency validISO cur) (\<lambda>_. Inr (Currency_Zero cur))"

section \<open>Arithmetic and comparison\<close>

definition Money_Negate :: "money \<Rightarrow> error + money" where
  "Money_Negate m =
     (if sint (m_amount m) = min_i64 then Inl (MoneyE ErrOverflow)
      else Inr \<lparr>m_currency = m_currency m, m_amount = - m_amount m\<rparr>)"

definition Money_Add :: "money \<Rightarrow> money \<Rightarrow> error + money" where
  "Money_Add m n =
     (if m_currency m \<noteq> m_currency n then Inl (MoneyE ErrCurrencyMismatch)
      else let a = m_amount m; b = m_amount n; c = a + b in
        if (0 < sint b \<and> sint c < sint a) \<or> (sint b < 0 \<and> sint a < sint c)
        then Inl (MoneyE ErrOverflow)
        else Inr \<lparr>m_currency = m_currency m, m_amount = m_amount m + m_amount n\<rparr>)"

definition Money_Subtract :: "money \<Rightarrow> money \<Rightarrow> error + money" where
  "Money_Subtract m n = bindR (Money_Negate n) (\<lambda>n. Money_Add m n)"

definition Money_Equal :: "money \<Rightarrow> money \<Rightarrow> error + bool" where
  "Money_Equal m n =
     (if m_currency m \<noteq> m_currency n then Inl (MoneyE ErrCurrencyMismatch)
      else Inr (m_amount m = m_amount n))"

definition Money_LessThan :: "money \<Rightarrow> money \<Rightarrow> error + bool" where
  "Money_LessThan m n =
     (if m_currency m \<noteq> m_currency n then Inl (MoneyE ErrCurrencyMismatch)
      else Inr (sint (m_amount m) < sint (m_amount n)))"

definition Money_IsNegative :: "money \<Rightarrow> bool" where
  "Money_IsNegative m \<longleftrightarrow> sint (m_amount m) < 0"

definition Money_IsZero :: "money \<Rightarrow> bool" where
  "Money_IsZero m \<longleftrightarrow> m_amount m = 0"

definition Money_IsPositive :: "money \<Rightarrow> bool" where
  "Money_IsPositive m \<longleftrightarrow> 0 < sint (m_amount m)"

section \<open>The wire form\<close>

text \<open>
  \<open>encoding/json\<close> turns the two strings of \<open>moneyJSON\<close> into an object and back; the wire form
  here is that pair of strings, and a body that is not such an object is the decoder's error.
\<close>

record moneyJSON =
  j_currency :: string
  j_amount :: string

definition Money_MarshalJSON :: "money \<Rightarrow> moneyJSON" where
  "Money_MarshalJSON m = \<lparr>j_currency = m_currency m, j_amount = amountString m\<rparr>"

definition Money_UnmarshalJSON :: "(string \<Rightarrow> bool) \<Rightarrow> error + moneyJSON \<Rightarrow> error + money" where
  "Money_UnmarshalJSON validISO data =
     bindR data (\<lambda>raw.
     bindR (validateCurrency validISO (j_currency raw)) (\<lambda>_.
     bindR (parseAmountString (j_amount raw)) (\<lambda>amount.
     Inr \<lparr>m_currency = j_currency raw, m_amount = amount\<rparr>)))"

section \<open>Exact arithmetic\<close>

text \<open>The mathematical value of an amount.\<close>

abbreviation units :: "money \<Rightarrow> int" where
  "units m \<equiv> sint (m_amount m)"

lemma money_eq_iff: "(m :: money) = n \<longleftrightarrow> m_currency m = m_currency n \<and> units m = units n"
  by (auto simp: sint_eq_iff intro: money.equality)

lemma overflow_test_iff:
  fixes a b :: i64
  shows "(0 < sint b \<and> sint (a + b) < sint a) \<or> (sint b < 0 \<and> sint a < sint (a + b))
    \<longleftrightarrow> \<not> fits_i64 (sint a + sint b)"
  using sint_bounds [of a] sint_bounds [of b]
  by (simp add: sint_add_cases fits_i64_def split: if_splits)

lemma sint_add_fits: "fits_i64 (sint a + sint b) \<Longrightarrow> sint ((a :: i64) + b) = sint a + sint b"
  by (simp add: sint_add_cases fits_i64_def)

lemma Money_Add_eq:
  "Money_Add m n =
     (if m_currency m \<noteq> m_currency n then Inl (MoneyE ErrCurrencyMismatch)
      else if fits_i64 (units m + units n)
      then Inr \<lparr>m_currency = m_currency m, m_amount = of_int (units m + units n)\<rparr>
      else Inl (MoneyE ErrOverflow))"
  by (simp add: Money_Add_def Let_def overflow_test_iff)

text \<open>Claim C25. \<open>Add\<close> returns the exact sum when it fits in 64 bits and \<open>ErrOverflow\<close> exactly
  when it does not; amounts of two currencies are never added.\<close>

theorem Money_Add_exact:
  "Money_Add m n =
     (if m_currency m \<noteq> m_currency n then Inl (MoneyE ErrCurrencyMismatch)
      else if fits_i64 (units m + units n)
      then Inr \<lparr>m_currency = m_currency m, m_amount = of_int (units m + units n)\<rparr>
      else Inl (MoneyE ErrOverflow))"
  by (rule Money_Add_eq)

lemma Money_Add_Inr_iff:
  "Money_Add m n = Inr r \<longleftrightarrow>
     m_currency m = m_currency n \<and> m_currency r = m_currency m \<and>
     fits_i64 (units m + units n) \<and> units r = units m + units n"
  by (auto simp: Money_Add_def Let_def overflow_test_iff sint_add_fits money_eq_iff)

lemma Money_Negate_Inr_iff:
  "Money_Negate m = Inr r \<longleftrightarrow> units m \<noteq> min_i64 \<and> m_currency r = m_currency m \<and> units r = - units m"
  by (auto simp: Money_Negate_def money_eq_iff sint_minus_fits)

lemma Money_Subtract_Inr_iff:
  "Money_Subtract m n = Inr r \<longleftrightarrow>
     m_currency m = m_currency n \<and> m_currency r = m_currency m \<and> units n \<noteq> min_i64 \<and>
     fits_i64 (units m - units n) \<and> units r = units m - units n"
  by (auto simp: Money_Subtract_def bindR_Inr_iff Money_Negate_def Money_Add_Inr_iff sint_minus_fits)

lemma Money_Subtract_Inl:
  "Money_Subtract m n = Inl e \<Longrightarrow> e = MoneyE ErrOverflow \<or> e = MoneyE ErrCurrencyMismatch"
  by (auto simp: Money_Subtract_def bindR_Inl_iff Money_Negate_def Money_Add_def Let_def split: if_splits)

lemma Money_Add_Inl:
  "Money_Add m n = Inl e \<Longrightarrow> e = MoneyE ErrOverflow \<or> e = MoneyE ErrCurrencyMismatch"
  by (auto simp: Money_Add_def Let_def split: if_splits)


text \<open>\<open>Subtract\<close> returns the exact difference when it fits, except that it refuses to
  subtract the smallest 64-bit amount altogether (its negation does not fit), even where the
  difference would.\<close>

lemma Money_Subtract_exact:
  "Money_Subtract m n =
     (if units n = min_i64 then Inl (MoneyE ErrOverflow)
      else if m_currency m \<noteq> m_currency n then Inl (MoneyE ErrCurrencyMismatch)
      else if fits_i64 (units m - units n)
      then Inr \<lparr>m_currency = m_currency m, m_amount = of_int (units m - units n)\<rparr>
      else Inl (MoneyE ErrOverflow))"
  by (auto simp: Money_Subtract_def Money_Negate_def Money_Add_def Let_def overflow_test_iff
      sint_minus_fits)

section \<open>The amount format\<close>

definition amount_parts :: "string \<Rightarrow> string \<Rightarrow> string \<Rightarrow> char \<Rightarrow> char \<Rightarrow> bool" where
  "amount_parts s sg whole a b \<longleftrightarrow>
     s = sg @ whole @ [CHR ''.'', a, b] \<and> (sg = [] \<or> sg = ''-'') \<and>
     list_all is_digit whole \<and> whole \<noteq> [] \<and> (whole = ''0'' \<or> hd whole \<noteq> CHR ''0'') \<and>
     is_digit a \<and> is_digit b"

lemma takeWhile_digits_dot:
  assumes "list_all is_digit whole"
  shows "takeWhile (\<lambda>c. c \<noteq> CHR ''.'') (whole @ CHR ''.'' # r) = whole"
    and "dropWhile (\<lambda>c. c \<noteq> CHR ''.'') (whole @ CHR ''.'' # r) = CHR ''.'' # r"
  using assms by (induction whole) (auto simp: is_digit_def)

lemma amount_parts_matches: "amount_parts s sg whole a b \<Longrightarrow> amountRegex_matches s"
proof -
  assume p: "amount_parts s sg whole a b"
  then have w: "list_all is_digit whole" by (simp add: amount_parts_def)
  obtain c r where wc: "whole = c # r" "is_digit c"
    using p by (cases whole) (auto simp: amount_parts_def)
  from wc(2) have "c \<noteq> CHR ''-''" by auto
  then have strip: "(case s of c # r \<Rightarrow> if c = CHR ''-'' then r else s | [] \<Rightarrow> []) = whole @ [CHR ''.'', a, b]"
    using p wc by (auto simp: amount_parts_def)
  show ?thesis
    unfolding amountRegex_matches_def Let_def strip takeWhile_digits_dot [OF w]
    using p by (auto simp: amount_parts_def)
qed

lemma matches_amount_parts: "amountRegex_matches s \<Longrightarrow> \<exists>sg whole a b. amount_parts s sg whole a b"
proof -
  assume m: "amountRegex_matches s"
  define t where "t = (case s of c # r \<Rightarrow> if c = CHR ''-'' then r else s | [] \<Rightarrow> [])"
  define sg where "sg = (case s of c # r \<Rightarrow> if c = CHR ''-'' then ''-'' else [] | [] \<Rightarrow> [])"
  let ?w = "takeWhile (\<lambda>c. c \<noteq> CHR ''.'') t"
  have s: "s = sg @ t" "sg = [] \<or> sg = ''-''" by (auto simp: t_def sg_def split: list.splits)
  from m have w: "?w = ''0'' \<or> ?w \<noteq> [] \<and> hd ?w \<noteq> CHR ''0'' \<and> list_all is_digit ?w"
    unfolding amountRegex_matches_def Let_def t_def by simp
  from m obtain d a b where dw: "dropWhile (\<lambda>c. c \<noteq> CHR ''.'') t = [d, a, b]" "is_digit a" "is_digit b"
    unfolding amountRegex_matches_def Let_def t_def by (auto split: list.splits)
  have "d = CHR ''.''"
    using hd_dropWhile [of "\<lambda>c. c \<noteq> CHR ''.''" t] dw(1) by simp
  with dw(1) have "t = ?w @ [CHR ''.'', a, b]"
    by (metis takeWhile_dropWhile_id)
  with s w dw have "amount_parts s sg ?w a b"
    by (auto simp: amount_parts_def)
  then show ?thesis by blast
qed

lemma amountRegex_iff: "amountRegex_matches s \<longleftrightarrow> (\<exists>sg whole a b. amount_parts s sg whole a b)"
  using amount_parts_matches matches_amount_parts by blast

lemma remove1_dot:
  assumes "amount_parts s sg whole a b"
  shows "remove1 CHR ''.'' s = sg @ whole @ [a, b]"
proof -
  have "CHR ''.'' \<notin> set sg" "CHR ''.'' \<notin> set whole"
    using assms by (auto simp: amount_parts_def list_all_iff)
  with assms show ?thesis by (simp add: amount_parts_def remove1_append)
qed

text \<open>Parsing a sign and digits.\<close>

lemma parse_int_digits:
  assumes "list_all is_digit ds" "ds \<noteq> []"
  shows "parse_int ds =
      (if int (digits_value ds) > max_i64 then Inl ErrRange else Inr (of_int (int (digits_value ds))))"
    and "parse_int (CHR ''-'' # ds) =
      (if int (digits_value ds) > 9223372036854775808 then Inl ErrRange
       else Inr (of_int (- int (digits_value ds))))"
proof -
  obtain c r where c: "ds = c # r" "is_digit c" using assms by (cases ds) auto
  then have "c \<noteq> CHR ''-''" "c \<noteq> CHR ''+''" by auto
  with c assms show "parse_int ds =
      (if int (digits_value ds) > max_i64 then Inl ErrRange else Inr (of_int (int (digits_value ds))))"
    by (simp add: parse_int_def Let_def)
  from assms show "parse_int (CHR ''-'' # ds) =
      (if int (digits_value ds) > 9223372036854775808 then Inl ErrRange
       else Inr (of_int (- int (digits_value ds))))"
    by (simp add: parse_int_def Let_def)
qed

definition pad3 :: "string \<Rightarrow> string" where
  "pad3 s = (if length s < 3 then replicate (3 - length s) CHR ''0'' @ s else s)"

lemma pad3_facts:
  shows "3 \<le> length (pad3 s)" and "digits_value (pad3 s) = digits_value s"
    and "list_all is_digit s \<Longrightarrow> list_all is_digit (pad3 s)"
  by (auto simp: pad3_def list_all_iff)

lemma amountString_parts:
  fixes n :: nat
  assumes n: "n = nat \<bar>units m\<bar>" and p: "p = pad3 (format_nat n)"
  shows "amountString m = (if units m < 0 then ''-'' else []) @ take (length p - 2) p @ ''.'' @ drop (length p - 2) p"
proof -
  have "take 1 (format_nat k) \<noteq> ''-''" for k
    by (cases "format_nat k") (auto dest: format_nat_not_sign(1) [THEN notE])
  with n p show ?thesis
    by (auto simp: amountString_def format_int_def Let_def pad3_def)
qed

lemma pad3_format_whole:
  assumes p: "p = pad3 (format_nat n)" and w: "whole = take (length p - 2) p"
  shows "list_all is_digit whole" "whole \<noteq> []" "whole = ''0'' \<or> hd whole \<noteq> CHR ''0''"
proof -
  have len: "3 \<le> length p" and dig: "list_all is_digit p"
    using pad3_facts format_nat_digits p by simp_all
  show "list_all is_digit whole" using dig w by (auto simp: list_all_iff dest: in_set_takeD)
  show "whole \<noteq> []" using len w by auto
  show "whole = ''0'' \<or> hd whole \<noteq> CHR ''0''"
  proof (cases "length (format_nat n) < 3")
    case True
    then obtain k where k: "3 - length (format_nat n) = Suc k" by (metis Suc_diff_Suc)
    from True have "length p = 3" by (simp add: p pad3_def)
    with True k have "whole = take 1 (CHR ''0'' # replicate k CHR ''0'' @ format_nat n)"
      by (simp add: w p pad3_def)
    then show ?thesis by simp
  next
    case False
    then have pf: "p = format_nat n" by (simp add: p pad3_def)
    have "0 < n"
    proof (rule ccontr)
      assume "\<not> 0 < n"
      with False show False by (simp add: format_nat.simps [of 0])
    qed
    then have "hd p \<noteq> CHR ''0''" by (simp add: pf format_nat_hd)
    moreover have "hd whole = hd p" using len w by simp
    ultimately show ?thesis by simp
  qed
qed

lemma amountString_amount_parts:
  assumes p: "p = pad3 (format_nat (nat \<bar>units m\<bar>))"
  obtains whole a b where "amount_parts (amountString m) (if units m < 0 then ''-'' else []) whole a b"
    and "p = whole @ [a, b]"
proof -
  have len: "3 \<le> length p" and dig: "list_all is_digit p"
    using pad3_facts format_nat_digits p by simp_all
  define whole where "whole = take (length p - 2) p"
  have "length (drop (length p - 2) p) = 2" using len by simp
  then obtain a b where ab: "drop (length p - 2) p = [a, b]" by (rule length_2E)
  then have pw: "p = whole @ [a, b]" by (metis append_take_drop_id whole_def)
  with dig have "is_digit a" "is_digit b" by simp_all
  with pad3_format_whole [OF p whole_def]
  have "amount_parts (amountString m) (if units m < 0 then ''-'' else []) whole a b"
    using amountString_parts [OF refl p] ab by (simp add: amount_parts_def whole_def)
  with pw that show ?thesis by blast
qed

text \<open>Claim C26. Printing an amount and parsing the text gives the amount back, for every
  64-bit amount, the smallest one included.\<close>

theorem parse_amountString: "parseAmountString (amountString m) = Inr (m_amount m)"
proof -
  let ?n = "nat \<bar>units m\<bar>" and ?sg = "if units m < 0 then ''-'' else []"
  define p where "p = pad3 (format_nat ?n)"
  obtain whole a b where parts: "amount_parts (amountString m) ?sg whole a b" and pw: "p = whole @ [a, b]"
    using amountString_amount_parts [OF p_def] by blast
  have val: "digits_value p = ?n" by (simp add: p_def pad3_facts)
  have dig: "list_all is_digit p" "p \<noteq> []"
    by (simp add: p_def pad3_facts format_nat_digits) (simp add: pw)
  have nz: "amountString m \<noteq> ''-0.00''"
  proof
    assume eq: "amountString m = ''-0.00''"
    with parts have "p = ''000'' \<and> units m < 0"
      by (auto simp: amount_parts_def pw split: if_splits)
    with val show False by (simp add: digits_value_def digit_val_def)
  qed
  have b: "int ?n \<le> 9223372036854775808" "0 \<le> units m \<Longrightarrow> int ?n \<le> max_i64"
    using sint_bounds [of "m_amount m"] by simp_all
  have "remove1 CHR ''.'' (amountString m) = ?sg @ p" using remove1_dot [OF parts] pw by simp
  then have "parse_int (remove1 CHR ''.'' (amountString m)) = Inr (m_amount m)"
    using parse_int_digits [OF dig] b val by auto
  then show ?thesis
    using nz amount_parts_matches [OF parts] by (simp add: parseAmountString_def)
qed


lemma pad3_format_canonical:
  assumes "list_all is_digit whole" "whole \<noteq> []" "whole = ''0'' \<or> hd whole \<noteq> CHR ''0''"
    and ab: "is_digit a" "is_digit b"
  shows "pad3 (format_nat (digits_value (whole @ [a, b]))) = whole @ [a, b]"
proof (cases "whole = ''0''")
  case False
  with assms have "format_nat (digits_value (whole @ [a, b])) = whole @ [a, b]"
    by (intro format_nat_digits_value) auto
  moreover have "3 \<le> length (whole @ [a, b])" using assms(2) by (cases whole) auto
  ultimately show ?thesis using assms(2) by (simp add: pad3_def)
next
  case True
  show ?thesis
  proof (cases "a = CHR ''0''")
    case z: True
    have "digits_value (whole @ [a, b]) = digit_val b" by (simp add: True z digits_value_Cons)
    moreover have "format_nat (digit_val b) = [b]" using ab(2) by (simp add: format_nat.simps [of "digit_val b"])
    ultimately show ?thesis by (simp add: True z pad3_def numeral_2_eq_2)
  next
    case nz: False
    have "digits_value (whole @ [a, b]) = digits_value [a, b]" by (simp add: True digits_value_Cons)
    moreover have "format_nat (digits_value [a, b]) = [a, b]"
      using ab nz by (intro format_nat_digits_value) auto
    ultimately show ?thesis by (simp add: True pad3_def)
  qed
qed

lemma digit_val_eq_0: "is_digit c \<Longrightarrow> digit_val c = 0 \<longleftrightarrow> c = CHR ''0''"
  using digit_val_pos [of c] by (metis digit_val_0 less_irrefl)

lemma digits_value_0_iff: "list_all is_digit ds \<Longrightarrow> digits_value ds = 0 \<longleftrightarrow> (\<forall>c\<in>set ds. c = CHR ''0'')"
  by (induction ds) (simp_all add: digits_value_Cons digit_val_eq_0)

text \<open>What the parser returns on an accepted string, in terms of its digits.\<close>

lemma parseAmountString_value:
  assumes parts: "amount_parts s sg whole a b" and r: "parseAmountString s = Inr x"
  shows "sint x = (if sg = [] then int (digits_value (whole @ [a, b])) else - int (digits_value (whole @ [a, b])))"
    and "sg \<noteq> [] \<Longrightarrow> 0 < digits_value (whole @ [a, b])"
proof -
  let ?p = "whole @ [a, b]"
  have dig: "list_all is_digit ?p" "?p \<noteq> []" using parts by (auto simp: amount_parts_def)
  have "remove1 CHR ''.'' s = sg @ ?p" using remove1_dot [OF parts] by simp
  with r have pi: "parse_int (sg @ ?p) = Inr x"
    by (auto simp: parseAmountString_def split: if_splits sum.splits)
  have sg: "sg = [] \<or> sg = ''-''" using parts by (auto simp: amount_parts_def)
  then show "sint x = (if sg = [] then int (digits_value ?p) else - int (digits_value ?p))"
    using pi parse_int_digits [OF dig]
    by (auto simp: fits_i64_def sint_of_int_fits simp del: of_int_of_nat_eq of_int_minus split: if_splits)
  show "sg \<noteq> [] \<Longrightarrow> 0 < digits_value ?p"
  proof (rule ccontr)
    assume "sg \<noteq> []" and z: "\<not> 0 < digits_value ?p"
    then have zeros: "\<forall>c\<in>set ?p. c = CHR ''0''" using dig(1) digits_value_0_iff [of ?p] by simp
    have w: "whole \<noteq> []" "whole = ''0'' \<or> hd whole \<noteq> CHR ''0''" using parts by (simp_all add: amount_parts_def)
    have "hd whole \<in> set ?p" using w(1) by simp
    with zeros have "hd whole = CHR ''0''" by (rule bspec)
    with w(2) have "whole = ''0''" by simp
    moreover have "a = CHR ''0''" "b = CHR ''0''" using zeros by simp_all
    ultimately have "whole = ''0''" "a = CHR ''0''" "b = CHR ''0''" by simp_all
    with parts sg \<open>sg \<noteq> []\<close> have "s = ''-0.00''" by (simp add: amount_parts_def)
    with r show False by (simp add: parseAmountString_def)
  qed
qed

text \<open>Claim C27. The accepted amount strings are canonical: whatever parses prints back as
  itself, so two different strings never name the same amount.\<close>

theorem amountString_parse:
  assumes "parseAmountString s = Inr x"
  shows "amountString \<lparr>m_currency = c, m_amount = x\<rparr> = s"
proof -
  let ?m = "\<lparr>m_currency = c, m_amount = x\<rparr>"
  have "amountRegex_matches s" using assms by (auto simp: parseAmountString_def split: if_splits)
  then obtain sg whole a b where parts: "amount_parts s sg whole a b" by (auto simp: amountRegex_iff)
  let ?p = "whole @ [a, b]"
  have x: "sint x = (if sg = [] then int (digits_value ?p) else - int (digits_value ?p))"
    and pos: "sg \<noteq> [] \<Longrightarrow> 0 < digits_value ?p"
    using parseAmountString_value [OF parts assms] by simp_all
  have "?p = pad3 (format_nat (nat \<bar>units ?m\<bar>))"
    using pad3_format_canonical [of whole a b] parts by (auto simp: x amount_parts_def)
  then have "amountString ?m = (if units ?m < 0 then ''-'' else []) @ take (length ?p - 2) ?p @ ''.'' @ drop (length ?p - 2) ?p"
    by (rule amountString_parts [OF refl])
  moreover have "(if units ?m < 0 then ''-'' else []) = sg"
    using x pos parts by (auto simp: amount_parts_def)
  ultimately show ?thesis using parts by (simp add: amount_parts_def)
qed

text \<open>The claim at \<open>-12.05\<close>.\<close>

theorem amountString_parse_witness:
  "amountString \<lparr>m_currency = ''BRL'', m_amount = -1205\<rparr> = ''-12.05''"
proof -
  have "parseAmountString ''-12.05'' = Inr (-1205)"
    by (simp add: parseAmountString_def amountRegex_matches_def parse_int_def Let_def is_digit_def
        digits_value_def digit_val_def)
  then show ?thesis by (rule amountString_parse)
qed

end
