(* ===== verification/Wallet.thy ===== *)
theory Wallet
  imports Money
begin

text \<open>
  \<open>internal/wallet\<close>: the wallet aggregate and its ledger entries. An identifier is a 128-bit
  UUID and a time an integer number of nanoseconds. The values \<open>uuid.New()\<close> and \<open>time.Now()\<close>
  return are arguments of the constructors that draw them.

  A method that mutates its receiver returns the new receiver; on an error the receiver is
  left as it was, as in the code, which assigns the fields only after the last check.

  The locale \<open>balance_movement\<close> is the contract \<open>Credit\<close> and \<open>Debit\<close> share towards the ledger:
  a successful movement changes the balance by the signed amount of its direction and nothing
  else but the version. Its lemma shows that a ledger entry for such a movement is always
  accepted by \<open>NewLedgerEntry\<close>.
\<close>

section \<open>Data\<close>

type_synonym uuid = "128 word"
type_synonym time = int

abbreviation uuid_Nil :: uuid where "uuid_Nil \<equiv> 0"

record wallet =
  w_id :: uuid
  w_playerID :: uuid
  w_version :: i64
  w_balance :: money
  w_createdAt :: time
  w_updatedAt :: time

datatype direction =
    DirectionDebit
  | DirectionCredit
  | Direction_other string

record ledger_entry =
  le_id :: uuid
  le_walletID :: uuid
  le_transactionID :: uuid
  le_direction :: direction
  le_amount :: money
  le_balanceBefore :: money
  le_balanceAfter :: money
  le_createdAt :: time

record new_ledger_entry_input =
  nle_WalletID :: uuid
  nle_TransactionID :: uuid
  nle_Direction :: direction
  nle_Amount :: money
  nle_BalanceBefore :: money
  nle_BalanceAfter :: money

section \<open>The wallet\<close>

definition Wallet_New :: "uuid \<Rightarrow> time \<Rightarrow> uuid \<Rightarrow> money \<Rightarrow> error + wallet" where
  "Wallet_New newid now playerID initialBalance =
     (if Money_IsNegative initialBalance then Inl (WalletE ErrNegativeInitialBalance)
      else Inr \<lparr>w_id = newid, w_playerID = playerID, w_version = 1, w_balance = initialBalance,
                w_createdAt = now, w_updatedAt = now\<rparr>)"

definition Wallet_FromPersistence :: "uuid \<Rightarrow> uuid \<Rightarrow> i64 \<Rightarrow> money \<Rightarrow> time \<Rightarrow> time \<Rightarrow> wallet" where
  "Wallet_FromPersistence wid playerID version balance createdAt updatedAt =
     \<lparr>w_id = wid, w_playerID = playerID, w_version = version, w_balance = balance,
      w_createdAt = createdAt, w_updatedAt = updatedAt\<rparr>"

definition Wallet_Credit :: "wallet \<Rightarrow> money \<Rightarrow> error + wallet" where
  "Wallet_Credit w amount =
     (if \<not> Money_IsPositive amount then Inl (WalletE Wallet_ErrNonPositiveAmount)
      else bindR (Money_Add (w_balance w) amount) (\<lambda>balance.
        Inr (w\<lparr>w_balance := balance, w_version := w_version w + 1\<rparr>)))"

definition Wallet_Debit :: "wallet \<Rightarrow> money \<Rightarrow> error + wallet" where
  "Wallet_Debit w amount =
     (if \<not> Money_IsPositive amount then Inl (WalletE Wallet_ErrNonPositiveAmount)
      else bindR (Money_Subtract (w_balance w) amount) (\<lambda>balance.
        if Money_IsNegative balance then Inl (WalletE ErrInsufficientBalance)
        else Inr (w\<lparr>w_balance := balance, w_version := w_version w + 1\<rparr>)))"

section \<open>Ledger entries\<close>

definition NewLedgerEntry :: "uuid \<Rightarrow> time \<Rightarrow> new_ledger_entry_input \<Rightarrow> error + ledger_entry" where
  "NewLedgerEntry newid now input =
     (if nle_WalletID input = uuid_Nil \<or> nle_TransactionID input = uuid_Nil
      then Inl (LedgerE Wallet_ErrInvalidInput)
      else if \<not> Money_IsPositive (nle_Amount input) then Inl (WalletE Wallet_ErrNonPositiveAmount)
      else if Money_IsNegative (nle_BalanceBefore input) \<or> Money_IsNegative (nle_BalanceAfter input)
      then Inl (LedgerE ErrNegativeBalance)
      else bindR
        (case nle_Direction input of
           DirectionDebit \<Rightarrow> Money_Subtract (nle_BalanceBefore input) (nle_Amount input)
         | DirectionCredit \<Rightarrow> Money_Add (nle_BalanceBefore input) (nle_Amount input)
         | Direction_other _ \<Rightarrow> Inl (LedgerE ErrInvalidDirection))
        (\<lambda>expectedAfter.
          if Money_Equal expectedAfter (nle_BalanceAfter input) \<noteq> Inr True
          then Inl (LedgerE ErrInconsistentBalance)
          else Inr \<lparr>le_id = newid, le_walletID = nle_WalletID input,
                    le_transactionID = nle_TransactionID input,
                    le_direction = nle_Direction input, le_amount = nle_Amount input,
                    le_balanceBefore = nle_BalanceBefore input,
                    le_balanceAfter = nle_BalanceAfter input, le_createdAt = now\<rparr>))"

definition LedgerEntryFromPersistence ::
  "uuid \<Rightarrow> uuid \<Rightarrow> uuid \<Rightarrow> direction \<Rightarrow> money \<Rightarrow> money \<Rightarrow> money \<Rightarrow> time \<Rightarrow> ledger_entry" where
  "LedgerEntryFromPersistence eid walletID transactionID dir amount balanceBefore balanceAfter createdAt =
     \<lparr>le_id = eid, le_walletID = walletID, le_transactionID = transactionID, le_direction = dir,
      le_amount = amount, le_balanceBefore = balanceBefore, le_balanceAfter = balanceAfter,
      le_createdAt = createdAt\<rparr>"

section \<open>Movements\<close>

text \<open>What a movement of direction \<open>d\<close> adds to a balance.\<close>

fun signed_units :: "direction \<Rightarrow> money \<Rightarrow> int" where
  "signed_units DirectionDebit a = - units a"
| "signed_units DirectionCredit a = units a"
| "signed_units (Direction_other _) a = 0"

definition moved :: "wallet \<Rightarrow> direction \<Rightarrow> money \<Rightarrow> wallet \<Rightarrow> bool" where
  "moved w d a w' \<longleftrightarrow>
     w' = w\<lparr>w_balance := w_balance w', w_version := w_version w + 1\<rparr> \<and>
     0 < units a \<and> m_currency a = m_currency (w_balance w) \<and>
     m_currency (w_balance w') = m_currency (w_balance w) \<and>
     units (w_balance w') = units (w_balance w) + signed_units d a"

lemma movedD:
  assumes "moved w d a w'"
  shows "w_id w' = w_id w" "w_playerID w' = w_playerID w" "w_version w' = w_version w + 1"
    "w_createdAt w' = w_createdAt w" "w_updatedAt w' = w_updatedAt w"
    "m_currency (w_balance w') = m_currency (w_balance w)"
    "m_currency a = m_currency (w_balance w)" "0 < units a"
    "units (w_balance w') = units (w_balance w) + signed_units d a"
  using assms unfolding moved_def by (metis wallet.select_convs wallet.surjective wallet.update_convs)+

locale balance_movement =
  fixes move :: "wallet \<Rightarrow> money \<Rightarrow> error + wallet"
    and dir :: direction
  assumes dir_known: "dir = DirectionDebit \<or> dir = DirectionCredit"
    and move_moved: "move w a = Inr w' \<Longrightarrow> moved w dir a w'"
    and move_nonneg: "move w a = Inr w' \<Longrightarrow> 0 \<le> units (w_balance w) \<Longrightarrow> 0 \<le> units (w_balance w')"
begin

lemma entry_accepted:
  assumes "move w a = Inr w'" and "0 \<le> units (w_balance w)"
    and "w_id w' \<noteq> uuid_Nil" and "txid \<noteq> uuid_Nil"
  shows "NewLedgerEntry newid now
      \<lparr>nle_WalletID = w_id w', nle_TransactionID = txid, nle_Direction = dir, nle_Amount = a,
       nle_BalanceBefore = w_balance w, nle_BalanceAfter = w_balance w'\<rparr> =
    Inr \<lparr>le_id = newid, le_walletID = w_id w', le_transactionID = txid, le_direction = dir,
         le_amount = a, le_balanceBefore = w_balance w, le_balanceAfter = w_balance w',
         le_createdAt = now\<rparr>"
proof -
  note m = movedD [OF move_moved [OF assms(1)]]
  have nn: "0 \<le> units (w_balance w')" using assms(1,2) by (rule move_nonneg)
  have fits: "fits_i64 (units (w_balance w'))" by simp
  have amin: "units a \<noteq> min_i64" using m(8) by simp
  have pos: "Money_IsPositive a" "\<not> Money_IsNegative (w_balance w)" "\<not> Money_IsNegative (w_balance w')"
    using m(8) nn assms(2) by (simp_all add: Money_IsPositive_def Money_IsNegative_def)
  have "(dir = DirectionDebit \<and> Money_Subtract (w_balance w) a = Inr (w_balance w')) \<or>
      (dir = DirectionCredit \<and> Money_Add (w_balance w) a = Inr (w_balance w'))"
    using dir_known m(6,7,9) fits amin by (auto simp: Money_Subtract_Inr_iff Money_Add_Inr_iff)
  then show ?thesis
    using assms(3,4) pos by (elim disjE conjE) (simp_all add: NewLedgerEntry_def Money_Equal_def)
qed

end

lemma Wallet_Credit_Inr:
  "Wallet_Credit w a = Inr w' \<Longrightarrow> moved w DirectionCredit a w'"
  by (auto simp: Wallet_Credit_def bindR_Inr_iff Money_Add_Inr_iff Money_IsPositive_def moved_def
      split: if_splits)

lemma Wallet_Credit_nonneg:
  "Wallet_Credit w a = Inr w' \<Longrightarrow> 0 \<le> units (w_balance w) \<Longrightarrow> 0 \<le> units (w_balance w')"
  using movedD(8,9) [OF Wallet_Credit_Inr, of w a w'] by simp

lemma Wallet_Debit_Inr:
  "Wallet_Debit w a = Inr w' \<Longrightarrow> moved w DirectionDebit a w' \<and> 0 \<le> units (w_balance w')"
  by (auto simp: Wallet_Debit_def bindR_Inr_iff Money_Subtract_Inr_iff Money_IsPositive_def
      Money_IsNegative_def moved_def split: if_splits)

interpretation credit: balance_movement Wallet_Credit DirectionCredit
  by unfold_locales (auto dest: Wallet_Credit_Inr Wallet_Credit_nonneg)

interpretation debit: balance_movement Wallet_Debit DirectionDebit
  by unfold_locales (auto dest: Wallet_Debit_Inr)

text \<open>The shape of a ledger entry the constructor lets through.\<close>

definition entry_ok :: "ledger_entry \<Rightarrow> bool" where
  "entry_ok e \<longleftrightarrow>
     0 < units (le_amount e) \<and> 0 \<le> units (le_balanceBefore e) \<and> 0 \<le> units (le_balanceAfter e) \<and>
     (le_direction e = DirectionDebit \<or> le_direction e = DirectionCredit) \<and>
     units (le_balanceAfter e) = units (le_balanceBefore e) + signed_units (le_direction e) (le_amount e) \<and>
     m_currency (le_balanceBefore e) = m_currency (le_amount e) \<and>
     m_currency (le_balanceAfter e) = m_currency (le_amount e)"

lemma NewLedgerEntry_Inr:
  assumes "NewLedgerEntry newid now i = Inr e"
  shows "entry_ok e"
    and "e = \<lparr>le_id = newid, le_walletID = nle_WalletID i, le_transactionID = nle_TransactionID i,
      le_direction = nle_Direction i, le_amount = nle_Amount i,
      le_balanceBefore = nle_BalanceBefore i, le_balanceAfter = nle_BalanceAfter i, le_createdAt = now\<rparr>"
    and "nle_WalletID i \<noteq> uuid_Nil" and "nle_TransactionID i \<noteq> uuid_Nil"
  using assms
  by (auto simp: NewLedgerEntry_def entry_ok_def bindR_Inr_iff Money_Equal_def Money_IsPositive_def
      Money_IsNegative_def Money_Subtract_Inr_iff Money_Add_Inr_iff
      split: if_splits direction.splits)

lemma Wallet_Debit_eq:
  assumes "0 \<le> units (w_balance w)"
  shows "Wallet_Debit w a =
     (if units a \<le> 0 then Inl (WalletE Wallet_ErrNonPositiveAmount)
      else if m_currency a \<noteq> m_currency (w_balance w) then Inl (MoneyE ErrCurrencyMismatch)
      else if units (w_balance w) < units a then Inl (WalletE ErrInsufficientBalance)
      else Inr (w\<lparr>w_balance := \<lparr>m_currency = m_currency (w_balance w),
                    m_amount = of_int (units (w_balance w) - units a)\<rparr>,
                  w_version := w_version w + 1\<rparr>))"
proof (cases "units a \<le> 0")
  case True
  then show ?thesis by (simp add: Wallet_Debit_def Money_IsPositive_def)
next
  case False
  then have fits: "fits_i64 (units (w_balance w) - units a)"
    using assms sint_bounds [of "m_amount (w_balance w)"] sint_bounds [of "m_amount a"]
    by (simp add: fits_i64_def)
  moreover have "units a \<noteq> min_i64" using False by simp
  ultimately show ?thesis
    using False sint_of_int_fits [OF fits]
    by (auto simp: Wallet_Debit_def Money_IsPositive_def Money_Subtract_exact Money_IsNegative_def
        simp del: of_int_diff)
qed

text \<open>Claim C28. A debit is decided exactly: it needs a positive amount in the wallet's
  currency, it is refused as insufficient exactly when the amount exceeds the balance, and it
  otherwise takes the amount off the balance and advances the version.\<close>

theorem Wallet_Debit_exact:
  assumes "0 \<le> units (w_balance w)"
  shows "Wallet_Debit w a =
     (if units a \<le> 0 then Inl (WalletE Wallet_ErrNonPositiveAmount)
      else if m_currency a \<noteq> m_currency (w_balance w) then Inl (MoneyE ErrCurrencyMismatch)
      else if units (w_balance w) < units a then Inl (WalletE ErrInsufficientBalance)
      else Inr (w\<lparr>w_balance := \<lparr>m_currency = m_currency (w_balance w),
                    m_amount = of_int (units (w_balance w) - units a)\<rparr>,
                  w_version := w_version w + 1\<rparr>))"
  using assms by (rule Wallet_Debit_eq)

theorem Wallet_Debit_exact_witness:
  "Wallet_Debit \<lparr>w_id = 1, w_playerID = 2, w_version = 1, w_balance = \<lparr>m_currency = ''BRL'', m_amount = 100\<rparr>,
      w_createdAt = 0, w_updatedAt = 0\<rparr> \<lparr>m_currency = ''BRL'', m_amount = 300\<rparr>
    = Inl (WalletE ErrInsufficientBalance)"
  by (subst Wallet_Debit_exact) simp_all

text \<open>A credit is decided exactly, overflow of the 64-bit balance included.\<close>

lemma Wallet_Credit_exact:
  "Wallet_Credit w a =
     (if units a \<le> 0 then Inl (WalletE Wallet_ErrNonPositiveAmount)
      else if m_currency (w_balance w) \<noteq> m_currency a then Inl (MoneyE ErrCurrencyMismatch)
      else if max_i64 < units (w_balance w) + units a then Inl (MoneyE ErrOverflow)
      else Inr (w\<lparr>w_balance := \<lparr>m_currency = m_currency (w_balance w),
                    m_amount = of_int (units (w_balance w) + units a)\<rparr>,
                  w_version := w_version w + 1\<rparr>))"
  using sint_bounds [of "m_amount (w_balance w)"]
  by (auto simp: Wallet_Credit_def Money_IsPositive_def Money_Add_eq fits_i64_def)

text \<open>Neither movement touches the wallet's \<open>updatedAt\<close>, which therefore keeps the
  time of creation for the whole life of the wallet.\<close>

lemma movements_keep_updatedAt:
  "(case Wallet_Credit w a of Inl _ \<Rightarrow> True | Inr w' \<Rightarrow> w_updatedAt w' = w_updatedAt w) \<and>
   (case Wallet_Debit w a of Inl _ \<Rightarrow> True | Inr w' \<Rightarrow> w_updatedAt w' = w_updatedAt w)"
  by (auto split: sum.splits dest!: Wallet_Credit_Inr Wallet_Debit_Inr intro: movedD(5))

end
