(* ===== verification/Wager.thy ===== *)
theory Wager
  imports Wallet
begin

text \<open>
  \<open>internal/wager/transaction.go\<close>: the wager transaction, its validation and its life cycle.
  A \<open>Kind\<close> is a Go string; the six constants are constructors and \<open>Kind_other\<close> is any other
  string a decoded message can carry. A \<open>FailureCode\<close> is a string, empty when there is none.
  The content hash is \<open>H\<close> applied to the struct the code marshals: \<open>H\<close> stands for
  \<open>sha256.Sum256\<close> of its JSON form and is an argument.

  The locale \<open>status_mark\<close> is the contract the four \<open>Mark\<close> methods share: a mark refuses a
  terminal transaction, moves the status to its target, and leaves the identity and the
  content of the transaction alone.
\<close>

section \<open>Data\<close>

datatype kind =
    KindOpening
  | KindBet
  | KindWin
  | KindLoss
  | KindRefund
  | KindRollback
  | Kind_other string

definition ParseKind :: "string \<Rightarrow> error + kind" where
  "ParseKind s =
     (if s = ''OPENING'' then Inr KindOpening
      else if s = ''BET'' then Inr KindBet
      else if s = ''WIN'' then Inr KindWin
      else if s = ''LOSS'' then Inr KindLoss
      else if s = ''REFUND'' then Inr KindRefund
      else if s = ''ROLLBACK'' then Inr KindRollback
      else Inl (WagerE ErrInvalidKind))"

fun kind_string :: "kind \<Rightarrow> string" where
  "kind_string KindOpening = ''OPENING''"
| "kind_string KindBet = ''BET''"
| "kind_string KindWin = ''WIN''"
| "kind_string KindLoss = ''LOSS''"
| "kind_string KindRefund = ''REFUND''"
| "kind_string KindRollback = ''ROLLBACK''"
| "kind_string (Kind_other s) = s"

text \<open>The conversion \<open>Kind(s)\<close>, which never fails.\<close>

definition kind_of_string :: "string \<Rightarrow> kind" where
  "kind_of_string s = (case ParseKind s of Inl _ \<Rightarrow> Kind_other s | Inr k \<Rightarrow> k)"

datatype tx_status =
    TxStatusPending
  | TxStatusPendingReference
  | TxStatusProcessed
  | TxStatusRejected
  | TxStatusFailed

definition TxStatus_IsTerminal :: "tx_status \<Rightarrow> bool" where
  "TxStatus_IsTerminal ts \<longleftrightarrow> ts = TxStatusProcessed \<or> ts = TxStatusRejected \<or> ts = TxStatusFailed"

fun status_string :: "tx_status \<Rightarrow> string" where
  "status_string TxStatusPending = ''PENDING''"
| "status_string TxStatusPendingReference = ''PENDING_REFERENCE''"
| "status_string TxStatusProcessed = ''PROCESSED''"
| "status_string TxStatusRejected = ''REJECTED''"
| "status_string TxStatusFailed = ''FAILED''"

type_synonym failure_code = string
type_synonym hash = "256 word"

record transaction =
  tx_id :: uuid
  tx_status :: tx_status
  tx_externalTransactionID :: string
  tx_providerID :: string
  tx_playerID :: uuid
  tx_walletID :: uuid
  tx_roundID :: string
  tx_gameID :: string
  tx_kind :: kind
  tx_amount :: money
  tx_referenceExternalTransactionID :: "string option"
  tx_referenceTransactionID :: "uuid option"
  tx_failureCode :: failure_code
  tx_createdAt :: time
  tx_updatedAt :: time

definition IdempotencyKey :: "transaction \<Rightarrow> string" where
  "IdempotencyKey tx = tx_providerID tx @ '':'' @ tx_externalTransactionID tx"

record new_transaction_input =
  nt_ProviderID :: string
  nt_ExternalTransactionID :: string
  nt_PlayerID :: uuid
  nt_WalletID :: uuid
  nt_RoundID :: string
  nt_GameID :: string
  nt_Kind :: kind
  nt_Amount :: money
  nt_ReferenceExternalTransactionID :: "string option"

record new_opening_input =
  no_PlayerID :: uuid
  no_WalletID :: uuid
  no_Amount :: money

section \<open>Construction\<close>

definition NewTransaction :: "uuid \<Rightarrow> time \<Rightarrow> new_transaction_input \<Rightarrow> error + transaction" where
  "NewTransaction newid now input =
     (if nt_ProviderID input = [] \<or> nt_ExternalTransactionID input = [] \<or>
         nt_PlayerID input = uuid_Nil \<or> nt_WalletID input = uuid_Nil \<or>
         nt_RoundID input = [] \<or> nt_GameID input = []
      then Inl (WagerE Wager_ErrInvalidInput)
      else bindR
        (case nt_Kind input of
           KindBet \<Rightarrow>
             if \<not> Money_IsPositive (nt_Amount input) then Inl (WagerE Wager_ErrNonPositiveAmount)
             else if nt_ReferenceExternalTransactionID input \<noteq> None then Inl (WagerE ErrUnexpectedReference)
             else Inr ()
         | KindWin \<Rightarrow>
             if \<not> Money_IsPositive (nt_Amount input) then Inl (WagerE Wager_ErrNonPositiveAmount)
             else Inr ()
         | KindLoss \<Rightarrow>
             if \<not> Money_IsZero (nt_Amount input) then Inl (WagerE ErrLossAmountMustBeZero)
             else Inr ()
         | KindRefund \<Rightarrow>
             if \<not> Money_IsPositive (nt_Amount input) then Inl (WagerE Wager_ErrNonPositiveAmount)
             else if nt_ReferenceExternalTransactionID input = None then Inl (WagerE ErrMissingReference)
             else Inr ()
         | KindRollback \<Rightarrow>
             if \<not> Money_IsPositive (nt_Amount input) then Inl (WagerE Wager_ErrNonPositiveAmount)
             else if nt_ReferenceExternalTransactionID input = None then Inl (WagerE ErrMissingReference)
             else Inr ()
         | _ \<Rightarrow> Inl (WagerE ErrInvalidKind))
        (\<lambda>_. Inr
          \<lparr>tx_id = newid, tx_status = TxStatusPending,
           tx_externalTransactionID = nt_ExternalTransactionID input,
           tx_providerID = nt_ProviderID input,
           tx_playerID = nt_PlayerID input, tx_walletID = nt_WalletID input,
           tx_roundID = nt_RoundID input, tx_gameID = nt_GameID input,
           tx_kind = nt_Kind input, tx_amount = nt_Amount input,
           tx_referenceExternalTransactionID = nt_ReferenceExternalTransactionID input,
           tx_referenceTransactionID = None, tx_failureCode = [],
           tx_createdAt = now, tx_updatedAt = now\<rparr>))"

definition NewOpeningTransaction :: "uuid \<Rightarrow> time \<Rightarrow> new_opening_input \<Rightarrow> error + transaction" where
  "NewOpeningTransaction newid now input =
     (if no_PlayerID input = uuid_Nil \<or> no_WalletID input = uuid_Nil
      then Inl (WagerE Wager_ErrInvalidInput)
      else if \<not> Money_IsPositive (no_Amount input) then Inl (WagerE Wager_ErrNonPositiveAmount)
      else Inr
        \<lparr>tx_id = newid, tx_status = TxStatusProcessed, tx_externalTransactionID = [],
         tx_providerID = [], tx_playerID = no_PlayerID input, tx_walletID = no_WalletID input,
         tx_roundID = [], tx_gameID = [], tx_kind = KindOpening, tx_amount = no_Amount input,
         tx_referenceExternalTransactionID = None, tx_referenceTransactionID = None,
         tx_failureCode = [], tx_createdAt = now, tx_updatedAt = now\<rparr>)"

section \<open>References\<close>

definition ResolveReference :: "time \<Rightarrow> uuid \<Rightarrow> transaction \<Rightarrow> error + transaction" where
  "ResolveReference now rid tx =
     (if tx_status tx \<noteq> TxStatusPending \<and> tx_status tx \<noteq> TxStatusPendingReference
      then Inl (WagerE Wager_ErrInvalidTransition)
      else if tx_referenceTransactionID tx \<noteq> None \<and> tx_referenceTransactionID tx \<noteq> Some rid
      then Inl (WagerE ErrReferenceMismatch)
      else Inr (tx\<lparr>tx_referenceTransactionID := Some rid, tx_updatedAt := now\<rparr>))"

definition referenceableKind :: "kind \<Rightarrow> kind \<Rightarrow> bool" where
  "referenceableKind k refKind =
     (case k of
        KindRefund \<Rightarrow> refKind = KindBet
      | KindRollback \<Rightarrow> refKind = KindBet \<or> refKind = KindWin \<or> refKind = KindRefund
      | _ \<Rightarrow> False)"

definition ValidateReference :: "transaction \<Rightarrow> transaction \<Rightarrow> error + unit" where
  "ValidateReference tx ref =
     (case tx_referenceExternalTransactionID tx of
        None \<Rightarrow> Inl (WagerE ErrMissingReference)
      | Some refExt \<Rightarrow>
          if \<not> referenceableKind (tx_kind tx) (tx_kind ref) \<or>
             tx_status ref \<noteq> TxStatusProcessed \<or>
             tx_providerID ref \<noteq> tx_providerID tx \<or>
             tx_externalTransactionID ref \<noteq> refExt \<or>
             tx_playerID ref \<noteq> tx_playerID tx \<or>
             tx_walletID ref \<noteq> tx_walletID tx \<or>
             tx_roundID ref \<noteq> tx_roundID tx
          then Inl (WagerE ErrInvalidReference)
          else if Money_Equal (tx_amount ref) (tx_amount tx) \<noteq> Inr True
          then Inl (WagerE ErrInvalidReference)
          else Inr ())"

section \<open>The content hash\<close>

record payload =
  p_PlayerID :: uuid
  p_WalletID :: uuid
  p_RoundID :: string
  p_GameID :: string
  p_Kind :: kind
  p_Amount :: money
  p_ReferenceExternalTransactionID :: "string option"

definition hash_input :: "transaction \<Rightarrow> payload" where
  "hash_input tx =
     \<lparr>p_PlayerID = tx_playerID tx, p_WalletID = tx_walletID tx, p_RoundID = tx_roundID tx,
      p_GameID = tx_gameID tx, p_Kind = tx_kind tx, p_Amount = tx_amount tx,
      p_ReferenceExternalTransactionID = tx_referenceExternalTransactionID tx\<rparr>"

definition PayloadHash :: "(payload \<Rightarrow> hash) \<Rightarrow> transaction \<Rightarrow> hash" where
  "PayloadHash H tx = H (hash_input tx)"

section \<open>Life cycle\<close>

definition MarkProcessed :: "time \<Rightarrow> transaction \<Rightarrow> error + transaction" where
  "MarkProcessed now tx =
     (if TxStatus_IsTerminal (tx_status tx) then Inl (WagerE ErrTerminalTransaction)
      else Inr (tx\<lparr>tx_status := TxStatusProcessed, tx_updatedAt := now\<rparr>))"

definition MarkRejected :: "failure_code \<Rightarrow> time \<Rightarrow> transaction \<Rightarrow> error + transaction" where
  "MarkRejected code now tx =
     (if TxStatus_IsTerminal (tx_status tx) then Inl (WagerE ErrTerminalTransaction)
      else Inr (tx\<lparr>tx_status := TxStatusRejected, tx_failureCode := code, tx_updatedAt := now\<rparr>))"

definition MarkPendingReference :: "time \<Rightarrow> transaction \<Rightarrow> error + transaction" where
  "MarkPendingReference now tx =
     (if TxStatus_IsTerminal (tx_status tx) then Inl (WagerE ErrTerminalTransaction)
      else if tx_status tx \<noteq> TxStatusPending \<and> tx_status tx \<noteq> TxStatusPendingReference
      then Inl (WagerE Wager_ErrInvalidTransition)
      else Inr (tx\<lparr>tx_status := TxStatusPendingReference, tx_updatedAt := now\<rparr>))"

definition MarkFailed :: "failure_code \<Rightarrow> time \<Rightarrow> transaction \<Rightarrow> error + transaction" where
  "MarkFailed code now tx =
     (if TxStatus_IsTerminal (tx_status tx) then Inl (WagerE ErrTerminalTransaction)
      else Inr (tx\<lparr>tx_status := TxStatusFailed, tx_failureCode := code, tx_updatedAt := now\<rparr>))"

definition TransactionFromPersistence ::
  "uuid \<Rightarrow> tx_status \<Rightarrow> kind \<Rightarrow> string \<Rightarrow> string \<Rightarrow> string \<Rightarrow> string \<Rightarrow> uuid \<Rightarrow> uuid \<Rightarrow> money \<Rightarrow>
   string option \<Rightarrow> uuid option \<Rightarrow> failure_code \<Rightarrow> time \<Rightarrow> time \<Rightarrow> transaction" where
  "TransactionFromPersistence tid status k providerID externalTransactionID roundID gameID
      playerID walletID amount refExt refId failureCode createdAt updatedAt =
     \<lparr>tx_id = tid, tx_status = status, tx_externalTransactionID = externalTransactionID,
      tx_providerID = providerID, tx_playerID = playerID, tx_walletID = walletID,
      tx_roundID = roundID, tx_gameID = gameID, tx_kind = k, tx_amount = amount,
      tx_referenceExternalTransactionID = refExt, tx_referenceTransactionID = refId,
      tx_failureCode = failureCode, tx_createdAt = createdAt, tx_updatedAt = updatedAt\<rparr>"


section \<open>Well-formed transactions\<close>

text \<open>What the constructors promise of a transaction, whatever happens to it later.\<close>

definition kind_ok :: "kind \<Rightarrow> money \<Rightarrow> string option \<Rightarrow> bool" where
  "kind_ok k amount refExt \<longleftrightarrow>
     (case k of
        KindBet \<Rightarrow> 0 < units amount \<and> refExt = None
      | KindWin \<Rightarrow> 0 < units amount
      | KindLoss \<Rightarrow> units amount = 0
      | KindRefund \<Rightarrow> 0 < units amount \<and> refExt \<noteq> None
      | KindRollback \<Rightarrow> 0 < units amount \<and> refExt \<noteq> None
      | _ \<Rightarrow> False)"

definition input_ok :: "new_transaction_input \<Rightarrow> bool" where
  "input_ok i \<longleftrightarrow>
     nt_ProviderID i \<noteq> [] \<and> nt_ExternalTransactionID i \<noteq> [] \<and> nt_PlayerID i \<noteq> uuid_Nil \<and>
     nt_WalletID i \<noteq> uuid_Nil \<and> nt_RoundID i \<noteq> [] \<and> nt_GameID i \<noteq> [] \<and>
     kind_ok (nt_Kind i) (nt_Amount i) (nt_ReferenceExternalTransactionID i)"

definition provider_tx :: "transaction \<Rightarrow> bool" where
  "provider_tx tx \<longleftrightarrow>
     tx_providerID tx \<noteq> [] \<and> tx_externalTransactionID tx \<noteq> [] \<and> tx_playerID tx \<noteq> uuid_Nil \<and>
     tx_walletID tx \<noteq> uuid_Nil \<and> tx_roundID tx \<noteq> [] \<and> tx_gameID tx \<noteq> [] \<and>
     kind_ok (tx_kind tx) (tx_amount tx) (tx_referenceExternalTransactionID tx)"

lemma Money_IsZero_units: "Money_IsZero m \<longleftrightarrow> units m = 0"
  by (simp add: Money_IsZero_def sint_eq_iff [of _ 0, simplified])

lemmas money_signs = Money_IsPositive_def Money_IsNegative_def Money_IsZero_units

lemma NewTransaction_ok_iff:
  "(\<exists>tx. NewTransaction newid now i = Inr tx) \<longleftrightarrow> input_ok i"
  by (auto simp: NewTransaction_def input_ok_def kind_ok_def money_signs bindR_Inr_iff
      split: kind.splits if_splits option.splits)

text \<open>\<open>NewTransaction\<close> accepts exactly the well-formed submissions: all identifiers
  present, a provider kind, the amount sign and the reference its kind asks for.\<close>

lemma NewTransaction_accepts_iff:
  "(\<exists>tx. NewTransaction newid now i = Inr tx) \<longleftrightarrow> input_ok i"
  by (rule NewTransaction_ok_iff)

lemma NewTransaction_Inr:
  assumes "NewTransaction newid now i = Inr tx"
  shows "tx = \<lparr>tx_id = newid, tx_status = TxStatusPending,
           tx_externalTransactionID = nt_ExternalTransactionID i,
           tx_providerID = nt_ProviderID i,
           tx_playerID = nt_PlayerID i, tx_walletID = nt_WalletID i,
           tx_roundID = nt_RoundID i, tx_gameID = nt_GameID i,
           tx_kind = nt_Kind i, tx_amount = nt_Amount i,
           tx_referenceExternalTransactionID = nt_ReferenceExternalTransactionID i,
           tx_referenceTransactionID = None, tx_failureCode = [],
           tx_createdAt = now, tx_updatedAt = now\<rparr>"
    and "input_ok i"
  using assms NewTransaction_ok_iff [of newid now i]
  by (auto simp: NewTransaction_def bindR_Inr_iff split: if_splits)

lemma NewTransaction_provider_tx:
  "NewTransaction newid now i = Inr tx \<Longrightarrow> provider_tx tx \<and> tx_status tx = TxStatusPending"
  using NewTransaction_Inr [of newid now i tx] by (simp add: provider_tx_def input_ok_def)

section \<open>The core of a transaction\<close>

text \<open>\<open>tx_core\<close> blanks the four fields the methods of a transaction may write.\<close>

definition tx_core :: "transaction \<Rightarrow> transaction" where
  "tx_core tx = tx\<lparr>tx_status := TxStatusPending, tx_referenceTransactionID := None,
     tx_failureCode := [], tx_updatedAt := 0\<rparr>"

lemma tx_core_eqD:
  assumes "tx_core a = tx_core b"
  shows "tx_id a = tx_id b" "tx_externalTransactionID a = tx_externalTransactionID b"
    "tx_providerID a = tx_providerID b" "tx_playerID a = tx_playerID b"
    "tx_walletID a = tx_walletID b" "tx_roundID a = tx_roundID b" "tx_gameID a = tx_gameID b"
    "tx_kind a = tx_kind b" "tx_amount a = tx_amount b"
    "tx_referenceExternalTransactionID a = tx_referenceExternalTransactionID b"
    "tx_createdAt a = tx_createdAt b"
  using assms by (cases a; cases b; simp add: tx_core_def)+

lemma tx_core_hash: "tx_core a = tx_core b \<Longrightarrow> PayloadHash H a = PayloadHash H b"
  by (simp add: PayloadHash_def hash_input_def tx_core_eqD [of a b])

lemma tx_core_provider_tx: "tx_core a = tx_core b \<Longrightarrow> provider_tx a = provider_tx b"
  by (simp add: provider_tx_def tx_core_eqD [of a b])

text \<open>The life cycle as a specification: the steps a status may take.\<close>

inductive status_step :: "tx_status \<Rightarrow> tx_status \<Rightarrow> bool" where
  park: "status_step TxStatusPending TxStatusPendingReference"
| repark: "status_step TxStatusPendingReference TxStatusPendingReference"
| process: "\<not> TxStatus_IsTerminal s \<Longrightarrow> status_step s TxStatusProcessed"
| reject: "\<not> TxStatus_IsTerminal s \<Longrightarrow> status_step s TxStatusRejected"
| abandon: "\<not> TxStatus_IsTerminal s \<Longrightarrow> status_step s TxStatusFailed"

inductive_simps status_step_from: "status_step s t"

lemma terminal_simps [simp]:
  "TxStatus_IsTerminal TxStatusProcessed" "TxStatus_IsTerminal TxStatusRejected"
  "TxStatus_IsTerminal TxStatusFailed" "\<not> TxStatus_IsTerminal TxStatusPending"
  "\<not> TxStatus_IsTerminal TxStatusPendingReference"
  by (simp_all add: TxStatus_IsTerminal_def)

lemma terminal_has_no_step: "TxStatus_IsTerminal s \<Longrightarrow> \<not> status_step s t"
  by (auto elim!: status_step.cases)

locale status_mark =
  fixes mark :: "time \<Rightarrow> transaction \<Rightarrow> error + transaction"
    and target :: tx_status
  assumes mark_terminal: "TxStatus_IsTerminal (tx_status tx) \<Longrightarrow> mark now tx = Inl (WagerE ErrTerminalTransaction)"
    and mark_live: "\<not> TxStatus_IsTerminal (tx_status tx) \<Longrightarrow> \<exists>tx'. mark now tx = Inr tx'"
    and mark_core: "mark now tx = Inr tx' \<Longrightarrow> tx_core tx' = tx_core tx"
    and mark_ref: "mark now tx = Inr tx' \<Longrightarrow> tx_referenceTransactionID tx' = tx_referenceTransactionID tx"
    and mark_target: "mark now tx = Inr tx' \<Longrightarrow> tx_status tx' = target"
    and target_reachable: "\<not> TxStatus_IsTerminal s \<Longrightarrow> status_step s target"
begin

lemma mark_step:
  assumes "mark now tx = Inr tx'"
  shows "status_step (tx_status tx) (tx_status tx')"
proof -
  have "\<not> TxStatus_IsTerminal (tx_status tx)" using assms mark_terminal [of tx now] by auto
  then show ?thesis using target_reachable mark_target [OF assms] by simp
qed

lemma mark_decided: "(\<exists>tx'. mark now tx = Inr tx') \<longleftrightarrow> \<not> TxStatus_IsTerminal (tx_status tx)"
  using mark_terminal mark_live by fastforce

end

interpretation processed: status_mark MarkProcessed TxStatusProcessed
  by unfold_locales (auto simp: MarkProcessed_def tx_core_def status_step.simps split: if_splits)

interpretation rejected: status_mark "MarkRejected code" TxStatusRejected for code
  by unfold_locales (auto simp: MarkRejected_def tx_core_def status_step.simps split: if_splits)

interpretation failed: status_mark "MarkFailed code" TxStatusFailed for code
  by unfold_locales (auto simp: MarkFailed_def tx_core_def status_step.simps split: if_splits)

interpretation parked: status_mark MarkPendingReference TxStatusPendingReference
proof unfold_locales
  fix s
  assume "\<not> TxStatus_IsTerminal s"
  then show "status_step s TxStatusPendingReference"
    by (cases s) (simp_all add: status_step.simps)
qed (auto simp: MarkPendingReference_def tx_core_def TxStatus_IsTerminal_def status_step.simps
    split: if_splits intro: tx_status.exhaust)

lemma ResolveReference_Inr:
  "ResolveReference now rid tx = Inr tx' \<Longrightarrow>
     tx_core tx' = tx_core tx \<and> tx_status tx' = tx_status tx \<and> tx_failureCode tx' = tx_failureCode tx \<and>
     tx_referenceTransactionID tx' = Some rid \<and> \<not> TxStatus_IsTerminal (tx_status tx)"
  by (auto simp: ResolveReference_def tx_core_def split: if_splits)

text \<open>A transaction in a terminal state is final: every method that could change it
  refuses, with \<open>ErrTerminalTransaction\<close> from the marks and \<open>ErrInvalidTransition\<close> from
  \<open>ResolveReference\<close>.\<close>

lemma terminal_is_final:
  assumes "TxStatus_IsTerminal (tx_status tx)"
  shows "MarkProcessed now tx = Inl (WagerE ErrTerminalTransaction) \<and>
    MarkRejected code now tx = Inl (WagerE ErrTerminalTransaction) \<and>
    MarkFailed code now tx = Inl (WagerE ErrTerminalTransaction) \<and>
    MarkPendingReference now tx = Inl (WagerE ErrTerminalTransaction) \<and>
    ResolveReference now rid tx = Inl (WagerE Wager_ErrInvalidTransition)"
  using assms processed.mark_terminal rejected.mark_terminal failed.mark_terminal parked.mark_terminal
  by (auto simp: ResolveReference_def)

text \<open>Claim C29. Every mark that succeeds is a step of the life cycle and leaves the identity,
  the content, and with them the content hash, unchanged.\<close>

theorem marks_refine_life_cycle:
  assumes "m = MarkProcessed \<or> m = MarkRejected code \<or> m = MarkFailed code \<or> m = MarkPendingReference"
    and "m now tx = Inr tx'"
  shows "status_step (tx_status tx) (tx_status tx') \<and> tx_core tx' = tx_core tx \<and>
    PayloadHash H tx' = PayloadHash H tx"
proof -
  have "\<exists>t. status_mark m t"
    using assms(1)
  proof (elim disjE)
    assume "m = MarkProcessed"
    then show ?thesis using processed.status_mark_axioms by auto
  next
    assume "m = MarkRejected code"
    then show ?thesis using rejected.status_mark_axioms by auto
  next
    assume "m = MarkFailed code"
    then show ?thesis using failed.status_mark_axioms by auto
  next
    assume "m = MarkPendingReference"
    then show ?thesis using parked.status_mark_axioms by auto
  qed
  then obtain t where m: "status_mark m t" ..
  have "status_step (tx_status tx) (tx_status tx')" by (rule status_mark.mark_step [OF m assms(2)])
  moreover have "tx_core tx' = tx_core tx" by (rule status_mark.mark_core [OF m assms(2)])
  ultimately show ?thesis by (intro conjI tx_core_hash)
qed

text \<open>A concrete transaction for the witnesses: a bet of 30.00 BRL.\<close>

definition sample_bet :: "tx_status \<Rightarrow> transaction" where
  "sample_bet st =
     \<lparr>tx_id = 7, tx_status = st, tx_externalTransactionID = ''bet-1'', tx_providerID = ''provider-a'',
      tx_playerID = 2, tx_walletID = 3, tx_roundID = ''round-1'', tx_gameID = ''game-1'',
      tx_kind = KindBet, tx_amount = \<lparr>m_currency = ''BRL'', m_amount = 3000\<rparr>,
      tx_referenceExternalTransactionID = None, tx_referenceTransactionID = None,
      tx_failureCode = [], tx_createdAt = 5, tx_updatedAt = 5\<rparr>"

lemma terminal_is_final_sample:
  "MarkRejected ''X'' 9 (sample_bet TxStatusProcessed) = Inl (WagerE ErrTerminalTransaction)"
proof -
  have "TxStatus_IsTerminal (tx_status (sample_bet TxStatusProcessed))"
    by (simp add: sample_bet_def)
  from terminal_is_final [OF this, of 9 "''X''" 0] show ?thesis by simp
qed

theorem marks_refine_life_cycle_witness:
  "tx_core ((sample_bet TxStatusPending)\<lparr>tx_status := TxStatusProcessed, tx_updatedAt := 9\<rparr>)
     = tx_core (sample_bet TxStatusPending)"
proof -
  have "MarkProcessed 9 (sample_bet TxStatusPending) =
      Inr ((sample_bet TxStatusPending)\<lparr>tx_status := TxStatusProcessed, tx_updatedAt := 9\<rparr>)"
    by (simp add: MarkProcessed_def sample_bet_def)
  from marks_refine_life_cycle [OF disjI1 [OF refl] this] show ?thesis by simp
qed

section \<open>Valid references\<close>

definition reference_ok :: "transaction \<Rightarrow> transaction \<Rightarrow> bool" where
  "reference_ok tx ref \<longleftrightarrow>
     tx_referenceExternalTransactionID tx = Some (tx_externalTransactionID ref) \<and>
     referenceableKind (tx_kind tx) (tx_kind ref) \<and> tx_status ref = TxStatusProcessed \<and>
     tx_providerID ref = tx_providerID tx \<and> tx_playerID ref = tx_playerID tx \<and>
     tx_walletID ref = tx_walletID tx \<and> tx_roundID ref = tx_roundID tx \<and>
     tx_amount ref = tx_amount tx"

lemma ValidateReference_eq: "ValidateReference tx ref = Inr () \<longleftrightarrow> reference_ok tx ref"
  by (auto simp: ValidateReference_def reference_ok_def Money_Equal_def
      split: option.splits if_splits)


lemma referenceableKind_cases:
  "referenceableKind k r \<Longrightarrow>
     (k = KindRefund \<and> r = KindBet) \<or> (k = KindRollback \<and> (r = KindBet \<or> r = KindWin \<or> r = KindRefund))"
  by (auto simp: referenceableKind_def split: kind.splits)

lemma kind_of_string_string: "kind_of_string (kind_string k) = k \<or> (\<exists>s. k = Kind_other s)"
  by (cases k) (simp_all add: kind_of_string_def ParseKind_def)

lemma kind_string_of_string [simp]: "kind_string (kind_of_string s) = s"
  by (simp add: kind_of_string_def ParseKind_def)

end
