(* ===== verification/Outbox.thy ===== *)
theory Outbox
  imports Wager
begin

text \<open>
  \<open>internal/outbox/outbox.go\<close>: an event waiting to be published. \<open>int\<close> fields are 64-bit
  words. The zero time is 0. The retry delay \<open>backoffDelay\<close>, which the outbox worker and the
  pending-reference resolver share (\<open>internal/app/pending_reference_resolver.go\<close>), is here too.
\<close>

section \<open>Entries\<close>

datatype outbox_status = StatusPending | StatusPublished

record outbox_entry =
  oe_id :: uuid
  oe_aggregateType :: string
  oe_aggregateID :: uuid
  oe_eventType :: string
  oe_version :: i64
  oe_payload :: string
  oe_occurredAt :: time
  oe_correlationID :: string
  oe_causationID :: "string option"
  oe_status :: outbox_status
  oe_retryCount :: i64
  oe_nextSendAt :: time
  oe_createdAt :: time

record new_entry_input =
  ne_AggregateType :: string
  ne_AggregateID :: uuid
  ne_EventType :: string
  ne_Version :: i64
  ne_Payload :: string
  ne_OccurredAt :: time
  ne_CorrelationID :: string
  ne_CausationID :: "string option"

definition NewEntry :: "uuid \<Rightarrow> time \<Rightarrow> new_entry_input \<Rightarrow> error + outbox_entry" where
  "NewEntry newid now input =
     (if ne_AggregateType input = [] \<or> ne_AggregateID input = uuid_Nil \<or> ne_EventType input = [] \<or>
         sint (ne_Version input) \<le> 0 \<or> length (ne_Payload input) = 0 \<or> ne_OccurredAt input = 0 \<or>
         ne_CorrelationID input = []
      then Inl (OutboxE Outbox_ErrInvalidInput)
      else Inr
        \<lparr>oe_id = newid, oe_aggregateType = ne_AggregateType input, oe_aggregateID = ne_AggregateID input,
         oe_eventType = ne_EventType input, oe_version = ne_Version input, oe_payload = ne_Payload input,
         oe_occurredAt = ne_OccurredAt input, oe_correlationID = ne_CorrelationID input,
         oe_causationID = ne_CausationID input, oe_status = StatusPending, oe_retryCount = 0,
         oe_nextSendAt = now, oe_createdAt = now\<rparr>)"

definition EntryFromPersistence ::
  "uuid \<Rightarrow> string \<Rightarrow> uuid \<Rightarrow> string \<Rightarrow> i64 \<Rightarrow> string \<Rightarrow> time \<Rightarrow> string \<Rightarrow> string option \<Rightarrow>
   outbox_status \<Rightarrow> i64 \<Rightarrow> time \<Rightarrow> time \<Rightarrow> outbox_entry" where
  "EntryFromPersistence eid aggregateType aggregateID eventType version payload occurredAt
      correlationID causationID status retryCount nextSendAt createdAt =
     \<lparr>oe_id = eid, oe_aggregateType = aggregateType, oe_aggregateID = aggregateID,
      oe_eventType = eventType, oe_version = version, oe_payload = payload,
      oe_occurredAt = occurredAt, oe_correlationID = correlationID, oe_causationID = causationID,
      oe_status = status, oe_retryCount = retryCount, oe_nextSendAt = nextSendAt,
      oe_createdAt = createdAt\<rparr>"

definition MarkPublished :: "outbox_entry \<Rightarrow> outbox_entry" where
  "MarkPublished e = e\<lparr>oe_status := StatusPublished\<rparr>"

definition ScheduleRetry :: "time \<Rightarrow> outbox_entry \<Rightarrow> error + outbox_entry" where
  "ScheduleRetry next_at e =
     (if oe_status e \<noteq> StatusPending then Inl (OutboxE Outbox_ErrInvalidTransition)
      else Inr (e\<lparr>oe_retryCount := oe_retryCount e + 1, oe_nextSendAt := next_at\<rparr>))"

lemma MarkPublished_idem: "MarkPublished (MarkPublished e) = MarkPublished e"
  by (simp add: MarkPublished_def)

section \<open>Backoff\<close>

definition backoffDelay :: "i64 \<Rightarrow> i64 \<Rightarrow> i64" where
  "backoffDelay base attempts =
     (let attempts = (if sint attempts < 0 then 0 else attempts);
          attempts = (if sint attempts > 20 then 20 else attempts)
      in push_bit (nat (sint attempts)) base)"

text \<open>The number of doublings: the attempts, cut at 0 and at 20.\<close>

definition doublings :: "i64 \<Rightarrow> nat" where
  "doublings attempts = nat (max 0 (min 20 (sint attempts)))"

lemma backoffDelay_push: "backoffDelay base attempts = push_bit (doublings attempts) base"
  by (auto simp: backoffDelay_def doublings_def Let_def)

lemma doublings_le: "doublings a \<le> 20"
  by (simp add: doublings_def)

lemma sint_push_bit_fits:
  fixes base :: i64
  assumes "fits_i64 (sint base * 2 ^ k)"
  shows "sint (push_bit k base) = sint base * 2 ^ k"
proof -
  have "push_bit k base = of_int (sint base * 2 ^ k)"
    by (simp add: push_bit_eq_mult)
  with assms show ?thesis by (simp only: sint_of_int_fits)
qed

text \<open>Claim C31. With a base delay below \<open>2 ^ 43\<close> nanoseconds (about two hours and a half) the
  delay is exactly the base doubled once per attempt, twenty times at most, for every attempt
  count: it never wraps, never turns negative, and never exceeds \<open>2 ^ 20\<close> times the base.\<close>

theorem backoffDelay_exact:
  assumes "0 \<le> sint base" and "sint base < 2 ^ 43"
  shows "sint (backoffDelay base attempts) = sint base * 2 ^ doublings attempts \<and>
    sint base \<le> sint (backoffDelay base attempts) \<and>
    sint (backoffDelay base attempts) \<le> sint base * 2 ^ 20"
proof -
  let ?k = "doublings attempts"
  have p: "(1::int) \<le> 2 ^ ?k" "(2::int) ^ ?k \<le> 2 ^ 20"
    using power_increasing [OF doublings_le, of "2::int" attempts] by simp_all
  have hi: "sint base * 2 ^ ?k \<le> sint base * 2 ^ 20"
    using p(2) assms(1) by (rule mult_left_mono)
  have lo: "sint base \<le> sint base * 2 ^ ?k"
    using mult_left_mono [OF p(1) assms(1)] by simp
  have "fits_i64 (sint base * 2 ^ ?k)"
    using hi lo assms by (simp add: fits_i64_def)
  with hi lo show ?thesis by (simp only: backoffDelay_push sint_push_bit_fits)
qed

text \<open>The deployed outbox base of two seconds, on the twenty-fifth attempt.\<close>

theorem backoffDelay_exact_witness:
  "sint (backoffDelay 2000000000 25) = 2000000000 * 2 ^ 20"
proof -
  have h: "0 \<le> sint (2000000000 :: i64)" "sint (2000000000 :: i64) < 2 ^ 43" by simp_all
  have "doublings 25 = 20" by (simp add: doublings_def)
  with backoffDelay_exact [OF h, of 25] show ?thesis by simp
qed

text \<open>The cut at twenty doublings alone does not keep the delay away from overflow:
  a base of \<open>2 ^ 43\<close> nanoseconds already gives a negative delay, a next attempt in the past.\<close>

lemma backoffDelay_wraps: "sint (backoffDelay 8796093022208 20) < 0"
  by (simp add: backoffDelay_def Let_def push_bit_eq_mult)

end
