(* ===== verification/Inbox.thy ===== *)
theory Inbox
  imports Wager
begin

text \<open>
  \<open>internal/inbox/inbox.go\<close>: the deduplication record of one delivery, keyed by consumer and
  message. \<open>completedAt\<close> is set once, by \<open>MarkCompleted\<close>.
\<close>

record inbox =
  in_consumerName :: string
  in_messageID :: string
  in_payloadHash :: hash
  in_completedAt :: "time option"
  in_createdAt :: time

record new_inbox_input =
  ni_ConsumerName :: string
  ni_MessageID :: string
  ni_PayloadHash :: hash

definition Inbox_New :: "time \<Rightarrow> new_inbox_input \<Rightarrow> error + inbox" where
  "Inbox_New now input =
     (if ni_ConsumerName input = [] \<or> ni_MessageID input = [] then Inl (InboxE Inbox_ErrInvalidInput)
      else Inr \<lparr>in_consumerName = ni_ConsumerName input, in_messageID = ni_MessageID input,
                in_payloadHash = ni_PayloadHash input, in_completedAt = None, in_createdAt = now\<rparr>)"

definition Inbox_FromPersistence :: "string \<Rightarrow> string \<Rightarrow> hash \<Rightarrow> time option \<Rightarrow> time \<Rightarrow> inbox" where
  "Inbox_FromPersistence consumerName messageID payloadHash completedAt createdAt =
     \<lparr>in_consumerName = consumerName, in_messageID = messageID, in_payloadHash = payloadHash,
      in_completedAt = completedAt, in_createdAt = createdAt\<rparr>"

definition MarkCompleted :: "time \<Rightarrow> inbox \<Rightarrow> error + inbox" where
  "MarkCompleted now i =
     (if in_completedAt i \<noteq> None then Inl (InboxE ErrAlreadyCompleted)
      else Inr (i\<lparr>in_completedAt := Some now\<rparr>))"

definition IsCompleted :: "inbox \<Rightarrow> bool" where
  "IsCompleted i \<longleftrightarrow> in_completedAt i \<noteq> None"

lemma MarkCompleted_once:
  "MarkCompleted now i = Inr j \<Longrightarrow> IsCompleted j \<and> MarkCompleted now' j = Inl (InboxE ErrAlreadyCompleted)"
  by (auto simp: MarkCompleted_def IsCompleted_def split: if_splits)

end
