(* ===== verification/Events.thy ===== *)
theory Events
  imports Outbox Inbox
begin

text \<open>
  \<open>internal/app/events.go\<close> and \<open>internal/app/failure_codes.go\<close>: the events a use case leaves
  in the outbox and the failure codes it assigns.

  The record \<open>external\<close> collects what the code calls and this repository does not define:
  the two uses of SHA-256, the currency table of \<open>golang.org/x/text\<close>, the JSON text of the
  event structs, and the text form of a UUID. Every operation that needs one of them takes the
  record as its argument \<open>X\<close>.

  An event constructor draws an identifier and two clock readings; \<open>event_draw\<close> holds them.
\<close>

section \<open>Failure codes\<close>

definition FailureCodeInsufficientBalance :: failure_code where
  "FailureCodeInsufficientBalance = ''INSUFFICIENT_BALANCE''"
definition FailureCodeReversalExceedsBalance :: failure_code where
  "FailureCodeReversalExceedsBalance = ''REVERSAL_EXCEEDS_BALANCE''"
definition FailureCodeInvalidReference :: failure_code where
  "FailureCodeInvalidReference = ''INVALID_REFERENCE''"
definition FailureCodeDuplicateReversal :: failure_code where
  "FailureCodeDuplicateReversal = ''DUPLICATE_REVERSAL''"
definition FailureCodeReferenceNotFound :: failure_code where
  "FailureCodeReferenceNotFound = ''REFERENCE_NOT_FOUND''"

lemmas failure_codes = FailureCodeInsufficientBalance_def FailureCodeReversalExceedsBalance_def
  FailureCodeInvalidReference_def FailureCodeDuplicateReversal_def FailureCodeReferenceNotFound_def

section \<open>Event data\<close>

datatype event_data =
    WagerTransactionProcessedData uuid kind money
  | WagerTransactionRejectedData uuid kind failure_code
  | WagerTransactionPendingReferenceData uuid string
  | WalletBalanceChangedData uuid uuid direction money money money i64

record external =
  x_sha :: "payload \<Rightarrow> hash"
  x_body_sha :: "string \<Rightarrow> hash"
  x_iso :: "string \<Rightarrow> bool"
  x_json :: "event_data \<Rightarrow> string"
  x_uuid :: "uuid \<Rightarrow> string"

record event_draw =
  ed_id :: uuid
  ed_occurredAt :: time
  ed_now :: time

definition eventEnvelopeVersion :: i64 where
  "eventEnvelopeVersion = 1"

section \<open>Event constructors\<close>

definition newWagerTransactionProcessedEvent ::
  "external \<Rightarrow> event_draw \<Rightarrow> transaction \<Rightarrow> string \<Rightarrow> error + outbox_entry" where
  "newWagerTransactionProcessedEvent X d tx correlationID =
     NewEntry (ed_id d) (ed_now d)
       \<lparr>ne_AggregateType = ''WagerTransaction'', ne_AggregateID = tx_id tx,
        ne_EventType = ''WagerTransactionProcessed'', ne_Version = eventEnvelopeVersion,
        ne_Payload = x_json X (WagerTransactionProcessedData (tx_id tx) (tx_kind tx) (tx_amount tx)),
        ne_OccurredAt = ed_occurredAt d, ne_CorrelationID = correlationID, ne_CausationID = None\<rparr>"

definition newWagerTransactionRejectedEvent ::
  "external \<Rightarrow> event_draw \<Rightarrow> transaction \<Rightarrow> string \<Rightarrow> error + outbox_entry" where
  "newWagerTransactionRejectedEvent X d tx correlationID =
     NewEntry (ed_id d) (ed_now d)
       \<lparr>ne_AggregateType = ''WagerTransaction'', ne_AggregateID = tx_id tx,
        ne_EventType = ''WagerTransactionRejected'', ne_Version = eventEnvelopeVersion,
        ne_Payload = x_json X (WagerTransactionRejectedData (tx_id tx) (tx_kind tx) (tx_failureCode tx)),
        ne_OccurredAt = ed_occurredAt d, ne_CorrelationID = correlationID, ne_CausationID = None\<rparr>"

definition newWagerTransactionPendingReferenceEvent ::
  "external \<Rightarrow> event_draw \<Rightarrow> transaction \<Rightarrow> string \<Rightarrow> error + outbox_entry" where
  "newWagerTransactionPendingReferenceEvent X d tx correlationID =
     (let refExtID = (case tx_referenceExternalTransactionID tx of None \<Rightarrow> [] | Some r \<Rightarrow> r)
      in NewEntry (ed_id d) (ed_now d)
       \<lparr>ne_AggregateType = ''WagerTransaction'', ne_AggregateID = tx_id tx,
        ne_EventType = ''WagerTransactionPendingReference'', ne_Version = eventEnvelopeVersion,
        ne_Payload = x_json X (WagerTransactionPendingReferenceData (tx_id tx) refExtID),
        ne_OccurredAt = ed_occurredAt d, ne_CorrelationID = correlationID, ne_CausationID = None\<rparr>)"

definition newWalletBalanceChangedEvent ::
  "external \<Rightarrow> event_draw \<Rightarrow> wallet \<Rightarrow> ledger_entry \<Rightarrow> string \<Rightarrow> string option \<Rightarrow> error + outbox_entry" where
  "newWalletBalanceChangedEvent X d w entry correlationID causationID =
     NewEntry (ed_id d) (ed_now d)
       \<lparr>ne_AggregateType = ''Wallet'', ne_AggregateID = w_id w,
        ne_EventType = ''WalletBalanceChanged'', ne_Version = eventEnvelopeVersion,
        ne_Payload = x_json X (WalletBalanceChangedData (w_id w) (le_transactionID entry)
          (le_direction entry) (le_amount entry) (le_balanceBefore entry) (le_balanceAfter entry)
          (w_version w)),
        ne_OccurredAt = ed_occurredAt d, ne_CorrelationID = correlationID, ne_CausationID = causationID\<rparr>"

section \<open>When an event can be built\<close>

text \<open>What a constructor needs of its surroundings: a correlation id, a clock past the zero
  time, and a JSON text that is not empty.\<close>

definition event_ready :: "external \<Rightarrow> event_draw \<Rightarrow> string \<Rightarrow> bool" where
  "event_ready X d correlationID \<longleftrightarrow>
     correlationID \<noteq> [] \<and> ed_occurredAt d \<noteq> 0 \<and> (\<forall>x. x_json X x \<noteq> [])"

lemma NewEntry_Inr:
  "NewEntry newid now i = Inr e \<Longrightarrow>
     oe_id e = newid \<and> oe_status e = StatusPending \<and> oe_retryCount e = 0 \<and>
     oe_aggregateType e = ne_AggregateType i \<and> oe_aggregateID e = ne_AggregateID i \<and>
     oe_eventType e = ne_EventType i \<and> oe_payload e = ne_Payload i \<and>
     oe_correlationID e = ne_CorrelationID i \<and> oe_causationID e = ne_CausationID i \<and>
     oe_nextSendAt e = now \<and> oe_createdAt e = now"
  by (auto simp: NewEntry_def split: if_splits)

lemmas event_defs = newWagerTransactionProcessedEvent_def newWagerTransactionRejectedEvent_def
  newWagerTransactionPendingReferenceEvent_def newWalletBalanceChangedEvent_def

lemma events_built:
  assumes "event_ready X d cid"
  shows "tx_id tx \<noteq> uuid_Nil \<Longrightarrow> \<exists>e. newWagerTransactionProcessedEvent X d tx cid = Inr e"
    and "tx_id tx \<noteq> uuid_Nil \<Longrightarrow> \<exists>e. newWagerTransactionRejectedEvent X d tx cid = Inr e"
    and "tx_id tx \<noteq> uuid_Nil \<Longrightarrow> \<exists>e. newWagerTransactionPendingReferenceEvent X d tx cid = Inr e"
    and "w_id w \<noteq> uuid_Nil \<Longrightarrow> \<exists>e. newWalletBalanceChangedEvent X d w en cid cause = Inr e"
  using assms
  by (simp_all add: event_defs event_ready_def NewEntry_def eventEnvelopeVersion_def Let_def)

text \<open>An event without a correlation id is never built, whatever its kind: a use case
  called without one fails before it writes anything.\<close>

lemma no_event_without_correlation:
  "newWagerTransactionProcessedEvent X d tx [] = Inl (OutboxE Outbox_ErrInvalidInput) \<and>
   newWagerTransactionRejectedEvent X d tx [] = Inl (OutboxE Outbox_ErrInvalidInput) \<and>
   newWagerTransactionPendingReferenceEvent X d tx [] = Inl (OutboxE Outbox_ErrInvalidInput) \<and>
   newWalletBalanceChangedEvent X d w en [] cause = Inl (OutboxE Outbox_ErrInvalidInput)"
  by (simp add: event_defs NewEntry_def Let_def)

end
