(* ===== verification/Table.thy ===== *)
theory Table
  imports Prelude
begin

text \<open>
  A table with a key: a list of rows in insertion order, read with \<open>SELECT ... WHERE key = $1\<close>
  and written with \<open>INSERT ... ON CONFLICT (key) DO UPDATE SET ...\<close>. \<open>merge old new\<close> is the row
  the \<open>SET\<close> clause makes of the stored row and of the \<open>EXCLUDED\<close> one.

  The locale \<open>keyed_table\<close> states what the repositories rely on: the \<open>SET\<close> clause leaves the
  key alone. Its lemmas are the laws of lookup after upsert; every table with a key interprets
  it in \<open>Store\<close>.
\<close>

definition lookup_by :: "('r \<Rightarrow> 'k) \<Rightarrow> 'k \<Rightarrow> 'r list \<Rightarrow> 'r option" where
  "lookup_by key k rows = List.find (\<lambda>r. key r = k) rows"

definition upsert :: "('r \<Rightarrow> 'k) \<Rightarrow> ('r \<Rightarrow> 'r \<Rightarrow> 'r) \<Rightarrow> 'r \<Rightarrow> 'r list \<Rightarrow> 'r list" where
  "upsert key merge new rows =
     (if lookup_by key (key new) rows = None then rows @ [new]
      else map (\<lambda>r. if key r = key new then merge r new else r) rows)"

lemma lookup_by_Nil [simp]: "lookup_by key k [] = None"
  by (simp add: lookup_by_def)

lemma lookup_by_Cons [simp]:
  "lookup_by key k (r # rows) = (if key r = k then Some r else lookup_by key k rows)"
  by (simp add: lookup_by_def)

lemma lookup_by_None_iff: "lookup_by key k rows = None \<longleftrightarrow> k \<notin> key ` set rows"
  by (induction rows) auto

lemma lookup_by_NoneD: "lookup_by key k rows = None \<Longrightarrow> r \<in> set rows \<Longrightarrow> key r \<noteq> k"
  by (induction rows) (auto split: if_splits)

lemma lookup_by_SomeD: "lookup_by key k rows = Some r \<Longrightarrow> r \<in> set rows \<and> key r = k"
  by (induction rows) (auto split: if_splits)

lemma lookup_by_append:
  "lookup_by key k (xs @ ys) = (case lookup_by key k xs of None \<Rightarrow> lookup_by key k ys | Some r \<Rightarrow> Some r)"
  by (induction xs) auto

lemma lookup_by_eqI:
  "distinct (map key rows) \<Longrightarrow> r \<in> set rows \<Longrightarrow> lookup_by key (key r) rows = Some r"
  by (induction rows) (auto simp: image_iff)

lemma lookup_by_map:
  "(\<And>r. key (f r) = key r) \<Longrightarrow> lookup_by key k (map f rows) = map_option f (lookup_by key k rows)"
  by (induction rows) auto

locale keyed_table =
  fixes key :: "'r \<Rightarrow> 'k"
    and merge :: "'r \<Rightarrow> 'r \<Rightarrow> 'r"
  assumes merge_key: "key (merge old new) = key old"
begin

lemma lookup_upsert:
  "lookup_by key k (upsert key merge new rows) =
     (if k = key new
      then Some (case lookup_by key k rows of None \<Rightarrow> new | Some old \<Rightarrow> merge old new)
      else lookup_by key k rows)"
proof (cases "lookup_by key (key new) rows")
  case None
  then show ?thesis
    by (auto simp: upsert_def lookup_by_append split: option.splits)
next
  case (Some old)
  let ?f = "\<lambda>r. if key r = key new then merge r new else r"
  have "lookup_by key k (map ?f rows) = map_option ?f (lookup_by key k rows)"
    by (rule lookup_by_map) (simp add: merge_key)
  then show ?thesis
    using Some by (cases "lookup_by key k rows") (auto simp: upsert_def dest: lookup_by_SomeD)
qed

lemma upsert_keys:
  "map key (upsert key merge new rows) =
     (if key new \<in> key ` set rows then map key rows else map key rows @ [key new])"
  by (auto simp: upsert_def lookup_by_None_iff merge_key)

lemma upsert_distinct:
  "distinct (map key rows) \<Longrightarrow> distinct (map key (upsert key merge new rows))"
  by (auto simp: upsert_keys)

lemma upsert_rowE:
  assumes "r \<in> set (upsert key merge new rows)"
  obtains (kept) "r \<in> set rows" and "key r \<noteq> key new"
    | (inserted) "r = new" and "lookup_by key (key new) rows = None"
    | (updated) old where "old \<in> set rows" and "key old = key new" and "r = merge old new"
  using assms
  by (auto simp: upsert_def lookup_by_None_iff image_iff split: if_splits)

lemma upsert_set:
  assumes "distinct (map key rows)"
  shows "set (upsert key merge new rows) = {r \<in> set rows. key r \<noteq> key new} \<union>
    {case lookup_by key (key new) rows of None \<Rightarrow> new | Some old \<Rightarrow> merge old new}"
proof (cases "lookup_by key (key new) rows")
  case None
  moreover have "key r \<noteq> key new" if "r \<in> set rows" for r
    using None that by (rule lookup_by_NoneD)
  then have "{r \<in> set rows. key r \<noteq> key new} = set rows" by auto
  ultimately show ?thesis by (simp add: upsert_def)
next
  case (Some old)
  then have old: "old \<in> set rows" "key old = key new" by (auto dest: lookup_by_SomeD)
  have "r = old" if "r \<in> set rows" "key r = key new" for r
    using assms that old by (metis distinct_map inj_onD)
  then have B: "{r \<in> set rows. key r = key new} = {old}" using old by blast
  let ?f = "\<lambda>r. if key r = key new then merge r new else r"
  let ?A = "{r \<in> set rows. key r \<noteq> key new}"
  have "set rows = ?A \<union> {old}" unfolding B [symmetric] by blast
  then have "set (map ?f rows) = ?f ` ?A \<union> ?f ` {old}" by (metis image_Un list.set_map)
  moreover have "?f ` ?A = ?A" by force
  ultimately have "set (map ?f rows) = ?A \<union> {merge old new}" using old by simp
  with Some show ?thesis by (simp add: upsert_def)
qed

lemma upsert_kept: "r \<in> set rows \<Longrightarrow> key r \<noteq> key new \<Longrightarrow> r \<in> set (upsert key merge new rows)"
  by (force simp: upsert_def)

end

end
