(* ===== verification/Store.thy ===== *)
theory Store
  imports Events Table "HOL-Library.Product_Lexorder"
begin

text \<open>
  \<open>internal/postgres\<close>: the five tables of the migrations and the repositories' SQL on them, the
  error wrapping of \<open>db.go\<close> and \<open>TxManager.WithinTx\<close>.

  A row holds the columns of its table; the outbox and inbox tables have exactly the fields of
  their domain types and are lists of those. A statement is a function on the tables: it
  checks the constraints the migrations declare, in which case it changes nothing and reports
  the name of the violated one, or it returns its result and the new tables.

  A session \<open>sess\<close> is the tables a connection sees, its transaction state, and the schedule of
  the failures the driver will report: each round trip takes the next element of \<open>s_faults\<close>,
  and an exhausted schedule means no failure. A round trip fails before anything reached the
  server (\<open>NotSent\<close>, the failures for which \<open>pgconn.SafeToRetry\<close> answers true), is refused by the
  server (\<open>Refused\<close>), or is carried out although the reply is lost (\<open>ReplyLost\<close>); the caller cannot
  tell the last two apart. PostgreSQL refuses every statement of a transaction in which one
  failed, which the state \<open>TxAborted\<close> records.
\<close>

section \<open>Tables\<close>

record wallet_row =
  wl_id :: uuid
  wl_player_id :: uuid
  wl_currency :: string
  wl_balance :: i64
  wl_version :: i64
  wl_created_at :: time
  wl_updated_at :: time

record ledger_row =
  lr_id :: uuid
  lr_wallet_id :: uuid
  lr_transaction_id :: uuid
  lr_direction :: direction
  lr_amount :: i64
  lr_balance_before :: i64
  lr_balance_after :: i64
  lr_created_at :: time

record wager_row =
  wr_id :: uuid
  wr_status :: tx_status
  wr_kind :: kind
  wr_provider_id :: "string option"
  wr_external_transaction_id :: "string option"
  wr_round_id :: "string option"
  wr_game_id :: "string option"
  wr_player_id :: uuid
  wr_wallet_id :: uuid
  wr_currency :: string
  wr_amount :: i64
  wr_reference_external_transaction_id :: "string option"
  wr_reference_transaction_id :: "uuid option"
  wr_failure_code :: "string option"
  wr_payload_hash :: hash
  wr_created_at :: time
  wr_updated_at :: time
  wr_attempts :: i64
  wr_next_retry_at :: "time option"

record db =
  db_wallets :: "wallet_row list"
  db_ledger :: "ledger_row list"
  db_wagers :: "wager_row list"
  db_outbox :: "outbox_entry list"
  db_inbox :: "inbox list"

section \<open>Sessions\<close>

datatype tx_state = NoTx | TxActive | TxAborted

datatype fault = NotSent | Refused | ReplyLost

record sess =
  s_db :: db
  s_tx :: tx_state
  s_faults :: "fault option list"

definition next_fault :: "sess \<Rightarrow> fault option \<times> sess" where
  "next_fault s = (case s_faults s of [] \<Rightarrow> (None, s) | f # fs \<Rightarrow> (f, s\<lparr>s_faults := fs\<rparr>))"

definition abort_tx :: "sess \<Rightarrow> sess" where
  "abort_tx s = (if s_tx s = TxActive then s\<lparr>s_tx := TxAborted\<rparr> else s)"

definition SafeToRetry :: "pg_error \<Rightarrow> bool" where
  "SafeToRetry e = (case e of DriverError b \<Rightarrow> b | _ \<Rightarrow> False)"

definition wrapTransientErr :: "pg_error \<Rightarrow> error" where
  "wrapTransientErr e = (if SafeToRetry e then Unavailable e else PgE e)"

definition driver_error :: "fault \<Rightarrow> error" where
  "driver_error f = wrapTransientErr (DriverError (f = NotSent))"

text \<open>
  One statement sent through \<open>dbFor(ctx, pool)\<close>. Outside a transaction a statement whose reply is
  lost has committed; inside one it is undone with the transaction.
\<close>

definition query :: "(db, pg_error, 'a) prog \<Rightarrow> (sess, error, 'a) prog" where
  "query stmt s =
     (if s_tx s = TxAborted then (Inl (PgE InFailedTransaction), s)
      else case next_fault s of
        (Some f, s') \<Rightarrow>
          (Inl (driver_error f),
           if f = ReplyLost \<and> s_tx s = NoTx then
             (case stmt (s_db s') of (Inl _, _) \<Rightarrow> s' | (Inr _, d) \<Rightarrow> s'\<lparr>s_db := d\<rparr>)
           else abort_tx s')
      | (None, s') \<Rightarrow>
          (case stmt (s_db s') of
             (Inl e, _) \<Rightarrow> (Inl (wrapTransientErr e), if e = NoRows then s' else abort_tx s')
           | (Inr x, d) \<Rightarrow> (Inr x, s'\<lparr>s_db := d\<rparr>)))"

text \<open>
  \<open>WithinTx\<close>: a nested call joins the transaction it finds. The outermost one begins, runs the
  body, and commits; on any error the deferred \<open>Rollback\<close> restores the tables. Committing a
  transaction in which a statement failed is a rollback that reports an error, and a commit
  whose reply is lost has happened.
\<close>

definition WithinTx :: "(sess, error, 'a) prog \<Rightarrow> (sess, error, 'a) prog" where
  "WithinTx fn s =
     (if s_tx s \<noteq> NoTx then fn s
      else case next_fault s of
        (Some f, s') \<Rightarrow> (Inl (driver_error f), s')
      | (None, s') \<Rightarrow>
          (case fn (s'\<lparr>s_tx := TxActive\<rparr>) of
             (Inl e, t) \<Rightarrow> (Inl e, t\<lparr>s_db := s_db s, s_tx := NoTx\<rparr>)
           | (Inr x, t) \<Rightarrow>
               if s_tx t = TxAborted
               then (Inl (PgE InFailedTransaction), t\<lparr>s_db := s_db s, s_tx := NoTx\<rparr>)
               else (case next_fault t of
                  (Some f, t') \<Rightarrow>
                    (Inl (driver_error f),
                     if f = ReplyLost then t'\<lparr>s_tx := NoTx\<rparr>
                     else t'\<lparr>s_db := s_db s, s_tx := NoTx\<rparr>)
                | (None, t') \<Rightarrow> (Inr x, t'\<lparr>s_tx := NoTx\<rparr>))))"

section \<open>Rows and domain values\<close>

definition nullableString :: "string \<Rightarrow> string option" where
  "nullableString s = (if s = [] then None else Some s)"

definition stringOrEmpty :: "string option \<Rightarrow> string" where
  "stringOrEmpty s = (case s of None \<Rightarrow> [] | Some s \<Rightarrow> s)"

definition wallet_row_of :: "wallet \<Rightarrow> wallet_row" where
  "wallet_row_of w =
     \<lparr>wl_id = w_id w, wl_player_id = w_playerID w, wl_currency = m_currency (w_balance w),
      wl_balance = m_amount (w_balance w), wl_version = w_version w,
      wl_created_at = w_createdAt w, wl_updated_at = w_updatedAt w\<rparr>"

definition scanWallet :: "external \<Rightarrow> wallet_row \<Rightarrow> error + wallet" where
  "scanWallet X r =
     bindR (FromMinorUnits (x_iso X) (wl_currency r) (wl_balance r)) (\<lambda>balanceMoney.
     Inr (Wallet_FromPersistence (wl_id r) (wl_player_id r) (wl_version r) balanceMoney
       (wl_created_at r) (wl_updated_at r)))"

definition ledger_row_of :: "ledger_entry \<Rightarrow> ledger_row" where
  "ledger_row_of e =
     \<lparr>lr_id = le_id e, lr_wallet_id = le_walletID e, lr_transaction_id = le_transactionID e,
      lr_direction = le_direction e, lr_amount = m_amount (le_amount e),
      lr_balance_before = m_amount (le_balanceBefore e),
      lr_balance_after = m_amount (le_balanceAfter e), lr_created_at = le_createdAt e\<rparr>"

definition scanLedgerEntry :: "external \<Rightarrow> ledger_row \<times> string \<Rightarrow> error + ledger_entry" where
  "scanLedgerEntry X rc =
     (let r = fst rc; currency = snd rc in
     bindR (FromMinorUnits (x_iso X) currency (lr_amount r)) (\<lambda>amountMoney.
     bindR (FromMinorUnits (x_iso X) currency (lr_balance_before r)) (\<lambda>beforeMoney.
     bindR (FromMinorUnits (x_iso X) currency (lr_balance_after r)) (\<lambda>afterMoney.
     Inr (LedgerEntryFromPersistence (lr_id r) (lr_wallet_id r) (lr_transaction_id r)
       (lr_direction r) amountMoney beforeMoney afterMoney (lr_created_at r))))))"

definition wager_row_of :: "external \<Rightarrow> transaction \<Rightarrow> wager_row" where
  "wager_row_of X tx =
     \<lparr>wr_id = tx_id tx, wr_status = tx_status tx, wr_kind = tx_kind tx,
      wr_provider_id = nullableString (tx_providerID tx),
      wr_external_transaction_id = nullableString (tx_externalTransactionID tx),
      wr_round_id = nullableString (tx_roundID tx), wr_game_id = nullableString (tx_gameID tx),
      wr_player_id = tx_playerID tx, wr_wallet_id = tx_walletID tx,
      wr_currency = m_currency (tx_amount tx), wr_amount = m_amount (tx_amount tx),
      wr_reference_external_transaction_id = tx_referenceExternalTransactionID tx,
      wr_reference_transaction_id = tx_referenceTransactionID tx,
      wr_failure_code = (if tx_failureCode tx \<noteq> [] then Some (tx_failureCode tx) else None),
      wr_payload_hash = PayloadHash (x_sha X) tx, wr_created_at = tx_createdAt tx,
      wr_updated_at = tx_updatedAt tx, wr_attempts = 0, wr_next_retry_at = None\<rparr>"

definition scanWagerTransaction :: "external \<Rightarrow> wager_row \<Rightarrow> error + transaction" where
  "scanWagerTransaction X r =
     bindR (FromMinorUnits (x_iso X) (wr_currency r) (wr_amount r)) (\<lambda>amountMoney.
     Inr (TransactionFromPersistence (wr_id r) (wr_status r) (wr_kind r)
       (stringOrEmpty (wr_provider_id r)) (stringOrEmpty (wr_external_transaction_id r))
       (stringOrEmpty (wr_round_id r)) (stringOrEmpty (wr_game_id r))
       (wr_player_id r) (wr_wallet_id r) amountMoney
       (wr_reference_external_transaction_id r) (wr_reference_transaction_id r)
       (case wr_failure_code r of None \<Rightarrow> [] | Some c \<Rightarrow> c)
       (wr_created_at r) (wr_updated_at r)))"

definition scanWagerTransactionWithAttempts :: "external \<Rightarrow> wager_row \<Rightarrow> error + transaction \<times> i64" where
  "scanWagerTransactionWithAttempts X r =
     bindR (FromMinorUnits (x_iso X) (wr_currency r) (wr_amount r)) (\<lambda>amountMoney.
     Inr (TransactionFromPersistence (wr_id r) (wr_status r) (wr_kind r)
       (stringOrEmpty (wr_provider_id r)) (stringOrEmpty (wr_external_transaction_id r))
       (stringOrEmpty (wr_round_id r)) (stringOrEmpty (wr_game_id r))
       (wr_player_id r) (wr_wallet_id r) amountMoney
       (wr_reference_external_transaction_id r) (wr_reference_transaction_id r)
       (case wr_failure_code r of None \<Rightarrow> [] | Some c \<Rightarrow> c)
       (wr_created_at r) (wr_updated_at r), wr_attempts r))"

text \<open>\<open>QueryRow(...).Scan\<close>: no row is \<open>ErrNoRows\<close>.\<close>

definition one_row :: "'r option \<Rightarrow> pg_error + 'r" where
  "one_row r = (case r of None \<Rightarrow> Inl NoRows | Some x \<Rightarrow> Inr x)"

text \<open>\<open>errors.Is(err, pgx.ErrNoRows)\<close> turned into the sentinel \<open>notFound\<close>.\<close>

definition no_rows_as :: "app_error \<Rightarrow> error + 'a \<Rightarrow> error + 'a" where
  "no_rows_as notFound r = (case r of Inl (PgE NoRows) \<Rightarrow> Inl (AppE notFound) | _ \<Rightarrow> r)"

section \<open>Wallet repository\<close>

definition Wallet_FindByID :: "external \<Rightarrow> uuid \<Rightarrow> (sess, error, wallet) prog" where
  "Wallet_FindByID X wid =
     onResult (query (\<lambda>d. (one_row (lookup_by wl_id wid (db_wallets d)), d))) (\<lambda>r.
     liftE (no_rows_as ErrWalletNotFound (bindR r (scanWallet X))))"

definition FindByPlayerAndCurrency :: "external \<Rightarrow> uuid \<Rightarrow> string \<Rightarrow> (sess, error, wallet) prog" where
  "FindByPlayerAndCurrency X playerID currency =
     onResult (query (\<lambda>d. (one_row (List.find
       (\<lambda>r. wl_player_id r = playerID \<and> wl_currency r = currency) (db_wallets d)), d))) (\<lambda>r.
     liftE (no_rows_as ErrWalletNotFound (bindR r (scanWallet X))))"

definition wallet_merge :: "wallet_row \<Rightarrow> wallet_row \<Rightarrow> wallet_row" where
  "wallet_merge old new = old\<lparr>wl_balance := wl_balance new, wl_version := wl_version new,
     wl_updated_at := wl_updated_at new\<rparr>"

definition wallet_violation :: "db \<Rightarrow> wallet_row \<Rightarrow> pg_error option" where
  "wallet_violation d r =
     (if sint (wl_balance r) < 0 then Some (CheckViolation ''wallets_balance_non_negative'')
      else if sint (wl_version r) < 1 then Some (CheckViolation ''wallets_version_positive'')
      else if lookup_by wl_id (wl_id r) (db_wallets d) = None \<and>
        (\<exists>o'\<in>set (db_wallets d). wl_player_id o' = wl_player_id r \<and> wl_currency o' = wl_currency r)
      then Some (UniqueViolation ''wallets_player_currency_unique'')
      else None)"

definition insert_wallet :: "wallet_row \<Rightarrow> (db, pg_error, unit) prog" where
  "insert_wallet r d =
     (case wallet_violation d r of Some e \<Rightarrow> (Inl e, d)
      | None \<Rightarrow> (Inr (), d\<lparr>db_wallets := upsert wl_id wallet_merge r (db_wallets d)\<rparr>))"

definition Wallet_Save :: "wallet \<Rightarrow> (sess, error, unit) prog" where
  "Wallet_Save w =
     onResult (query (insert_wallet (wallet_row_of w))) (\<lambda>r.
     case r of
       Inl e \<Rightarrow> if e = PgE (UniqueViolation ''wallets_player_currency_unique'')
                then fail (AppE ErrWalletAlreadyExists) else fail e
     | Inr _ \<Rightarrow> ret ())"

definition ledger_violation :: "db \<Rightarrow> ledger_row \<Rightarrow> pg_error option" where
  "ledger_violation d r =
     (if (case lr_direction r of Direction_other _ \<Rightarrow> True | _ \<Rightarrow> False)
      then Some (CheckViolation ''wallet_ledger_entries_direction_check'')
      else if sint (lr_amount r) \<le> 0 then Some (CheckViolation ''wallet_ledger_entries_amount_positive'')
      else if sint (lr_balance_before r) < 0
      then Some (CheckViolation ''wallet_ledger_entries_balance_before_non_negative'')
      else if sint (lr_balance_after r) < 0
      then Some (CheckViolation ''wallet_ledger_entries_balance_after_non_negative'')
      else if \<not> (lr_direction r = DirectionCredit \<and>
             sint (lr_balance_after r) = sint (lr_balance_before r) + sint (lr_amount r) \<or>
           lr_direction r = DirectionDebit \<and>
             sint (lr_balance_after r) = sint (lr_balance_before r) - sint (lr_amount r))
      then Some (CheckViolation ''wallet_ledger_entries_balance_consistent'')
      else if (\<exists>o'\<in>set (db_ledger d). lr_id o' = lr_id r)
      then Some (UniqueViolation ''wallet_ledger_entries_pkey'')
      else if (\<exists>o'\<in>set (db_ledger d). lr_wallet_id o' = lr_wallet_id r \<and>
             lr_transaction_id o' = lr_transaction_id r)
      then Some (UniqueViolation ''wallet_ledger_entries_wallet_transaction_unique'')
      else if lookup_by wl_id (lr_wallet_id r) (db_wallets d) = None
      then Some (ForeignKeyViolation ''wallet_ledger_entries_wallet_id_fkey'')
      else None)"

definition insert_ledger :: "ledger_row \<Rightarrow> (db, pg_error, unit) prog" where
  "insert_ledger r d =
     (case ledger_violation d r of Some e \<Rightarrow> (Inl e, d)
      | None \<Rightarrow> (Inr (), d\<lparr>db_ledger := db_ledger d @ [r]\<rparr>))"

definition SaveLedgerEntry :: "ledger_entry \<Rightarrow> (sess, error, unit) prog" where
  "SaveLedgerEntry e = query (insert_ledger (ledger_row_of e))"

text \<open>\<open>ledgerEntrySelect\<close>: the rows joined with the currency of their wallet.\<close>

definition ledger_join :: "db \<Rightarrow> (ledger_row \<times> string) list" where
  "ledger_join d = List.map_filter (\<lambda>r.
     map_option (\<lambda>w. (r, wl_currency w)) (lookup_by wl_id (lr_wallet_id r) (db_wallets d))) (db_ledger d)"

definition ledger_order :: "ledger_row \<Rightarrow> time \<times> uuid" where
  "ledger_order r = (lr_created_at r, lr_id r)"

definition FindLedgerEntryByTransactionID :: "external \<Rightarrow> uuid \<Rightarrow> (sess, error, ledger_entry) prog" where
  "FindLedgerEntryByTransactionID X transactionID =
     onResult (query (\<lambda>d. (one_row (List.find
       (\<lambda>rc. lr_transaction_id (fst rc) = transactionID) (ledger_join d)), d))) (\<lambda>r.
     liftE (no_rows_as ErrLedgerEntryNotFound (bindR r (scanLedgerEntry X))))"

text \<open>The loop over \<open>rows.Next()\<close>, which stops at the first row that does not scan.\<close>

fun scan_rows :: "('r \<Rightarrow> error + 'a) \<Rightarrow> 'r list \<Rightarrow> error + 'a list" where
  "scan_rows scan [] = Inr []"
| "scan_rows scan (r # rows) =
     bindR (scan r) (\<lambda>e. bindR (scan_rows scan rows) (\<lambda>entries. Inr (e # entries)))"

definition AllLedgerEntries :: "external \<Rightarrow> uuid \<Rightarrow> (sess, error, ledger_entry list) prog" where
  "AllLedgerEntries X walletID =
     bindE (query (\<lambda>d. (Inr (sort_key (ledger_order \<circ> fst)
       (filter (\<lambda>rc. lr_wallet_id (fst rc) = walletID) (ledger_join d))), d))) (\<lambda>rows.
     liftE (scan_rows (scanLedgerEntry X) rows))"

definition ListLedgerEntries ::
  "external \<Rightarrow> uuid \<Rightarrow> uuid option \<Rightarrow> i64 \<Rightarrow> (sess, error, ledger_entry list) prog" where
  "ListLedgerEntries X walletID cursor limit =
     bindE (query (\<lambda>d.
       let own = filter (\<lambda>rc. lr_wallet_id (fst rc) = walletID) (ledger_join d);
           after = (case cursor of
               None \<Rightarrow> own
             | Some c \<Rightarrow> (case lookup_by lr_id c (db_ledger d) of
                   None \<Rightarrow> []
                 | Some cr \<Rightarrow> filter (\<lambda>rc. ledger_order cr < ledger_order (fst rc)) own))
       in (Inr (take (nat (sint limit)) (sort_key (ledger_order \<circ> fst) after)), d))) (\<lambda>rows.
     liftE (scan_rows (scanLedgerEntry X) rows))"

section \<open>Wager repository\<close>

definition wager_merge :: "wager_row \<Rightarrow> wager_row \<Rightarrow> wager_row" where
  "wager_merge old new = old\<lparr>wr_status := wr_status new,
     wr_reference_transaction_id := wr_reference_transaction_id new,
     wr_failure_code := wr_failure_code new, wr_updated_at := wr_updated_at new\<rparr>"

definition wager_violation :: "db \<Rightarrow> wager_row \<Rightarrow> pg_error option" where
  "wager_violation d r =
     (if (case wr_kind r of Kind_other _ \<Rightarrow> True | _ \<Rightarrow> False)
      then Some (CheckViolation ''wager_transactions_kind_check'')
      else if wr_kind r \<noteq> KindOpening \<and>
        (wr_provider_id r = None \<or> wr_provider_id r = Some [] \<or>
         wr_external_transaction_id r = None \<or> wr_external_transaction_id r = Some [] \<or>
         wr_round_id r = None \<or> wr_round_id r = Some [] \<or> wr_game_id r = None \<or> wr_game_id r = Some [])
      then Some (CheckViolation ''wager_transactions_provider_fields_required'')
      else if lookup_by wr_id (wr_id r) (db_wagers d) = None \<and>
        wr_provider_id r \<noteq> None \<and> wr_external_transaction_id r \<noteq> None \<and>
        (\<exists>o'\<in>set (db_wagers d). wr_provider_id o' = wr_provider_id r \<and>
           wr_external_transaction_id o' = wr_external_transaction_id r)
      then Some (UniqueViolation ''wager_transactions_provider_external_unique'')
      else if lookup_by wr_id (wr_id r) (db_wagers d) = None \<and> wr_kind r = KindOpening \<and>
        (\<exists>o'\<in>set (db_wagers d). wr_wallet_id o' = wr_wallet_id r \<and> wr_kind o' = KindOpening)
      then Some (UniqueViolation ''wager_transactions_single_opening_per_wallet_idx'')
      else if lookup_by wl_id (wr_wallet_id r) (db_wallets d) = None
      then Some (ForeignKeyViolation ''wager_transactions_wallet_id_fkey'')
      else (case wr_reference_transaction_id r of
          None \<Rightarrow> None
        | Some ref \<Rightarrow> if lookup_by wr_id ref (db_wagers d) = None \<and> ref \<noteq> wr_id r
            then Some (ForeignKeyViolation ''wager_transactions_reference_transaction_id_fkey'')
            else None))"

definition insert_wager :: "wager_row \<Rightarrow> (db, pg_error, unit) prog" where
  "insert_wager r d =
     (case wager_violation d r of Some e \<Rightarrow> (Inl e, d)
      | None \<Rightarrow> (Inr (), d\<lparr>db_wagers := upsert wr_id wager_merge r (db_wagers d)\<rparr>))"

definition Wager_Save :: "external \<Rightarrow> transaction \<Rightarrow> (sess, error, unit) prog" where
  "Wager_Save X tx =
     onResult (query (insert_wager (wager_row_of X tx))) (\<lambda>r.
     case r of
       Inl e \<Rightarrow> if e = PgE (UniqueViolation ''wager_transactions_provider_external_unique'')
                then fail (AppE ErrWagerTransactionAlreadyExists) else fail e
     | Inr _ \<Rightarrow> ret ())"

definition Wager_FindByID :: "external \<Rightarrow> uuid \<Rightarrow> (sess, error, transaction) prog" where
  "Wager_FindByID X tid =
     onResult (query (\<lambda>d. (one_row (lookup_by wr_id tid (db_wagers d)), d))) (\<lambda>r.
     liftE (no_rows_as ErrWagerTransactionNotFound (bindR r (scanWagerTransaction X))))"

definition FindByProviderAndExternalID :: "external \<Rightarrow> string \<Rightarrow> string \<Rightarrow> (sess, error, transaction) prog" where
  "FindByProviderAndExternalID X providerID externalTransactionID =
     onResult (query (\<lambda>d. (one_row (List.find (\<lambda>r. wr_provider_id r = Some providerID \<and>
       wr_external_transaction_id r = Some externalTransactionID) (db_wagers d)), d))) (\<lambda>r.
     liftE (no_rows_as ErrWagerTransactionNotFound (bindR r (scanWagerTransaction X))))"

definition is_reversal_row :: "uuid \<Rightarrow> wager_row \<Rightarrow> bool" where
  "is_reversal_row ref r \<longleftrightarrow> wr_reference_transaction_id r = Some ref \<and>
     (wr_kind r = KindRefund \<or> wr_kind r = KindRollback) \<and> wr_status r = TxStatusProcessed"

definition FindReversal :: "external \<Rightarrow> uuid \<Rightarrow> (sess, error, transaction) prog" where
  "FindReversal X referencedTransactionID =
     onResult (query (\<lambda>d. (one_row (List.find (is_reversal_row referencedTransactionID)
       (db_wagers d)), d))) (\<lambda>r.
     liftE (no_rows_as ErrWagerTransactionNotFound (bindR r (scanWagerTransaction X))))"

definition is_due_row :: "time \<Rightarrow> wager_row \<Rightarrow> bool" where
  "is_due_row now r \<longleftrightarrow> wr_status r = TxStatusPendingReference \<and>
     (case wr_next_retry_at r of None \<Rightarrow> True | Some t \<Rightarrow> t \<le> now)"

definition FindDuePendingReferences ::
  "external \<Rightarrow> time \<Rightarrow> i64 \<Rightarrow> (sess, error, (transaction \<times> i64) list) prog" where
  "FindDuePendingReferences X now limit =
     bindE (query (\<lambda>d. (Inr (take (nat (sint limit)) (sort_key wr_created_at
       (filter (is_due_row now) (db_wagers d)))), d))) (\<lambda>rows.
     liftE (scan_rows (scanWagerTransactionWithAttempts X) rows))"

definition ScheduleNextPendingReferenceRetry :: "uuid \<Rightarrow> time \<Rightarrow> (sess, error, unit) prog" where
  "ScheduleNextPendingReferenceRetry tid nextRetryAt =
     query (\<lambda>d. (Inr (), d\<lparr>db_wagers := map (\<lambda>r.
       if wr_id r = tid \<and> wr_status r = TxStatusPendingReference
       then r\<lparr>wr_attempts := wr_attempts r + 1, wr_next_retry_at := Some nextRetryAt\<rparr>
       else r) (db_wagers d)\<rparr>))"

section \<open>Outbox and inbox repositories\<close>

definition outbox_merge :: "outbox_entry \<Rightarrow> outbox_entry \<Rightarrow> outbox_entry" where
  "outbox_merge old new = old\<lparr>oe_status := oe_status new, oe_retryCount := oe_retryCount new,
     oe_nextSendAt := oe_nextSendAt new\<rparr>"

definition insert_outbox :: "outbox_entry \<Rightarrow> (db, pg_error, unit) prog" where
  "insert_outbox e d = (Inr (), d\<lparr>db_outbox := upsert oe_id outbox_merge e (db_outbox d)\<rparr>)"

fun SaveAll :: "outbox_entry list \<Rightarrow> (sess, error, unit) prog" where
  "SaveAll [] = ret ()"
| "SaveAll (e # entries) = bindE (query (insert_outbox e)) (\<lambda>_. SaveAll entries)"

definition scanOutboxEntry :: "outbox_entry \<Rightarrow> error + outbox_entry" where
  "scanOutboxEntry r = Inr (EntryFromPersistence (oe_id r) (oe_aggregateType r) (oe_aggregateID r)
     (oe_eventType r) (oe_version r) (oe_payload r) (oe_occurredAt r) (oe_correlationID r)
     (oe_causationID r) (oe_status r) (oe_retryCount r) (oe_nextSendAt r) (oe_createdAt r))"

definition is_due_entry :: "time \<Rightarrow> outbox_entry \<Rightarrow> bool" where
  "is_due_entry now e \<longleftrightarrow> oe_status e = StatusPending \<and> oe_nextSendAt e \<le> now"

text \<open>The row with the least \<open>created_at\<close>, the first of them in insertion order.\<close>

fun oldest :: "outbox_entry list \<Rightarrow> outbox_entry option" where
  "oldest [] = None"
| "oldest (e # es) = (case oldest es of None \<Rightarrow> Some e
     | Some f \<Rightarrow> Some (if oe_createdAt e \<le> oe_createdAt f then e else f))"

definition FindDueForUpdate :: "time \<Rightarrow> (sess, error, outbox_entry) prog" where
  "FindDueForUpdate now =
     onResult (query (\<lambda>d. (one_row (oldest (filter (is_due_entry now) (db_outbox d))), d))) (\<lambda>r.
     liftE (no_rows_as ErrOutboxEntryNotFound (bindR r scanOutboxEntry)))"

definition inbox_key :: "inbox \<Rightarrow> string \<times> string" where
  "inbox_key i = (in_consumerName i, in_messageID i)"

definition inbox_merge :: "inbox \<Rightarrow> inbox \<Rightarrow> inbox" where
  "inbox_merge old new = old\<lparr>in_completedAt := in_completedAt new\<rparr>"

definition insert_inbox :: "inbox \<Rightarrow> (db, pg_error, unit) prog" where
  "insert_inbox i d = (Inr (), d\<lparr>db_inbox := upsert inbox_key inbox_merge i (db_inbox d)\<rparr>)"

definition FindByConsumerAndMessage :: "string \<Rightarrow> string \<Rightarrow> (sess, error, inbox) prog" where
  "FindByConsumerAndMessage consumerName messageID =
     onResult (query (\<lambda>d. (one_row (lookup_by inbox_key (consumerName, messageID) (db_inbox d)), d))) (\<lambda>r.
     liftE (no_rows_as ErrInboxEntryNotFound (bindR r (\<lambda>i. Inr (Inbox_FromPersistence
       (in_consumerName i) (in_messageID i) (in_payloadHash i) (in_completedAt i) (in_createdAt i))))))"

definition Inbox_Save :: "inbox \<Rightarrow> (sess, error, unit) prog" where
  "Inbox_Save i = query (insert_inbox i)"


section \<open>Laws of the tables\<close>

interpretation wallets: keyed_table wl_id wallet_merge
  by unfold_locales (simp add: wallet_merge_def)

interpretation wagers: keyed_table wr_id wager_merge
  by unfold_locales (simp add: wager_merge_def)

interpretation outbox: keyed_table oe_id outbox_merge
  by unfold_locales (simp add: outbox_merge_def)

interpretation inbox: keyed_table inbox_key inbox_merge
  by unfold_locales (simp add: inbox_merge_def inbox_key_def)

section \<open>Rows round-trip\<close>

text \<open>The domain value a row stands for, when its currency is accepted.\<close>

definition wallet_of :: "wallet_row \<Rightarrow> wallet" where
  "wallet_of r = \<lparr>w_id = wl_id r, w_playerID = wl_player_id r, w_version = wl_version r,
     w_balance = \<lparr>m_currency = wl_currency r, m_amount = wl_balance r\<rparr>,
     w_createdAt = wl_created_at r, w_updatedAt = wl_updated_at r\<rparr>"

definition tx_of :: "wager_row \<Rightarrow> transaction" where
  "tx_of r = \<lparr>tx_id = wr_id r, tx_status = wr_status r,
     tx_externalTransactionID = stringOrEmpty (wr_external_transaction_id r),
     tx_providerID = stringOrEmpty (wr_provider_id r), tx_playerID = wr_player_id r,
     tx_walletID = wr_wallet_id r, tx_roundID = stringOrEmpty (wr_round_id r),
     tx_gameID = stringOrEmpty (wr_game_id r), tx_kind = wr_kind r,
     tx_amount = \<lparr>m_currency = wr_currency r, m_amount = wr_amount r\<rparr>,
     tx_referenceExternalTransactionID = wr_reference_external_transaction_id r,
     tx_referenceTransactionID = wr_reference_transaction_id r,
     tx_failureCode = stringOrEmpty (wr_failure_code r),
     tx_createdAt = wr_created_at r, tx_updatedAt = wr_updated_at r\<rparr>"

definition entry_of :: "string \<Rightarrow> ledger_row \<Rightarrow> ledger_entry" where
  "entry_of c r = \<lparr>le_id = lr_id r, le_walletID = lr_wallet_id r, le_transactionID = lr_transaction_id r,
     le_direction = lr_direction r, le_amount = \<lparr>m_currency = c, m_amount = lr_amount r\<rparr>,
     le_balanceBefore = \<lparr>m_currency = c, m_amount = lr_balance_before r\<rparr>,
     le_balanceAfter = \<lparr>m_currency = c, m_amount = lr_balance_after r\<rparr>,
     le_createdAt = lr_created_at r\<rparr>"

lemma FromMinorUnits_eq:
  "FromMinorUnits f c a = (if f c then Inr \<lparr>m_currency = c, m_amount = a\<rparr> else Inl (MoneyE ErrInvalidCurrency))"
  by (simp add: FromMinorUnits_def validateCurrency_def)

lemma scanWallet_eq:
  "scanWallet X r = (if x_iso X (wl_currency r) then Inr (wallet_of r) else Inl (MoneyE ErrInvalidCurrency))"
  by (simp add: scanWallet_def FromMinorUnits_eq Wallet_FromPersistence_def wallet_of_def)

lemma scanWagerTransaction_eq:
  "scanWagerTransaction X r = (if x_iso X (wr_currency r) then Inr (tx_of r) else Inl (MoneyE ErrInvalidCurrency))"
  by (simp add: scanWagerTransaction_def FromMinorUnits_eq TransactionFromPersistence_def tx_of_def
      stringOrEmpty_def)

lemma scanWagerTransactionWithAttempts_eq:
  "scanWagerTransactionWithAttempts X r =
     (if x_iso X (wr_currency r) then Inr (tx_of r, wr_attempts r) else Inl (MoneyE ErrInvalidCurrency))"
  by (simp add: scanWagerTransactionWithAttempts_def FromMinorUnits_eq TransactionFromPersistence_def
      tx_of_def stringOrEmpty_def)

lemma scanLedgerEntry_eq:
  "scanLedgerEntry X (r, c) = (if x_iso X c then Inr (entry_of c r) else Inl (MoneyE ErrInvalidCurrency))"
  by (simp add: scanLedgerEntry_def FromMinorUnits_eq LedgerEntryFromPersistence_def entry_of_def)

lemma stringOrEmpty_simps [simp]: "stringOrEmpty None = []" "stringOrEmpty (Some s) = s"
  by (simp_all add: stringOrEmpty_def)

lemma stringOrEmpty_nullable [simp]: "stringOrEmpty (nullableString s) = s"
  by (simp add: nullableString_def)

lemma wallet_of_row_of [simp]: "wallet_of (wallet_row_of w) = w"
  by (simp add: wallet_of_def wallet_row_of_def)

lemma tx_of_row_of [simp]: "tx_of (wager_row_of X tx) = tx"
  by (cases tx) (simp add: tx_of_def wager_row_of_def)

lemma entry_of_row_of:
  "m_currency (le_amount e) = c \<Longrightarrow> m_currency (le_balanceBefore e) = c \<Longrightarrow>
   m_currency (le_balanceAfter e) = c \<Longrightarrow> entry_of c (ledger_row_of e) = e"
  by (cases e) (auto simp: entry_of_def ledger_row_of_def)


section \<open>Laws of the sessions\<close>

text \<open>A session whose transaction is not aborted and whose schedule is exhausted.\<close>

definition quiet :: "sess \<Rightarrow> bool" where
  "quiet s \<longleftrightarrow> s_faults s = [] \<and> s_tx s \<noteq> TxAborted"

lemma next_fault_simps:
  assumes "next_fault s = (f, t)"
  shows "s_db t = s_db s" "s_tx t = s_tx s"
  using assms by (auto simp: next_fault_def split: list.splits)

lemma next_fault_quiet [simp]: "s_faults s = [] \<Longrightarrow> next_fault s = (None, s)"
  by (simp add: next_fault_def)

lemma abort_tx_db [simp]: "s_db (abort_tx s) = s_db s"
  by (simp add: abort_tx_def)

lemma query_InrE:
  assumes "query stmt s = (Inr x, t)"
  obtains "s_tx s \<noteq> TxAborted" "stmt (s_db s) = (Inr x, s_db t)" "s_tx t = s_tx s"
  using assms
  by (auto simp: query_def next_fault_simps split: if_splits prod.splits option.splits sum.splits)

lemma query_db:
  "query stmt s = (r, t) \<Longrightarrow> s_db t = s_db s \<or> (\<exists>x. stmt (s_db s) = (Inr x, s_db t))"
  by (auto simp: query_def next_fault_simps split: if_splits prod.splits option.splits sum.splits)

lemma query_tx:
  "query stmt s = (r, t) \<Longrightarrow> s_tx t = s_tx s \<or> s_tx s = TxActive \<and> s_tx t = TxAborted"
  by (auto simp: query_def abort_tx_def next_fault_simps
      split: if_splits prod.splits option.splits sum.splits)

lemma query_quiet:
  assumes "quiet s"
  shows "query stmt s =
    (case stmt (s_db s) of
       (Inl e, _) \<Rightarrow> (Inl (wrapTransientErr e), if e = NoRows then s else abort_tx s)
     | (Inr x, d) \<Rightarrow> (Inr x, s\<lparr>s_db := d\<rparr>))"
  using assms by (simp add: query_def quiet_def)

lemma WithinTx_cases:
  assumes "WithinTx fn s = (r, t)" and "s_tx s = NoTx"
  obtains (unchanged) e where "r = Inl e" "s_db t = s_db s" "s_tx t = NoTx"
    | (in_doubt) s1 x t1 where "r = Inl (driver_error ReplyLost)" "s_db s1 = s_db s" "s_tx s1 = TxActive"
        "fn s1 = (Inr x, t1)" "s_tx t1 \<noteq> TxAborted" "s_db t = s_db t1" "s_tx t = NoTx"
    | (committed) s1 x t1 where "r = Inr x" "s_db s1 = s_db s" "s_tx s1 = TxActive"
        "fn s1 = (Inr x, t1)" "s_tx t1 \<noteq> TxAborted" "s_db t = s_db t1" "s_tx t = NoTx"
proof (cases "next_fault s")
  case (Pair f s')
  note s' = next_fault_simps [OF Pair]
  show ?thesis
  proof (cases f)
    case (Some g)
    with assms Pair s' show ?thesis by (intro unchanged) (auto simp: WithinTx_def)
  next
    case None
    let ?s1 = "s'\<lparr>s_tx := TxActive\<rparr>"
    obtain q t1 where q: "fn ?s1 = (q, t1)" by fastforce
    show ?thesis
    proof (cases "\<exists>x. q = Inr x \<and> s_tx t1 \<noteq> TxAborted")
      case False
      with assms Pair None q show ?thesis
        by (cases q) (auto intro!: unchanged simp: WithinTx_def)
    next
      case True
      then obtain x where x: "q = Inr x" "s_tx t1 \<noteq> TxAborted" by blast
      obtain g t2 where g: "next_fault t1 = (g, t2)" by fastforce
      have s1: "s_db ?s1 = s_db s" "s_tx ?s1 = TxActive" using s' by simp_all
      show ?thesis
      proof (cases "g = None \<or> g = Some ReplyLost")
        case True
        then show ?thesis
          using assms Pair None q x g s1 next_fault_simps [OF g]
            in_doubt [of ?s1 x t1] committed [of x ?s1 t1]
          by (auto simp: WithinTx_def)
      next
        case False
        with assms Pair None q x g show ?thesis
          by (cases g) (auto intro!: unchanged simp: WithinTx_def)
      qed
    qed
  qed
qed

text \<open>Claim C17. \<open>WithinTx\<close> is atomic, whatever its body does and whatever the driver reports: the
  tables it leaves are the ones before it, or the ones a complete and successful run of the
  body made of them. With a result it is the latter; with an error it is the former, except
  for the one error that is in doubt, a commit whose reply is lost.\<close>

theorem WithinTx_atomic:
  assumes "s_tx s = NoTx" and "WithinTx fn s = (r, t)"
  shows "(\<exists>e. r = Inl e) \<and> s_db t = s_db s \<and> s_tx t = NoTx \<or>
    (\<exists>s1 x t1. (r = Inr x \<or> r = Inl (driver_error ReplyLost)) \<and> s_db s1 = s_db s \<and>
       s_tx s1 = TxActive \<and> fn s1 = (Inr x, t1) \<and> s_tx t1 \<noteq> TxAborted \<and>
       s_db t = s_db t1 \<and> s_tx t = NoTx)"
  using assms(2,1) by (cases rule: WithinTx_cases) blast+

lemma WithinTx_InrE:
  assumes "WithinTx fn s = (Inr x, t)" and "s_tx s = NoTx"
  obtains s1 t1 where "s_db s1 = s_db s" "s_tx s1 = TxActive" "fn s1 = (Inr x, t1)"
    "s_tx t1 \<noteq> TxAborted" "s_db t = s_db t1" "s_tx t = NoTx"
  using assms by (cases rule: WithinTx_cases) auto

lemma WithinTx_nested: "s_tx s \<noteq> NoTx \<Longrightarrow> WithinTx fn s = fn s"
  by (simp add: WithinTx_def)

text \<open>Sample values for the witnesses: a world in which every currency is known, a wallet and
  an idle session on empty tables.\<close>

definition sample_external :: external where
  "sample_external = \<lparr>x_sha = (\<lambda>_. 0), x_body_sha = (\<lambda>_. 0), x_iso = (\<lambda>c. c = ''BRL''),
     x_json = (\<lambda>_. ''{}''), x_uuid = (\<lambda>_. ''id'')\<rparr>"

definition sample_wallet :: wallet where
  "sample_wallet = \<lparr>w_id = 3, w_playerID = 2, w_version = 1,
     w_balance = \<lparr>m_currency = ''BRL'', m_amount = 5000\<rparr>, w_createdAt = 1, w_updatedAt = 1\<rparr>"

definition sample_sess :: sess where
  "sample_sess = \<lparr>s_db = \<lparr>db_wallets = [], db_ledger = [], db_wagers = [], db_outbox = [], db_inbox = []\<rparr>,
     s_tx = NoTx, s_faults = []\<rparr>"


text \<open>A body that saves a wallet and then fails: the wallet is gone again.\<close>

theorem WithinTx_atomic_witness:
  "s_db (snd (WithinTx (bindE (Wallet_Save sample_wallet) (\<lambda>_. fail (AppE ErrWalletNotFound) ::
      (sess, error, unit) prog)) sample_sess)) = s_db sample_sess"
proof -
  let ?fn = "bindE (Wallet_Save sample_wallet) (\<lambda>_. fail (AppE ErrWalletNotFound) :: (sess, error, unit) prog)"
  obtain r t where rt: "WithinTx ?fn sample_sess = (r, t)" by fastforce
  have no: "?fn s1 \<noteq> (Inr x, t1)" for s1 x t1
    by (auto elim!: bindE_InrE)
  from WithinTx_atomic [OF _ rt] no rt show ?thesis by (auto simp: sample_sess_def)
qed

end
