(* ===== verification/Submit.thy ===== *)
theory Submit
  imports Store
begin

text \<open>
  \<open>internal/app/wager_submit.go\<close>: the submission of a wager transaction, which the HTTP and
  the SQS path share and the pending-reference resolver re-enters.

  The repositories are the ones \<open>cmd/croupier\<close> wires in, those of \<open>Store\<close>. The pointer
  \<open>tx\<close> the Go code mutates is a value that is passed on; a result carries the final one. The
  identifiers and clock readings a call draws are the fields of \<open>draws\<close>.
\<close>

section \<open>Inputs, results and draws\<close>

record submit_input =
  si_ProviderID :: string
  si_ExternalTransactionID :: string
  si_PlayerID :: uuid
  si_WalletID :: uuid
  si_RoundID :: string
  si_GameID :: string
  si_Kind :: kind
  si_Amount :: money
  si_ReferenceExternalTransactionID :: "string option"
  si_CorrelationID :: string

record submit_result =
  sr_Transaction :: transaction
  sr_Balance :: money
  sr_IdempotentReplay :: bool

record draws =
  dr_tx_id :: uuid
  dr_tx_now :: time
  dr_resolve_now :: time
  dr_mark_now :: time
  dr_entry_id :: uuid
  dr_entry_now :: time
  dr_event :: event_draw
  dr_event2 :: event_draw

definition candidate_input :: "submit_input \<Rightarrow> new_transaction_input" where
  "candidate_input i =
     \<lparr>nt_ProviderID = si_ProviderID i, nt_ExternalTransactionID = si_ExternalTransactionID i,
      nt_PlayerID = si_PlayerID i, nt_WalletID = si_WalletID i, nt_RoundID = si_RoundID i,
      nt_GameID = si_GameID i, nt_Kind = si_Kind i, nt_Amount = si_Amount i,
      nt_ReferenceExternalTransactionID = si_ReferenceExternalTransactionID i\<rparr>"

section \<open>Replays\<close>

definition balanceAtProcessing :: "external \<Rightarrow> transaction \<Rightarrow> (sess, error, money) prog" where
  "balanceAtProcessing X tx =
     onResult (FindLedgerEntryByTransactionID X (tx_id tx)) (\<lambda>r.
     case r of
       Inr entry \<Rightarrow> ret (le_balanceAfter entry)
     | Inl e \<Rightarrow>
         if e \<noteq> AppE ErrLedgerEntryNotFound then fail e
         else bindE (Wallet_FindByID X (tx_walletID tx)) (\<lambda>w. ret (w_balance w)))"

definition replay :: "external \<Rightarrow> transaction \<Rightarrow> transaction \<Rightarrow> (sess, error, submit_result) prog" where
  "replay X existing candidate =
     (if PayloadHash (x_sha X) existing \<noteq> PayloadHash (x_sha X) candidate
      then fail (AppE ErrIdempotencyConflict)
      else bindE (balanceAtProcessing X existing) (\<lambda>balance.
        ret \<lparr>sr_Transaction = existing, sr_Balance = balance, sr_IdempotentReplay = True\<rparr>))"

section \<open>Outcomes without a movement\<close>

definition saveWithEvent :: "external \<Rightarrow> transaction \<Rightarrow> outbox_entry \<Rightarrow> (sess, error, submit_result) prog" where
  "saveWithEvent X tx event =
     bindE (WithinTx (bindE (Wager_Save X tx) (\<lambda>_. SaveAll [event]))) (\<lambda>_.
     bindE (Wallet_FindByID X (tx_walletID tx)) (\<lambda>w.
     ret \<lparr>sr_Transaction = tx, sr_Balance = w_balance w, sr_IdempotentReplay = False\<rparr>))"

definition parkPendingReference :: "external \<Rightarrow> draws \<Rightarrow> transaction \<Rightarrow> string \<Rightarrow> (sess, error, submit_result) prog" where
  "parkPendingReference X dr tx correlationID =
     (let alreadyParked = (tx_status tx = TxStatusPendingReference) in
      bindE (liftE (MarkPendingReference (dr_mark_now dr) tx)) (\<lambda>tx.
      if alreadyParked
      then bindE (Wallet_FindByID X (tx_walletID tx)) (\<lambda>w.
        ret \<lparr>sr_Transaction = tx, sr_Balance = w_balance w, sr_IdempotentReplay = False\<rparr>)
      else bindE (liftE (newWagerTransactionPendingReferenceEvent X (dr_event dr) tx correlationID)) (\<lambda>event.
        saveWithEvent X tx event)))"

definition reject :: "external \<Rightarrow> draws \<Rightarrow> transaction \<Rightarrow> failure_code \<Rightarrow> string \<Rightarrow> (sess, error, submit_result) prog" where
  "reject X dr tx code correlationID =
     bindE (liftE (MarkRejected code (dr_mark_now dr) tx)) (\<lambda>tx.
     bindE (liftE (newWagerTransactionRejectedEvent X (dr_event dr) tx correlationID)) (\<lambda>event.
     saveWithEvent X tx event))"

definition finishWithoutMovement :: "external \<Rightarrow> draws \<Rightarrow> transaction \<Rightarrow> string \<Rightarrow> (sess, error, submit_result) prog" where
  "finishWithoutMovement X dr tx correlationID =
     bindE (Wallet_FindByID X (tx_walletID tx)) (\<lambda>w.
     if m_currency (tx_amount tx) \<noteq> m_currency (w_balance w) then fail (MoneyE ErrCurrencyMismatch)
     else bindE (liftE (MarkProcessed (dr_mark_now dr) tx)) (\<lambda>tx.
     bindE (liftE (newWagerTransactionProcessedEvent X (dr_event dr) tx correlationID)) (\<lambda>event.
     saveWithEvent X tx event)))"

section \<open>The wallet movement\<close>

definition movementDirection :: "kind \<Rightarrow> transaction option \<Rightarrow> error + direction" where
  "movementDirection k referenced =
     (case k of
        KindBet \<Rightarrow> Inr DirectionDebit
      | KindWin \<Rightarrow> Inr DirectionCredit
      | KindRefund \<Rightarrow> Inr DirectionCredit
      | KindRollback \<Rightarrow>
          (case referenced of
             None \<Rightarrow> Inl (ExternalE ''nil pointer dereference'')
           | Some ref \<Rightarrow>
               (case tx_kind ref of
                  KindBet \<Rightarrow> Inr DirectionCredit
                | KindWin \<Rightarrow> Inr DirectionDebit
                | KindRefund \<Rightarrow> Inr DirectionDebit
                | _ \<Rightarrow> Inl (AppE ErrNoMovementDefined)))
      | _ \<Rightarrow> Inl (AppE ErrNoMovementDefined))"

text \<open>The rejection branches inside the transaction of \<open>process\<close>.\<close>

definition rejectInTx ::
  "external \<Rightarrow> draws \<Rightarrow> transaction \<Rightarrow> failure_code \<Rightarrow> wallet \<Rightarrow> string \<Rightarrow> (sess, error, submit_result) prog" where
  "rejectInTx X dr tx code w correlationID =
     bindE (liftE (MarkRejected code (dr_mark_now dr) tx)) (\<lambda>tx.
     bindE (liftE (newWagerTransactionRejectedEvent X (dr_event dr) tx correlationID)) (\<lambda>event.
     bindE (Wager_Save X tx) (\<lambda>_.
     bindE (SaveAll [event]) (\<lambda>_.
     ret \<lparr>sr_Transaction = tx, sr_Balance = w_balance w, sr_IdempotentReplay = False\<rparr>))))"

definition moveInTx ::
  "external \<Rightarrow> draws \<Rightarrow> transaction \<Rightarrow> direction \<Rightarrow> wallet \<Rightarrow> string \<Rightarrow> (sess, error, submit_result) prog" where
  "moveInTx X dr tx dir w correlationID =
     (let before = w_balance w in
      case (if dir = DirectionDebit then Wallet_Debit w (tx_amount tx) else Wallet_Credit w (tx_amount tx)) of
        Inl e \<Rightarrow>
          if e \<noteq> WalletE ErrInsufficientBalance then fail e
          else rejectInTx X dr tx
            (if tx_kind tx \<noteq> KindBet then FailureCodeReversalExceedsBalance
             else FailureCodeInsufficientBalance) w correlationID
      | Inr w \<Rightarrow>
          bindE (liftE (NewLedgerEntry (dr_entry_id dr) (dr_entry_now dr)
            \<lparr>nle_WalletID = w_id w, nle_TransactionID = tx_id tx, nle_Direction = dir,
             nle_Amount = tx_amount tx, nle_BalanceBefore = before, nle_BalanceAfter = w_balance w\<rparr>)) (\<lambda>entry.
          bindE (liftE (MarkProcessed (dr_mark_now dr) tx)) (\<lambda>tx.
          bindE (liftE (newWagerTransactionProcessedEvent X (dr_event dr) tx correlationID)) (\<lambda>processedEvent.
          bindE (liftE (newWalletBalanceChangedEvent X (dr_event2 dr) w entry correlationID
            (Some (x_uuid X (oe_id processedEvent))))) (\<lambda>balanceChangedEvent.
          bindE (Wager_Save X tx) (\<lambda>_.
          bindE (Wallet_Save w) (\<lambda>_.
          bindE (SaveLedgerEntry entry) (\<lambda>_.
          bindE (SaveAll [processedEvent, balanceChangedEvent]) (\<lambda>_.
          ret \<lparr>sr_Transaction = tx, sr_Balance = w_balance w, sr_IdempotentReplay = False\<rparr>)))))))))"

definition processInTx ::
  "external \<Rightarrow> draws \<Rightarrow> transaction \<Rightarrow> transaction option \<Rightarrow> direction \<Rightarrow> string \<Rightarrow> (sess, error, submit_result) prog" where
  "processInTx X dr tx referenced dir correlationID =
     bindE (Wallet_FindByID X (tx_walletID tx)) (\<lambda>w.
     if tx_kind tx = KindRefund \<or> tx_kind tx = KindRollback
     then (case referenced of
         None \<Rightarrow> fail (ExternalE ''nil pointer dereference'')
       | Some ref \<Rightarrow>
           onResult (FindReversal X (tx_id ref)) (\<lambda>r.
           case r of
             Inl e \<Rightarrow>
               if e \<noteq> AppE ErrWagerTransactionNotFound then fail e
               else moveInTx X dr tx dir w correlationID
           | Inr duplicate \<Rightarrow> rejectInTx X dr tx FailureCodeDuplicateReversal w correlationID))
     else moveInTx X dr tx dir w correlationID)"

definition processMovement ::
  "external \<Rightarrow> draws \<Rightarrow> transaction \<Rightarrow> transaction option \<Rightarrow> string \<Rightarrow> (sess, error, submit_result) prog" where
  "processMovement X dr tx referenced correlationID =
     (if tx_kind tx = KindLoss then finishWithoutMovement X dr tx correlationID
      else bindE (liftE (movementDirection (tx_kind tx) referenced)) (\<lambda>dir.
        WithinTx (processInTx X dr tx referenced dir correlationID)))"

section \<open>Process and submit\<close>

text \<open>What \<open>process\<close> does with the result of looking the reference up.\<close>

definition processReferenced ::
  "external \<Rightarrow> draws \<Rightarrow> transaction \<Rightarrow> string \<Rightarrow> error + transaction \<Rightarrow> (sess, error, submit_result) prog" where
  "processReferenced X dr tx correlationID r =
     (case r of
        Inl e \<Rightarrow>
          if e \<noteq> AppE ErrWagerTransactionNotFound then fail e
          else parkPendingReference X dr tx correlationID
      | Inr referenced \<Rightarrow>
          (case ValidateReference tx referenced of
             Inl _ \<Rightarrow> reject X dr tx FailureCodeInvalidReference correlationID
           | Inr _ \<Rightarrow>
               bindE (liftE (ResolveReference (dr_resolve_now dr) (tx_id referenced) tx)) (\<lambda>tx.
               processMovement X dr tx (Some referenced) correlationID)))"

definition process_tx :: "external \<Rightarrow> draws \<Rightarrow> transaction \<Rightarrow> string \<Rightarrow> (sess, error, submit_result) prog" where
  "process_tx X dr tx correlationID =
     (if tx_kind tx = KindRefund \<or> tx_kind tx = KindRollback
      then (case tx_referenceExternalTransactionID tx of
          None \<Rightarrow> fail (ExternalE ''nil pointer dereference'')
        | Some refExtID \<Rightarrow>
            onResult (FindByProviderAndExternalID X (tx_providerID tx) refExtID)
              (processReferenced X dr tx correlationID))
      else processMovement X dr tx None correlationID)"

definition Submit :: "external \<Rightarrow> draws \<Rightarrow> submit_input \<Rightarrow> (sess, error, submit_result) prog" where
  "Submit X dr input =
     bindE (liftE (NewTransaction (dr_tx_id dr) (dr_tx_now dr) (candidate_input input))) (\<lambda>candidate.
     onResult (FindByProviderAndExternalID X (si_ProviderID input) (si_ExternalTransactionID input)) (\<lambda>r.
     case r of
       Inr existing \<Rightarrow> replay X existing candidate
     | Inl e \<Rightarrow>
         if e \<noteq> AppE ErrWagerTransactionNotFound then fail e
         else onResult (process_tx X dr candidate (si_CorrelationID input)) (\<lambda>r.
           case r of
             Inr result \<Rightarrow> ret result
           | Inl e \<Rightarrow>
               if e = AppE ErrWagerTransactionAlreadyExists
               then onResult (FindByProviderAndExternalID X (si_ProviderID input)
                   (si_ExternalTransactionID input)) (\<lambda>r.
                 case r of
                   Inl ferr \<Rightarrow> fail ferr
                 | Inr winner \<Rightarrow> replay X winner candidate)
               else fail e)))"

end
