(* ===== verification/Laws.thy ===== *)
theory Laws
  imports Store
begin

text \<open>
  What a client may rely on of the repositories of \<open>Store\<close>.

  \<^item> \<open>put_wallet\<close>, \<open>put_wager\<close>, \<open>add_ledger\<close> and \<open>put_outbox\<close> are the effects of the writing
    statements; the rules named \<open>..._InrE\<close> say that a successful call had exactly that effect on
    the tables, found no violated constraint and left the transaction state alone.
  \<^item> \<open>calm st d\<close> is a session on the tables \<open>d\<close> that no failure disturbs, outside (\<open>NoTx\<close>) or
    inside (\<open>TxActive\<close>) a transaction. The collection \<open>calm_run\<close> computes an operation on it.
  \<^item> \<open>changes R m\<close> says that every run of \<open>m\<close>, failed runs and lost replies included, changes the
    tables by \<open>R\<close> only. The locale \<open>table_law\<close> lists what a relation has to allow; its lemmas
    lift it to every repository call and to every program built from them.
\<close>

named_theorems calm_run "one operation on a calm session"

section \<open>Effects of the statements\<close>

definition put_wallet :: "wallet_row \<Rightarrow> db \<Rightarrow> db" where
  "put_wallet r d = d\<lparr>db_wallets := upsert wl_id wallet_merge r (db_wallets d)\<rparr>"

definition put_wager :: "wager_row \<Rightarrow> db \<Rightarrow> db" where
  "put_wager r d = d\<lparr>db_wagers := upsert wr_id wager_merge r (db_wagers d)\<rparr>"

definition add_ledger :: "ledger_row \<Rightarrow> db \<Rightarrow> db" where
  "add_ledger r d = d\<lparr>db_ledger := db_ledger d @ [r]\<rparr>"

definition put_event :: "outbox_entry \<Rightarrow> db \<Rightarrow> db" where
  "put_event e d = d\<lparr>db_outbox := upsert oe_id outbox_merge e (db_outbox d)\<rparr>"

definition put_inbox :: "inbox \<Rightarrow> db \<Rightarrow> db" where
  "put_inbox i d = d\<lparr>db_inbox := upsert inbox_key inbox_merge i (db_inbox d)\<rparr>"

abbreviation put_outbox :: "outbox_entry list \<Rightarrow> db \<Rightarrow> db" where
  "put_outbox es d \<equiv> fold put_event es d"

lemma put_fields [simp]:
  "db_wallets (put_wallet r d) = upsert wl_id wallet_merge r (db_wallets d)"
  "db_wagers (put_wallet r d) = db_wagers d" "db_ledger (put_wallet r d) = db_ledger d"
  "db_outbox (put_wallet r d) = db_outbox d" "db_inbox (put_wallet r d) = db_inbox d"
  "db_wagers (put_wager q d) = upsert wr_id wager_merge q (db_wagers d)"
  "db_wallets (put_wager q d) = db_wallets d" "db_ledger (put_wager q d) = db_ledger d"
  "db_outbox (put_wager q d) = db_outbox d" "db_inbox (put_wager q d) = db_inbox d"
  "db_ledger (add_ledger l d) = db_ledger d @ [l]"
  "db_wallets (add_ledger l d) = db_wallets d" "db_wagers (add_ledger l d) = db_wagers d"
  "db_outbox (add_ledger l d) = db_outbox d" "db_inbox (add_ledger l d) = db_inbox d"
  "db_wallets (put_event e d) = db_wallets d" "db_wagers (put_event e d) = db_wagers d"
  "db_ledger (put_event e d) = db_ledger d" "db_inbox (put_event e d) = db_inbox d"
  "db_outbox (put_event e d) = upsert oe_id outbox_merge e (db_outbox d)"
  "db_wallets (put_inbox i d) = db_wallets d" "db_wagers (put_inbox i d) = db_wagers d"
  "db_ledger (put_inbox i d) = db_ledger d" "db_outbox (put_inbox i d) = db_outbox d"
  "db_inbox (put_inbox i d) = upsert inbox_key inbox_merge i (db_inbox d)"
  by (simp_all add: put_wallet_def put_wager_def add_ledger_def put_event_def put_inbox_def)

lemma put_outbox_fields [simp]:
  "db_wallets (put_outbox es d) = db_wallets d" "db_wagers (put_outbox es d) = db_wagers d"
  "db_ledger (put_outbox es d) = db_ledger d" "db_inbox (put_outbox es d) = db_inbox d"
  by (induction es arbitrary: d) simp_all

lemma insert_eqs:
  "insert_wallet w d = (case wallet_violation d w of Some e \<Rightarrow> (Inl e, d) | None \<Rightarrow> (Inr (), put_wallet w d))"
  "insert_wager q d = (case wager_violation d q of Some e \<Rightarrow> (Inl e, d) | None \<Rightarrow> (Inr (), put_wager q d))"
  "insert_ledger l d = (case ledger_violation d l of Some e \<Rightarrow> (Inl e, d) | None \<Rightarrow> (Inr (), add_ledger l d))"
  "insert_outbox e d = (Inr (), put_event e d)"
  "insert_inbox i d = (Inr (), put_inbox i d)"
  by (simp_all add: insert_wallet_def insert_wager_def insert_ledger_def insert_outbox_def
      insert_inbox_def put_wallet_def put_wager_def add_ledger_def put_event_def put_inbox_def
      split: option.split)

section \<open>Reading one row\<close>

text \<open>The shape of every lookup: a statement that only reads, and a scan of its row.\<close>

definition read_one :: "app_error \<Rightarrow> (db \<Rightarrow> 'r option) \<Rightarrow> ('r \<Rightarrow> error + 'a) \<Rightarrow> (sess, error, 'a) prog" where
  "read_one nf f scan = onResult (query (\<lambda>d. (one_row (f d), d))) (\<lambda>r. liftE (no_rows_as nf (bindR r scan)))"

lemma finds_read_one:
  "Wallet_FindByID X wid = read_one ErrWalletNotFound (\<lambda>d. lookup_by wl_id wid (db_wallets d)) (scanWallet X)"
  "FindByPlayerAndCurrency X pid c = read_one ErrWalletNotFound (\<lambda>d. List.find
     (\<lambda>r. wl_player_id r = pid \<and> wl_currency r = c) (db_wallets d)) (scanWallet X)"
  "FindLedgerEntryByTransactionID X tid = read_one ErrLedgerEntryNotFound (\<lambda>d. List.find
     (\<lambda>rc. lr_transaction_id (fst rc) = tid) (ledger_join d)) (scanLedgerEntry X)"
  "Wager_FindByID X tid = read_one ErrWagerTransactionNotFound (\<lambda>d. lookup_by wr_id tid (db_wagers d))
     (scanWagerTransaction X)"
  "FindByProviderAndExternalID X p e = read_one ErrWagerTransactionNotFound (\<lambda>d. List.find
     (\<lambda>r. wr_provider_id r = Some p \<and> wr_external_transaction_id r = Some e) (db_wagers d))
     (scanWagerTransaction X)"
  "FindReversal X ref = read_one ErrWagerTransactionNotFound (\<lambda>d. List.find (is_reversal_row ref) (db_wagers d))
     (scanWagerTransaction X)"
  "FindDueForUpdate now = read_one ErrOutboxEntryNotFound (\<lambda>d. oldest (filter (is_due_entry now) (db_outbox d)))
     scanOutboxEntry"
  "FindByConsumerAndMessage c m = read_one ErrInboxEntryNotFound (\<lambda>d. lookup_by inbox_key (c, m) (db_inbox d))
     (\<lambda>i. Inr (Inbox_FromPersistence (in_consumerName i) (in_messageID i) (in_payloadHash i)
        (in_completedAt i) (in_createdAt i)))"
  by (simp_all add: read_one_def Wallet_FindByID_def FindByPlayerAndCurrency_def Wager_FindByID_def
      FindLedgerEntryByTransactionID_def FindByProviderAndExternalID_def FindReversal_def
      FindDueForUpdate_def FindByConsumerAndMessage_def)

lemma query_read_db: "query (\<lambda>d. (f d, d)) s = (r, t) \<Longrightarrow> s_db t = s_db s"
  by (drule query_db) auto

lemma read_one_db: "read_one nf f scan s = (r, t) \<Longrightarrow> s_db t = s_db s"
  by (auto simp: read_one_def elim!: onResultE dest: query_read_db)

lemma no_rows_as_Inr [simp]: "no_rows_as nf r = Inr x \<longleftrightarrow> r = Inr x"
  by (auto simp: no_rows_as_def split: sum.splits error.splits pg_error.splits)

lemma read_one_InrE:
  assumes "read_one nf f scan s = (Inr x, t)"
  obtains y where "f (s_db s) = Some y" "scan y = Inr x" "s_db t = s_db s" "s_tx t = s_tx s" "s_tx s \<noteq> TxAborted"
proof -
  from assms obtain q s' where q: "query (\<lambda>d. (one_row (f d), d)) s = (q, s')"
    "liftE (no_rows_as nf (bindR q scan)) s' = (Inr x, t)"
    unfolding read_one_def by (rule onResultE)
  then have "bindR q scan = Inr x" and t: "s' = t" by simp_all
  then obtain y where y: "q = Inr y" "scan y = Inr x" by (auto simp: bindR_Inr_iff)
  from q(1) [unfolded y(1) t] obtain "s_tx s \<noteq> TxAborted"
    "(one_row (f (s_db s)), s_db s) = (Inr y, s_db t)" "s_tx t = s_tx s"
    by (rule query_InrE)
  with y that [of y] show thesis by (cases "f (s_db s)") (simp_all add: one_row_def)
qed

text \<open>A lookup that answers "not found" looked and found nothing.\<close>

lemma query_one_row_NoRows:
  assumes "query (\<lambda>d. (one_row (f d), d)) s = (Inl (PgE NoRows), t)"
  shows "f (s_db s) = None \<and> s_tx t = s_tx s"
  using assms
  by (auto simp: query_def one_row_def driver_error_def wrapTransientErr_def SafeToRetry_def next_fault_simps
      split: if_splits prod.splits option.splits sum.splits)

lemma query_pg_error:
  "query stmt s = (Inl e, t) \<Longrightarrow> (\<exists>p. e = PgE p) \<or> (\<exists>p. e = Unavailable p)"
  by (auto simp: query_def driver_error_def wrapTransientErr_def split: if_splits prod.splits option.splits sum.splits)

lemma read_one_not_found:
  assumes "read_one nf f scan s = (Inl (AppE nf), t)"
    and "\<And>y e. scan y = Inl e \<Longrightarrow> (\<exists>m. e = MoneyE m)"
  shows "f (s_db s) = None \<and> s_db t = s_db s \<and> s_tx t = s_tx s"
proof -
  from assms(1) obtain q where q: "query (\<lambda>d. (one_row (f d), d)) s = (q, t)" and
    r: "no_rows_as nf (bindR q scan) = Inl (AppE nf)"
    by (auto simp: read_one_def elim!: onResultE)
  have "q = Inl (PgE NoRows)"
  proof (cases q)
    case (Inl e)
    with query_pg_error [OF q [unfolded Inl]] r show ?thesis
      by (auto simp: no_rows_as_def split: error.splits pg_error.splits)
  next
    case (Inr y)
    with r assms(2) show ?thesis
      by (auto simp: no_rows_as_def split: sum.splits error.splits pg_error.splits)
  qed
  with q query_one_row_NoRows [of f s t] read_one_db [OF assms(1)] show ?thesis by simp
qed

lemma scan_errors:
  "scanWallet X w = Inl e \<Longrightarrow> \<exists>m. e = MoneyE m"
  "scanWagerTransaction X q = Inl e \<Longrightarrow> \<exists>m. e = MoneyE m"
  "scanLedgerEntry X l = Inl e \<Longrightarrow> \<exists>m. e = MoneyE m"
  by (auto simp: scanWallet_eq scanWagerTransaction_eq scanLedgerEntry_eq [of X "fst l" "snd l", simplified]
      split: if_splits)

lemma Wallet_FindByID_InrE:
  assumes "Wallet_FindByID X wid s = (Inr w, t)"
  obtains r where "lookup_by wl_id wid (db_wallets (s_db s)) = Some r" "w = wallet_of r"
    "x_iso X (wl_currency r)" "s_db t = s_db s" "s_tx t = s_tx s"
  using assms unfolding finds_read_one
  by (elim read_one_InrE) (auto simp: scanWallet_eq split: if_splits)

lemma Wallet_FindByID_db: "Wallet_FindByID X wid s = (r, t) \<Longrightarrow> s_db t = s_db s"
  unfolding finds_read_one by (rule read_one_db)

lemma FindReversal_not_found:
  assumes "FindReversal X ref s = (Inl (AppE ErrWagerTransactionNotFound), t)"
  shows "\<forall>r\<in>set (db_wagers (s_db s)). \<not> is_reversal_row ref r" "s_db t = s_db s" "s_tx t = s_tx s"
  using read_one_not_found [OF assms [unfolded finds_read_one] scan_errors(2)]
  by (auto simp: find_None_iff)

lemma FindReversal_InrE:
  assumes "FindReversal X ref s = (Inr q, t)"
  obtains r where "r \<in> set (db_wagers (s_db s))" "is_reversal_row ref r" "q = tx_of r"
    "s_db t = s_db s" "s_tx t = s_tx s"
  using assms unfolding finds_read_one
  by (elim read_one_InrE) (auto simp: scanWagerTransaction_eq split: if_splits dest!: find_Some_iff_first)

lemma find_wager_InrE:
  assumes "FindByProviderAndExternalID X p e s = (Inr q, t)"
  obtains r where "r \<in> set (db_wagers (s_db s))" "wr_provider_id r = Some p"
    "wr_external_transaction_id r = Some e" "q = tx_of r" "x_iso X (wr_currency r)"
    "s_db t = s_db s" "s_tx t = s_tx s"
  using assms unfolding finds_read_one
  by (elim read_one_InrE) (auto simp: scanWagerTransaction_eq split: if_splits dest!: find_Some_iff_first)

lemma find_wager_db: "FindByProviderAndExternalID X p e s = (r, t) \<Longrightarrow> s_db t = s_db s"
  unfolding finds_read_one by (rule read_one_db)

lemma find_entry_db: "FindLedgerEntryByTransactionID X i s = (r, t) \<Longrightarrow> s_db t = s_db s"
  unfolding finds_read_one by (rule read_one_db)

lemma find_wager_not_found:
  assumes "FindByProviderAndExternalID X p e s = (Inl (AppE ErrWagerTransactionNotFound), t)"
  shows "\<forall>r\<in>set (db_wagers (s_db s)). \<not> (wr_provider_id r = Some p \<and> wr_external_transaction_id r = Some e)"
    "s_db t = s_db s" "s_tx t = s_tx s"
  using read_one_not_found [OF assms [unfolded finds_read_one] scan_errors(2)]
  by (auto simp: find_None_iff)

section \<open>Writing\<close>

lemma Wallet_Save_InrE:
  assumes "Wallet_Save w s = (Inr u, t)"
  obtains "wallet_violation (s_db s) (wallet_row_of w) = None"
    "s_db t = put_wallet (wallet_row_of w) (s_db s)" "s_tx t = s_tx s"
  using assms unfolding Wallet_Save_def
  by (auto elim!: onResultE query_InrE simp: insert_eqs split: sum.splits if_splits option.splits)

lemma Wager_Save_InrE:
  assumes "Wager_Save X tx s = (Inr u, t)"
  obtains "wager_violation (s_db s) (wager_row_of X tx) = None"
    "s_db t = put_wager (wager_row_of X tx) (s_db s)" "s_tx t = s_tx s"
  using assms unfolding Wager_Save_def
  by (auto elim!: onResultE query_InrE simp: insert_eqs split: sum.splits if_splits option.splits)

lemma SaveLedgerEntry_InrE:
  assumes "SaveLedgerEntry e s = (Inr u, t)"
  obtains "ledger_violation (s_db s) (ledger_row_of e) = None"
    "s_db t = add_ledger (ledger_row_of e) (s_db s)" "s_tx t = s_tx s"
  using assms unfolding SaveLedgerEntry_def
  by (auto elim!: query_InrE simp: insert_eqs split: sum.splits if_splits option.splits)

lemma SaveAll_InrE:
  assumes "SaveAll es s = (Inr u, t)"
  obtains "s_db t = put_outbox es (s_db s)" "s_tx t = s_tx s"
proof -
  have "s_db t = put_outbox es (s_db s) \<and> s_tx t = s_tx s"
    using assms
  proof (induction es arbitrary: s)
    case (Cons e es)
    then show ?case
      by (auto elim!: bindE_InrE query_InrE simp: insert_eqs)
  qed simp
  with that show thesis by blast
qed

section \<open>Sessions outside and inside a transaction\<close>

text \<open>A round trip outside a transaction stays outside.\<close>

lemma read_one_tx: "read_one nf f scan s = (r, t) \<Longrightarrow> s_tx s = NoTx \<Longrightarrow> s_tx t = NoTx"
  by (auto simp: read_one_def elim!: onResultE dest!: query_tx)

lemma find_wager_tx: "FindByProviderAndExternalID X p e s = (r, t) \<Longrightarrow> s_tx s = NoTx \<Longrightarrow> s_tx t = NoTx"
  unfolding finds_read_one by (rule read_one_tx)

lemma Wallet_FindByID_tx: "Wallet_FindByID X wid s = (r, t) \<Longrightarrow> s_tx s = NoTx \<Longrightarrow> s_tx t = NoTx"
  unfolding finds_read_one by (rule read_one_tx)

definition settled :: "sess \<Rightarrow> 'e + 'a \<Rightarrow> bool" where
  "settled s r \<longleftrightarrow> s_tx s = NoTx \<or> (\<exists>x. r = Inr x)"

lemma settled_Inr [simp]: "settled s (Inr x)"
  by (simp add: settled_def)

lemma settled_Inl [simp]: "settled s (Inl e) \<longleftrightarrow> s_tx s = NoTx"
  by (simp add: settled_def)

lemma WithinTx_settled:
  assumes "WithinTx fn s = (r, t)" "settled s r"
  obtains "s_db t = s_db s" | s1 x t1 where "s_db s1 = s_db s" "fn s1 = (Inr x, t1)" "s_db t = s_db t1"
proof (cases "s_tx s = NoTx")
  case True
  with assms(1) show thesis by (cases rule: WithinTx_cases) (auto intro: that)
next
  case False
  with assms obtain x where "r = Inr x" by (auto simp: settled_def)
  with assms(1) False show thesis by (auto simp: WithinTx_nested intro: that)
qed

section \<open>Calm sessions\<close>

definition calm :: "tx_state \<Rightarrow> db \<Rightarrow> sess" where
  "calm st d = \<lparr>s_db = d, s_tx = st, s_faults = []\<rparr>"

lemma calm_simps [simp]:
  "s_db (calm st d) = d" "s_tx (calm st d) = st" "s_faults (calm st d) = []"
  "(calm st d)\<lparr>s_db := d'\<rparr> = calm st d'" "(calm st d)\<lparr>s_tx := st'\<rparr> = calm st' d"
  "next_fault (calm st d) = (None, calm st d)"
  by (simp_all add: calm_def next_fault_def)

lemma calm_bindE [calm_run]:
  "bindE m k s = (case m s of (Inl e, s') \<Rightarrow> (Inl e, s') | (Inr x, s') \<Rightarrow> k x s')"
  by (simp add: bindE_def)

lemma calm_onResult [calm_run]: "onResult m k s = (case m s of (r, s') \<Rightarrow> k r s')"
  by (simp add: onResult_def)

lemma calm_query:
  "st \<noteq> TxAborted \<Longrightarrow> query stmt (calm st d) =
    (case stmt d of
       (Inl e, _) \<Rightarrow> (Inl (wrapTransientErr e),
          if e = NoRows \<or> st = NoTx then calm st d else calm TxAborted d)
     | (Inr x, d') \<Rightarrow> (Inr x, calm st d'))"
  by (cases st) (auto simp: query_def abort_tx_def split: prod.splits sum.splits)

lemma no_rows_as_NoRows: "no_rows_as nf (Inl (PgE NoRows)) = Inl (AppE nf)"
  by (simp add: no_rows_as_def)

lemma calm_read_one [calm_run]:
  "st \<noteq> TxAborted \<Longrightarrow> read_one nf f scan (calm st d) =
    (case f d of None \<Rightarrow> (Inl (AppE nf), calm st d)
     | Some r \<Rightarrow> (no_rows_as nf (scan r), calm st d))"
  by (cases "f d") (simp_all add: read_one_def onResult_def calm_query one_row_def wrapTransientErr_def
      SafeToRetry_def no_rows_as_NoRows)

lemma no_rows_as_scan:
  "no_rows_as nf (scanWallet X w) = scanWallet X w"
  "no_rows_as nf (scanWagerTransaction X q) = scanWagerTransaction X q"
  "no_rows_as nf (scanLedgerEntry X l) = scanLedgerEntry X l"
  by (auto simp: no_rows_as_def scanWallet_eq scanWagerTransaction_eq
      scanLedgerEntry_eq [of X "fst l" "snd l", simplified])

lemma calm_FindByID [calm_run]:
  "st \<noteq> TxAborted \<Longrightarrow> Wallet_FindByID X wid (calm st d) =
    (case lookup_by wl_id wid (db_wallets d) of None \<Rightarrow> (Inl (AppE ErrWalletNotFound), calm st d)
     | Some r \<Rightarrow> (scanWallet X r, calm st d))"
  by (simp add: finds_read_one calm_read_one no_rows_as_scan split: option.split)

lemma calm_find_wager [calm_run]:
  "st \<noteq> TxAborted \<Longrightarrow> FindByProviderAndExternalID X p e (calm st d) =
    (case List.find (\<lambda>r. wr_provider_id r = Some p \<and> wr_external_transaction_id r = Some e) (db_wagers d)
     of None \<Rightarrow> (Inl (AppE ErrWagerTransactionNotFound), calm st d)
      | Some r \<Rightarrow> (scanWagerTransaction X r, calm st d))"
  by (simp add: finds_read_one calm_read_one no_rows_as_scan split: option.split)

lemma calm_FindReversal [calm_run]:
  "st \<noteq> TxAborted \<Longrightarrow> FindReversal X ref (calm st d) =
    (case List.find (is_reversal_row ref) (db_wagers d)
     of None \<Rightarrow> (Inl (AppE ErrWagerTransactionNotFound), calm st d)
      | Some r \<Rightarrow> (scanWagerTransaction X r, calm st d))"
  by (simp add: finds_read_one calm_read_one no_rows_as_scan split: option.split)

lemma calm_find_entry [calm_run]:
  "st \<noteq> TxAborted \<Longrightarrow> FindLedgerEntryByTransactionID X tid (calm st d) =
    (case List.find (\<lambda>rc. lr_transaction_id (fst rc) = tid) (ledger_join d)
     of None \<Rightarrow> (Inl (AppE ErrLedgerEntryNotFound), calm st d)
      | Some r \<Rightarrow> (scanLedgerEntry X r, calm st d))"
  by (simp add: finds_read_one calm_read_one no_rows_as_scan split: option.split)

lemma violation_not_retryable:
  "wallet_violation d w = Some e \<Longrightarrow> wrapTransientErr e = PgE e \<and> e \<noteq> NoRows"
  "wager_violation d q = Some e \<Longrightarrow> wrapTransientErr e = PgE e \<and> e \<noteq> NoRows"
  "ledger_violation d l = Some e \<Longrightarrow> wrapTransientErr e = PgE e \<and> e \<noteq> NoRows"
  by (auto simp: wallet_violation_def wager_violation_def ledger_violation_def wrapTransientErr_def
      SafeToRetry_def split: if_splits option.splits)

lemma calm_Wallet_Save [calm_run]:
  "st \<noteq> TxAborted \<Longrightarrow> wallet_violation d (wallet_row_of w) = None \<Longrightarrow>
     Wallet_Save w (calm st d) = (Inr (), calm st (put_wallet (wallet_row_of w) d))"
  by (simp add: Wallet_Save_def onResult_def calm_query insert_eqs)

lemma calm_Wager_Save [calm_run]:
  "st \<noteq> TxAborted \<Longrightarrow> wager_violation d (wager_row_of X tx) = None \<Longrightarrow>
     Wager_Save X tx (calm st d) = (Inr (), calm st (put_wager (wager_row_of X tx) d))"
  by (simp add: Wager_Save_def onResult_def calm_query insert_eqs)

lemma calm_SaveLedgerEntry [calm_run]:
  "st \<noteq> TxAborted \<Longrightarrow> ledger_violation d (ledger_row_of e) = None \<Longrightarrow>
     SaveLedgerEntry e (calm st d) = (Inr (), calm st (add_ledger (ledger_row_of e) d))"
  by (simp add: SaveLedgerEntry_def calm_query insert_eqs)

lemma calm_SaveAll [calm_run]:
  "st \<noteq> TxAborted \<Longrightarrow> SaveAll es (calm st d) = (Inr (), calm st (put_outbox es d))"
  by (induction es arbitrary: d) (simp_all add: calm_bindE calm_query insert_eqs)

lemma calm_WithinTx_ok:
  "fn (calm TxActive d) = (Inr x, calm TxActive d') \<Longrightarrow> WithinTx fn (calm NoTx d) = (Inr x, calm NoTx d')"
  by (simp add: WithinTx_def)

lemma calm_WithinTx_fail:
  "fn (calm TxActive d) = (Inl e, calm st d') \<Longrightarrow> WithinTx fn (calm NoTx d) = (Inl e, calm NoTx d)"
  by (simp add: WithinTx_def)

section \<open>What every run does to the tables\<close>

definition changes :: "(db \<Rightarrow> db \<Rightarrow> bool) \<Rightarrow> (sess, error, 'a) prog \<Rightarrow> bool" where
  "changes R m \<longleftrightarrow> (\<forall>s r t. m s = (r, t) \<longrightarrow> R (s_db s) (s_db t))"

lemma changesI: "(\<And>s r t. m s = (r, t) \<Longrightarrow> R (s_db s) (s_db t)) \<Longrightarrow> changes R m"
  by (auto simp: changes_def)

lemma changesD: "changes R m \<Longrightarrow> m s = (r, t) \<Longrightarrow> R (s_db s) (s_db t)"
  by (auto simp: changes_def)

lemma changes_snd: "changes R m \<Longrightarrow> R (s_db s) (s_db (snd (m s)))"
  by (cases "m s") (auto simp: changes_def)

named_theorems changes_rules "how a program may change the tables, by its structure"

text \<open>\<open>W\<close> are the transaction rows, \<open>T\<close> the identifiers of the retries and \<open>I\<close> the inbox records
  that may be written.\<close>

locale table_law =
  fixes R :: "db \<Rightarrow> db \<Rightarrow> bool"
    and W :: "wager_row \<Rightarrow> bool"
    and T :: "uuid \<Rightarrow> bool"
    and I :: "inbox \<Rightarrow> bool"
  assumes law_refl: "R d d"
    and law_trans: "R a b \<Longrightarrow> R b c \<Longrightarrow> R a c"
    and law_wallet: "wallet_violation d w = None \<Longrightarrow> R d (put_wallet w d)"
    and law_wager: "W q \<Longrightarrow> wager_violation d q = None \<Longrightarrow> R d (put_wager q d)"
    and law_ledger: "ledger_violation d l = None \<Longrightarrow> R d (add_ledger l d)"
    and law_event: "R d (put_event e d)"
    and law_inbox: "I i \<Longrightarrow> R d (put_inbox i d)"
    and law_schedule: "T tid \<Longrightarrow> R d (d\<lparr>db_wagers := map (\<lambda>r. if wr_id r = tid \<and> wr_status r = TxStatusPendingReference
       then r\<lparr>wr_attempts := wr_attempts r + 1, wr_next_retry_at := Some nxt\<rparr> else r) (db_wagers d)\<rparr>)"
begin

lemma ret_changes [changes_rules]: "changes R (ret x)"
  by (auto intro!: changesI law_refl)

lemma fail_changes [changes_rules]: "changes R (fail e)"
  by (auto intro!: changesI law_refl)

lemma liftE_changes [changes_rules]: "changes R (liftE r)"
  by (auto intro!: changesI law_refl)

lemma bindE_changes [changes_rules]: "changes R m \<Longrightarrow> (\<And>x. changes R (k x)) \<Longrightarrow> changes R (bindE m k)"
  by (rule changesI) (force simp: bindE_def changes_def split: prod.splits sum.splits intro: law_trans)

lemma onResult_changes [changes_rules]: "changes R m \<Longrightarrow> (\<And>x. changes R (k x)) \<Longrightarrow> changes R (onResult m k)"
  by (rule changesI) (force simp: onResult_def changes_def split: prod.splits intro: law_trans)

lemma WithinTx_changes [changes_rules]:
  assumes "changes R fn"
  shows "changes R (WithinTx fn)"
proof (rule changesI)
  fix s r t
  assume run: "WithinTx fn s = (r, t)"
  show "R (s_db s) (s_db t)"
  proof (cases "s_tx s = NoTx")
    case True
    with run show ?thesis
      by (cases rule: WithinTx_cases) (auto intro: law_refl dest!: changesD [OF assms])
  next
    case False
    with run assms show ?thesis by (simp add: WithinTx_nested changesD)
  qed
qed

lemma query_changes: "(\<And>d x d'. stmt d = (Inr x, d') \<Longrightarrow> R d d') \<Longrightarrow> changes R (query stmt)"
  by (rule changesI) (auto dest!: query_db intro: law_refl)

lemma read_one_changes: "changes R (read_one nf f scan)"
  by (rule changesI) (simp add: read_one_db law_refl)

lemma finds_change [changes_rules]:
  "changes R (Wallet_FindByID X wid)" "changes R (FindByPlayerAndCurrency X pid c)"
  "changes R (FindLedgerEntryByTransactionID X tid)" "changes R (Wager_FindByID X tid)"
  "changes R (FindByProviderAndExternalID X p e)" "changes R (FindReversal X ref)"
  "changes R (FindDueForUpdate now)" "changes R (FindByConsumerAndMessage cn m)"
  by (simp_all only: finds_read_one read_one_changes)

lemma lists_change [changes_rules]:
  "changes R (AllLedgerEntries X wid)" "changes R (ListLedgerEntries X wid cursor limit)"
  "changes R (FindDuePendingReferences X now limit)"
  unfolding AllLedgerEntries_def ListLedgerEntries_def FindDuePendingReferences_def
  by (auto intro!: bindE_changes query_changes liftE_changes law_refl simp: Let_def)

lemma saves_change [changes_rules]:
  "changes R (Wallet_Save w)" "W (wager_row_of X tx) \<Longrightarrow> changes R (Wager_Save X tx)"
  "changes R (SaveLedgerEntry en)" "changes R (SaveAll es)" "I i \<Longrightarrow> changes R (Inbox_Save i)"
  "T tid \<Longrightarrow> changes R (ScheduleNextPendingReferenceRetry tid nxt)"
proof -
  show "changes R (Wallet_Save w)" "W (wager_row_of X tx) \<Longrightarrow> changes R (Wager_Save X tx)"
    unfolding Wallet_Save_def Wager_Save_def
    by (auto intro!: onResult_changes query_changes law_wallet law_wager ret_changes fail_changes
        simp: insert_eqs split: option.splits sum.splits)
  show "changes R (SaveLedgerEntry en)" "I i \<Longrightarrow> changes R (Inbox_Save i)"
    "T tid \<Longrightarrow> changes R (ScheduleNextPendingReferenceRetry tid nxt)"
    unfolding SaveLedgerEntry_def Inbox_Save_def ScheduleNextPendingReferenceRetry_def
    by (auto intro!: query_changes law_ledger law_inbox law_schedule simp: insert_eqs split: option.splits)
  show "changes R (SaveAll es)"
  proof (induction es)
    case Nil
    show ?case by (simp only: SaveAll.simps ret_changes)
  next
    case (Cons e es)
    have "changes R (query (insert_outbox e))"
      by (auto intro!: query_changes law_event simp: insert_eqs)
    with Cons show ?case by (simp only: SaveAll.simps bindE_changes)
  qed
qed

end

end
