(* ===== verification/Books.thy ===== *)
theory Books
  imports Laws
begin

text \<open>
  The invariant of the tables: the books balance. \<open>books d\<close> says that every wallet's ledger
  entries chain from zero to the stored balance without ever going below zero, that the ledger
  entries and the processed transactions that move money correspond one to one, and that every
  processed reversal belongs to a processed transaction it matches and is the only one.

  Its last part shows which writes keep it: a transaction that does not become processed, a
  loss, a movement together with its ledger entry, and the opening of a wallet.
\<close>

section \<open>Chains of ledger entries\<close>

definition signed_row :: "ledger_row \<Rightarrow> int" where
  "signed_row e = (case lr_direction e of DirectionDebit \<Rightarrow> - sint (lr_amount e)
     | DirectionCredit \<Rightarrow> sint (lr_amount e) | Direction_other _ \<Rightarrow> 0)"

fun chain :: "int \<Rightarrow> ledger_row list \<Rightarrow> int \<Rightarrow> bool" where
  "chain b [] c \<longleftrightarrow> b = c"
| "chain b (e # es) c \<longleftrightarrow>
     sint (lr_balance_before e) = b \<and> 0 < sint (lr_amount e) \<and>
     (lr_direction e = DirectionDebit \<or> lr_direction e = DirectionCredit) \<and>
     sint (lr_balance_after e) = b + signed_row e \<and> 0 \<le> sint (lr_balance_after e) \<and>
     chain (sint (lr_balance_after e)) es c"

lemma chain_snoc:
  "chain b es c \<Longrightarrow> sint (lr_balance_before e) = c \<Longrightarrow> 0 < sint (lr_amount e) \<Longrightarrow>
   lr_direction e = DirectionDebit \<or> lr_direction e = DirectionCredit \<Longrightarrow>
   sint (lr_balance_after e) = c + signed_row e \<Longrightarrow> 0 \<le> sint (lr_balance_after e) \<Longrightarrow>
   chain b (es @ [e]) (sint (lr_balance_after e))"
  by (induction es arbitrary: b) auto

lemma chain_sum: "chain b es c \<Longrightarrow> c = b + sum_list (map signed_row es)"
  by (induction es arbitrary: b) (simp, fastforce)

lemma chain_nonneg: "chain b es c \<Longrightarrow> 0 \<le> b \<Longrightarrow> 0 \<le> c"
  by (induction es arbitrary: b) auto

definition entries_of :: "db \<Rightarrow> uuid \<Rightarrow> ledger_row list" where
  "entries_of d wid = filter (\<lambda>e. lr_wallet_id e = wid) (db_ledger d)"

section \<open>Processed transactions\<close>

definition processed :: "db \<Rightarrow> wager_row set" where
  "processed d = {q \<in> set (db_wagers d). wr_status q = TxStatusProcessed}"

definition kind_at :: "db \<Rightarrow> uuid \<Rightarrow> kind option" where
  "kind_at d i = map_option wr_kind (lookup_by wr_id i (db_wagers d))"

text \<open>The direction in which a processed transaction of kind \<open>k\<close> moves its wallet, \<open>rk\<close> being the
  kind of the transaction it reverses.\<close>

fun movement :: "kind \<Rightarrow> kind option \<Rightarrow> direction option" where
  "movement KindOpening _ = Some DirectionCredit"
| "movement KindBet _ = Some DirectionDebit"
| "movement KindWin _ = Some DirectionCredit"
| "movement KindRefund _ = Some DirectionCredit"
| "movement KindRollback rk = (case rk of Some KindBet \<Rightarrow> Some DirectionCredit
     | Some KindWin \<Rightarrow> Some DirectionDebit | Some KindRefund \<Rightarrow> Some DirectionDebit | _ \<Rightarrow> None)"
| "movement _ _ = None"

definition movement_of :: "db \<Rightarrow> wager_row \<Rightarrow> direction option" where
  "movement_of d q = movement (wr_kind q) (Option.bind (wr_reference_transaction_id q) (kind_at d))"

definition backs :: "db \<Rightarrow> wager_row \<Rightarrow> ledger_row \<Rightarrow> bool" where
  "backs d q e \<longleftrightarrow> lr_transaction_id e = wr_id q \<and> lr_wallet_id e = wr_wallet_id q \<and>
     lr_amount e = wr_amount q \<and> movement_of d q = Some (lr_direction e)"

definition is_reversal :: "wager_row \<Rightarrow> bool" where
  "is_reversal q \<longleftrightarrow> wr_kind q = KindRefund \<or> wr_kind q = KindRollback"

text \<open>A reversal and the transaction it reverses match as \<open>ValidateReference\<close> asks.\<close>

definition reverses :: "wager_row \<Rightarrow> wager_row \<Rightarrow> bool" where
  "reverses q r \<longleftrightarrow> wr_reference_transaction_id q = Some (wr_id r) \<and> reference_ok (tx_of q) (tx_of r)"

lemma reversesD:
  "reverses q r \<Longrightarrow> wr_reference_transaction_id q = Some (wr_id r) \<and> referenceableKind (wr_kind q) (wr_kind r)"
  by (simp add: reverses_def reference_ok_def tx_of_def)

section \<open>The invariant\<close>

definition keys_ok :: "db \<Rightarrow> bool" where
  "keys_ok d \<longleftrightarrow> distinct (map wl_id (db_wallets d)) \<and> distinct (map wr_id (db_wagers d)) \<and>
     distinct (map lr_transaction_id (db_ledger d)) \<and>
     (\<forall>e\<in>set (db_ledger d). lr_wallet_id e \<in> wl_id ` set (db_wallets d))"

definition chains_ok :: "db \<Rightarrow> bool" where
  "chains_ok d \<longleftrightarrow> (\<forall>w\<in>set (db_wallets d). chain 0 (entries_of d (wl_id w)) (sint (wl_balance w)))"

definition entries_backed :: "db \<Rightarrow> bool" where
  "entries_backed d \<longleftrightarrow> (\<forall>e\<in>set (db_ledger d). \<exists>q\<in>processed d. backs d q e)"

definition movements_booked :: "db \<Rightarrow> bool" where
  "movements_booked d \<longleftrightarrow>
     (\<forall>q\<in>processed d. movement_of d q \<noteq> None \<longrightarrow> (\<exists>e\<in>set (db_ledger d). backs d q e))"

definition reversals_ok :: "db \<Rightarrow> bool" where
  "reversals_ok d \<longleftrightarrow> (\<forall>q\<in>processed d. is_reversal q \<longrightarrow> (\<exists>r\<in>processed d. reverses q r)) \<and>
     (\<forall>q\<in>processed d. \<forall>p\<in>processed d. is_reversal q \<longrightarrow> is_reversal p \<longrightarrow>
        wr_reference_transaction_id q = wr_reference_transaction_id p \<longrightarrow> q = p)"

definition currencies_ok :: "db \<Rightarrow> bool" where
  "currencies_ok d \<longleftrightarrow> (\<forall>q\<in>processed d. \<exists>w\<in>set (db_wallets d).
     wl_id w = wr_wallet_id q \<and> wl_currency w = wr_currency q)"

definition books :: "db \<Rightarrow> bool" where
  "books d \<longleftrightarrow> keys_ok d \<and> chains_ok d \<and> entries_backed d \<and> movements_booked d \<and> reversals_ok d \<and>
     currencies_ok d"

lemma booksD:
  assumes "books d"
  shows "distinct (map wl_id (db_wallets d))" "distinct (map wr_id (db_wagers d))"
    "distinct (map lr_transaction_id (db_ledger d))"
    and "e \<in> set (db_ledger d) \<Longrightarrow> lr_wallet_id e \<in> wl_id ` set (db_wallets d)"
    and "w \<in> set (db_wallets d) \<Longrightarrow> chain 0 (entries_of d (wl_id w)) (sint (wl_balance w))"
    and "e \<in> set (db_ledger d) \<Longrightarrow> \<exists>q\<in>processed d. backs d q e"
    and "q \<in> processed d \<Longrightarrow> movement_of d q \<noteq> None \<Longrightarrow> \<exists>e\<in>set (db_ledger d). backs d q e"
    and "q \<in> processed d \<Longrightarrow> is_reversal q \<Longrightarrow> \<exists>r\<in>processed d. reverses q r"
    and "q \<in> processed d \<Longrightarrow> p \<in> processed d \<Longrightarrow> is_reversal q \<Longrightarrow> is_reversal p \<Longrightarrow>
      wr_reference_transaction_id q = wr_reference_transaction_id p \<Longrightarrow> q = p"
    and "q \<in> processed d \<Longrightarrow> \<exists>w\<in>set (db_wallets d). wl_id w = wr_wallet_id q \<and> wl_currency w = wr_currency q"
  using assms
  unfolding books_def keys_ok_def chains_ok_def entries_backed_def movements_booked_def
    reversals_ok_def currencies_ok_def
  by blast+

lemma books_balance_nonneg: "books d \<Longrightarrow> w \<in> set (db_wallets d) \<Longrightarrow> 0 \<le> sint (wl_balance w)"
  using booksD(5) chain_nonneg by (metis order_refl)

text \<open>Only wallets, ledger and wagers matter; events and inbox rows do not.\<close>

lemma books_cong:
  assumes "db_wallets d = db_wallets d'" "db_ledger d = db_ledger d'" "db_wagers d = db_wagers d'"
  shows "books d = books d'"
proof -
  have "processed d = processed d'" "kind_at d = kind_at d'" "entries_of d = entries_of d'"
    using assms by (simp_all add: processed_def kind_at_def entries_of_def fun_eq_iff)
  moreover from this have "movement_of d = movement_of d'" by (intro ext) (simp add: movement_of_def)
  moreover from this have "backs d = backs d'" by (intro ext) (simp add: backs_def)
  ultimately show ?thesis using assms
    by (simp only: books_def keys_ok_def chains_ok_def entries_backed_def movements_booked_def
        reversals_ok_def currencies_ok_def)
qed

lemma books_put_outbox [simp]: "books (put_outbox es d) = books d"
  by (rule books_cong) simp_all

lemma books_put_inbox [simp]: "books (put_inbox i d) = books d"
  by (rule books_cong) simp_all

section \<open>Writing a transaction\<close>

definition same_content :: "wager_row \<Rightarrow> wager_row \<Rightarrow> bool" where
  "same_content a b \<longleftrightarrow> tx_core (tx_of a) = tx_core (tx_of b)"

lemma same_contentD:
  assumes "same_content a b"
  shows "wr_id a = wr_id b" "wr_kind a = wr_kind b" "wr_wallet_id a = wr_wallet_id b"
    "wr_amount a = wr_amount b" "wr_currency a = wr_currency b"
  using tx_core_eqD [OF assms [unfolded same_content_def]] by (simp_all add: tx_of_def)

lemma same_content_merge: "tx_core (tx_of (wager_merge old new)) = tx_core (tx_of old)"
  by (simp add: tx_of_def wager_merge_def tx_core_def)

lemma reference_ok_core:
  assumes "tx_core a = tx_core b"
  shows "reference_ok a r = reference_ok b r"
  by (simp add: reference_ok_def tx_core_eqD [OF assms])

text \<open>A row may be written when its identifier is new, or is that of a row with the same content
  in a state that is not terminal.\<close>

definition writable :: "db \<Rightarrow> wager_row \<Rightarrow> bool" where
  "writable d q \<longleftrightarrow> (case lookup_by wr_id (wr_id q) (db_wagers d) of None \<Rightarrow> True
     | Some old \<Rightarrow> same_content old q \<and> \<not> TxStatus_IsTerminal (wr_status old))"

definition written :: "db \<Rightarrow> wager_row \<Rightarrow> wager_row" where
  "written d q = (case lookup_by wr_id (wr_id q) (db_wagers d) of None \<Rightarrow> q | Some old \<Rightarrow> wager_merge old q)"

lemma written_core: "writable d q \<Longrightarrow> tx_core (tx_of (written d q)) = tx_core (tx_of q)"
  by (auto simp: writable_def written_def same_content_merge same_content_def split: option.splits)

lemma written_simps:
  assumes "writable d q"
  shows "wr_id (written d q) = wr_id q" "wr_status (written d q) = wr_status q"
    "wr_kind (written d q) = wr_kind q" "wr_wallet_id (written d q) = wr_wallet_id q"
    "wr_amount (written d q) = wr_amount q" "wr_currency (written d q) = wr_currency q"
    "wr_reference_transaction_id (written d q) = wr_reference_transaction_id q"
  using tx_core_eqD [OF written_core [OF assms]]
  by (simp_all add: tx_of_def) (auto simp: written_def wager_merge_def split: option.splits)

lemma written_reversal:
  assumes "writable d q"
  shows "is_reversal (written d q) = is_reversal q" "reverses (written d q) r = reverses q r"
  using reference_ok_core [OF written_core [OF assms]]
  by (simp_all add: is_reversal_def reverses_def written_simps [OF assms])

lemma put_wager_set:
  "distinct (map wr_id (db_wagers d)) \<Longrightarrow>
     set (db_wagers (put_wager q d)) = {r \<in> set (db_wagers d). wr_id r \<noteq> wr_id q} \<union> {written d q}"
  by (simp add: wagers.upsert_set written_def)

lemma processed_new_id:
  assumes "distinct (map wr_id (db_wagers d))" "writable d q" "p \<in> processed d"
  shows "wr_id p \<noteq> wr_id q"
proof
  assume "wr_id p = wr_id q"
  with assms(1,3) have "lookup_by wr_id (wr_id q) (db_wagers d) = Some p"
    by (metis (no_types, lifting) lookup_by_eqI mem_Collect_eq processed_def)
  with assms(2,3) show False by (auto simp: writable_def processed_def)
qed

lemma processed_put_wager:
  assumes "distinct (map wr_id (db_wagers d))" "writable d q"
  shows "processed (put_wager q d) =
    (if wr_status q = TxStatusProcessed then insert (written d q) (processed d) else processed d)"
  using processed_new_id [OF assms] put_wager_set [OF assms(1), of q] written_simps(2) [OF assms(2)]
  by (auto simp: processed_def)

lemma kind_at_put_wager:
  assumes "writable d q"
  shows "kind_at (put_wager q d) i = (if i = wr_id q then Some (wr_kind q) else kind_at d i)"
  using written_simps(3) [OF assms]
  by (auto simp: kind_at_def wagers.lookup_upsert written_def split: option.splits)

lemma kind_at_kept:
  assumes "writable d q" "kind_at d i = Some k"
  shows "kind_at (put_wager q d) i = Some k"
  using assms same_contentD(2)
  by (auto simp: kind_at_def wagers.lookup_upsert writable_def wager_merge_def split: option.splits)

lemma kind_at_row: "distinct (map wr_id (db_wagers d)) \<Longrightarrow> r \<in> set (db_wagers d) \<Longrightarrow> kind_at d (wr_id r) = Some (wr_kind r)"
  by (simp add: kind_at_def lookup_by_eqI)

lemma movement_of_kept:
  assumes "books d" "writable d q" "p \<in> processed d"
  shows "movement_of (put_wager q d) p = movement_of d p"
proof (cases "is_reversal p")
  case True
  then obtain r where r: "r \<in> processed d" "reverses p r" using booksD(8) [OF assms(1,3)] by blast
  then have "kind_at d (wr_id r) = Some (wr_kind r)"
    using kind_at_row [OF booksD(2) [OF assms(1)]] by (simp add: processed_def)
  with r(2) show ?thesis
    using kind_at_kept [OF assms(2)] by (simp add: movement_of_def reverses_def)
next
  case False
  then show ?thesis by (cases "wr_kind p") (simp_all add: movement_of_def is_reversal_def)
qed

lemma backs_kept:
  "books d \<Longrightarrow> writable d q \<Longrightarrow> p \<in> processed d \<Longrightarrow> backs (put_wager q d) p e = backs d p e"
  by (simp add: backs_def movement_of_kept)

text \<open>A transaction that does not become processed, or that is a loss in the wallet's currency.\<close>

lemma books_put_wager:
  assumes b: "books d" and w: "writable d q"
    and q: "wr_status q = TxStatusProcessed \<Longrightarrow> wr_kind q = KindLoss \<and>
      (\<exists>w\<in>set (db_wallets d). wl_id w = wr_wallet_id q \<and> wl_currency w = wr_currency q)"
  shows "books (put_wager q d)"
proof -
  note D = booksD [OF b]
  note P = processed_put_wager [OF D(2) w]
  have loss: "movement_of (put_wager q d) (written d q) = None" "\<not> is_reversal (written d q)"
    if "wr_status q = TxStatusProcessed"
    using q [OF that] by (simp_all add: movement_of_def written_simps [OF w] is_reversal_def)
  have "keys_ok (put_wager q d)"
    using D(1-4) by (simp add: keys_ok_def wagers.upsert_distinct)
  moreover have "chains_ok (put_wager q d)"
    using D(5) by (simp add: chains_ok_def entries_of_def)
  moreover have "entries_backed (put_wager q d)"
    unfolding entries_backed_def
  proof
    fix e assume "e \<in> set (db_ledger (put_wager q d))"
    then obtain p where "p \<in> processed d" "backs d p e" using D(6) by auto
    then show "\<exists>p\<in>processed (put_wager q d). backs (put_wager q d) p e"
      using backs_kept [OF b w] by (auto simp: P)
  qed
  moreover have "movements_booked (put_wager q d)"
    unfolding movements_booked_def
  proof (intro ballI impI)
    fix p assume p: "p \<in> processed (put_wager q d)" "movement_of (put_wager q d) p \<noteq> None"
    then have pd: "p \<in> processed d" using loss(1) by (auto simp: P split: if_splits)
    with p movement_of_kept [OF b w pd] D(7) obtain e where "e \<in> set (db_ledger d)" "backs d p e" by auto
    then show "\<exists>e\<in>set (db_ledger (put_wager q d)). backs (put_wager q d) p e"
      using backs_kept [OF b w pd] by auto
  qed
  moreover have "reversals_ok (put_wager q d)"
    unfolding reversals_ok_def P using loss(2) D(8,9) by (auto split: if_splits)
  moreover have "currencies_ok (put_wager q d)"
    unfolding currencies_ok_def P using q D(10) by (auto simp: written_simps [OF w])
  ultimately show ?thesis by (simp add: books_def)
qed

section \<open>Booking a movement\<close>

text \<open>The three writes of a movement: the processed transaction, the new balance, the entry.\<close>

definition booked :: "wager_row \<Rightarrow> wallet_row \<Rightarrow> ledger_row \<Rightarrow> db \<Rightarrow> db" where
  "booked q w e d = add_ledger e (put_wallet w (put_wager q d))"

lemma put_wallet_set:
  assumes "distinct (map wl_id (db_wallets d))" "lookup_by wl_id (wl_id w') (db_wallets d) = Some w"
  shows "set (db_wallets (put_wallet w' d)) =
    {r \<in> set (db_wallets d). wl_id r \<noteq> wl_id w'} \<union> {wallet_merge w w'}"
  using assms by (simp add: wallets.upsert_set)

lemma booked_views:
  "processed (booked q w e d) = processed (put_wager q d)"
  "movement_of (booked q w e d) = movement_of (put_wager q d)"
  "backs (booked q w e d) = backs (put_wager q d)"
  "db_ledger (booked q w e d) = db_ledger d @ [e]"
  "db_wallets (booked q w e d) = db_wallets (put_wallet w d)"
  "map wr_id (db_wagers (booked q w e d)) = map wr_id (db_wagers (put_wager q d))"
proof -
  have "kind_at (booked q w e d) = kind_at (put_wager q d)"
    by (intro ext) (simp add: booked_def kind_at_def)
  then show m: "movement_of (booked q w e d) = movement_of (put_wager q d)"
    by (intro ext) (simp add: movement_of_def)
  then show "backs (booked q w e d) = backs (put_wager q d)"
    by (intro ext) (simp add: backs_def)
qed (simp_all add: booked_def processed_def)

text \<open>What a movement is booked on: the transaction \<open>q\<close> is new or not terminal, the wallet \<open>w\<close> has its currency
  and becomes \<open>w'\<close>, and the entry \<open>e\<close> carries the balance of \<open>w\<close> over to that of \<open>w'\<close>.\<close>

definition bookable :: "db \<Rightarrow> wager_row \<Rightarrow> wallet_row \<Rightarrow> wallet_row \<Rightarrow> ledger_row \<Rightarrow> bool" where
  "bookable d q w w' e \<longleftrightarrow> writable d q \<and> wr_status q = TxStatusProcessed \<and>
     lookup_by wl_id (wr_wallet_id q) (db_wallets d) = Some w \<and> wl_currency w = wr_currency q \<and>
     wl_id w' = wl_id w \<and> wl_balance w' = lr_balance_after e \<and>
     lr_transaction_id e = wr_id q \<and> lr_wallet_id e = wr_wallet_id q \<and> lr_amount e = wr_amount q \<and>
     movement (wr_kind q) (Option.bind (wr_reference_transaction_id q) (kind_at d)) = Some (lr_direction e) \<and>
     (lr_direction e = DirectionDebit \<or> lr_direction e = DirectionCredit) \<and>
     lr_balance_before e = wl_balance w \<and> 0 < sint (lr_amount e) \<and>
     sint (lr_balance_after e) = sint (lr_balance_before e) + signed_row e \<and> 0 \<le> sint (lr_balance_after e) \<and>
     (is_reversal q \<longrightarrow> (\<exists>r\<in>processed d. reverses q r)) \<and>
     (\<forall>ref r. is_reversal q \<longrightarrow> wr_reference_transaction_id q = Some ref \<longrightarrow>
        r \<in> set (db_wagers d) \<longrightarrow> \<not> is_reversal_row ref r)"

lemma bookableI:
  assumes "writable d q" "wr_status q = TxStatusProcessed"
    and "lookup_by wl_id (wr_wallet_id q) (db_wallets d) = Some w" "wl_currency w = wr_currency q"
    and "wl_id w' = wl_id w" "wl_balance w' = lr_balance_after e"
    and "lr_transaction_id e = wr_id q" "lr_wallet_id e = wr_wallet_id q" "lr_amount e = wr_amount q"
    and "movement (wr_kind q) (Option.bind (wr_reference_transaction_id q) (kind_at d)) = Some (lr_direction e)"
      "lr_direction e = DirectionDebit \<or> lr_direction e = DirectionCredit"
    and "lr_balance_before e = wl_balance w" "0 < sint (lr_amount e)"
      "sint (lr_balance_after e) = sint (lr_balance_before e) + signed_row e" "0 \<le> sint (lr_balance_after e)"
    and "is_reversal q \<Longrightarrow> \<exists>r\<in>processed d. reverses q r"
      "\<And>ref r. is_reversal q \<Longrightarrow> wr_reference_transaction_id q = Some ref \<Longrightarrow>
        r \<in> set (db_wagers d) \<Longrightarrow> \<not> is_reversal_row ref r"
  shows "bookable d q w w' e"
  using assms unfolding bookable_def by blast

lemma bookableD:
  assumes "bookable d q w w' e"
  shows "writable d q" "wr_status q = TxStatusProcessed"
    "lookup_by wl_id (wr_wallet_id q) (db_wallets d) = Some w" "wl_currency w = wr_currency q"
    "wl_id w' = wl_id w" "wl_balance w' = lr_balance_after e"
    "lr_transaction_id e = wr_id q" "lr_wallet_id e = wr_wallet_id q" "lr_amount e = wr_amount q"
    "movement (wr_kind q) (Option.bind (wr_reference_transaction_id q) (kind_at d)) = Some (lr_direction e)"
    "wl_id w = wr_wallet_id q" "w \<in> set (db_wallets d)"
  using assms lookup_by_SomeD [of wl_id "wr_wallet_id q" "db_wallets d" w] by (simp_all add: bookable_def)

lemma bookable_entry:
  assumes "bookable d q w w' e"
  shows "lr_direction e = DirectionDebit \<or> lr_direction e = DirectionCredit" "lr_balance_before e = wl_balance w"
    "0 < sint (lr_amount e)" "sint (lr_balance_after e) = sint (lr_balance_before e) + signed_row e"
    "0 \<le> sint (lr_balance_after e)"
  using assms unfolding bookable_def by blast+

lemma bookable_reversal:
  assumes "bookable d q w w' e" "is_reversal q"
  shows "\<exists>r\<in>processed d. reverses q r"
    "wr_reference_transaction_id q = Some ref \<Longrightarrow> r \<in> set (db_wagers d) \<Longrightarrow> \<not> is_reversal_row ref r"
  using assms unfolding bookable_def by blast+

lemma booked_processed:
  "books d \<Longrightarrow> bookable d q w w' e \<Longrightarrow> processed (booked q w' e d) = insert (written d q) (processed d)"
  by (simp add: booked_views processed_put_wager booksD(2) bookableD(1,2))

lemma booked_wallets:
  assumes "books d" "bookable d q w w' e"
  shows "set (db_wallets (booked q w' e d)) =
    {r \<in> set (db_wallets d). wl_id r \<noteq> wl_id w} \<union> {wallet_merge w w'}"
  using put_wallet_set [OF booksD(1) [OF assms(1)], of w' w] bookableD(3,5,11) [OF assms(2)]
  by (simp add: booked_views)

lemma booked_movement:
  assumes b: "books d" and k: "bookable d q w w' e"
  shows "backs (put_wager q d) (written d q) e"
proof -
  note wr = bookableD(1) [OF k] and dir = bookableD(10) [OF k]
  have "movement_of (put_wager q d) (written d q) = Some (lr_direction e)"
  proof (cases "is_reversal q")
    case True
    then obtain r where "r \<in> processed d" "reverses q r" using bookable_reversal(1) [OF k] by blast
    with processed_new_id [OF booksD(2) [OF b] wr]
    have "wr_reference_transaction_id q = Some (wr_id r)" "wr_id r \<noteq> wr_id q" by (auto simp: reverses_def)
    with dir show ?thesis by (simp add: movement_of_def written_simps [OF wr] kind_at_put_wager [OF wr])
  next
    case False
    with dir show ?thesis
      by (cases "wr_kind q") (simp_all add: movement_of_def written_simps [OF wr] is_reversal_def)
  qed
  then show ?thesis by (simp add: backs_def written_simps [OF wr] bookableD [OF k])
qed

lemma booked_keys:
  assumes b: "books d" and k: "bookable d q w w' e"
  shows "keys_ok (booked q w' e d)"
  unfolding keys_ok_def
proof (intro conjI ballI)
  note D = booksD [OF b]
  show "distinct (map wl_id (db_wallets (booked q w' e d)))"
    using D(1) by (simp add: booked_def wallets.upsert_distinct)
  show "distinct (map wr_id (db_wagers (booked q w' e d)))"
    using D(2) by (simp add: booked_def wagers.upsert_distinct)
  have "lr_transaction_id f \<noteq> wr_id q" if "f \<in> set (db_ledger d)" for f
    using D(6) [OF that] processed_new_id [OF D(2) bookableD(1) [OF k]] unfolding backs_def by metis
  then have "lr_transaction_id e \<notin> lr_transaction_id ` set (db_ledger d)"
    unfolding bookableD(7) [OF k] by (metis imageE)
  with D(3) show "distinct (map lr_transaction_id (db_ledger (booked q w' e d)))" by (simp add: booked_views)
  have ids: "wl_id ` set (db_wallets (booked q w' e d)) = wl_id ` set (db_wallets d)"
    unfolding booked_wallets [OF b k] using bookableD(12) [OF k] by (auto simp: wallet_merge_def)
  fix f assume f: "f \<in> set (db_ledger (booked q w' e d))"
  have "lr_wallet_id e \<in> wl_id ` set (db_wallets d)"
    using imageI [OF bookableD(12) [OF k], of wl_id] bookableD(8,11) [OF k] by simp
  with f D(4) show "lr_wallet_id f \<in> wl_id ` set (db_wallets (booked q w' e d))"
    unfolding ids by (auto simp: booked_views)
qed

lemma booked_chains:
  assumes b: "books d" and k: "bookable d q w w' e"
  shows "chains_ok (booked q w' e d)"
  unfolding chains_ok_def
proof
  note D = booksD [OF b] and e = bookableD(8,11) [OF k]
  fix v assume "v \<in> set (db_wallets (booked q w' e d))"
  then consider "v \<in> set (db_wallets d)" "wl_id v \<noteq> wl_id w" | "v = wallet_merge w w'"
    unfolding booked_wallets [OF b k] by blast
  then show "chain 0 (entries_of (booked q w' e d) (wl_id v)) (sint (wl_balance v))"
  proof cases
    case 1
    with D(5) e show ?thesis by (simp add: entries_of_def booked_views)
  next
    case 2
    have "entries_of (booked q w' e d) (wl_id v) = entries_of d (wl_id w) @ [e]"
      using 2 e by (simp add: entries_of_def booked_views wallet_merge_def)
    moreover have "chain 0 (entries_of d (wl_id w)) (sint (wl_balance w))" using D(5) bookableD(12) [OF k] by blast
    ultimately show ?thesis
      using chain_snoc bookable_entry [OF k] bookableD(6) [OF k] 2 by (simp add: wallet_merge_def)
  qed
qed

lemma booked_entries:
  assumes b: "books d" and k: "bookable d q w w' e"
  shows "entries_backed (booked q w' e d)"
  unfolding entries_backed_def
proof
  fix f assume "f \<in> set (db_ledger (booked q w' e d))"
  then consider "f \<in> set (db_ledger d)" | "f = e" by (auto simp: booked_views)
  then show "\<exists>p\<in>processed (booked q w' e d). backs (booked q w' e d) p f"
  proof cases
    case 1
    then obtain p where "p \<in> processed d" "backs d p f" using booksD(6) [OF b] by blast
    then show ?thesis
      using backs_kept [OF b bookableD(1) [OF k]] by (auto simp: booked_views(3) booked_processed [OF b k])
  next
    case 2
    with booked_movement [OF b k] show ?thesis by (auto simp: booked_views(3) booked_processed [OF b k])
  qed
qed

lemma booked_movements:
  assumes b: "books d" and k: "bookable d q w w' e"
  shows "movements_booked (booked q w' e d)"
  unfolding movements_booked_def booked_processed [OF b k] booked_views(2-4)
proof (intro ballI impI)
  note wr = bookableD(1) [OF k]
  fix p assume p: "p \<in> insert (written d q) (processed d)" "movement_of (put_wager q d) p \<noteq> None"
  show "\<exists>f\<in>set (db_ledger d @ [e]). backs (put_wager q d) p f"
  proof (cases "p = written d q")
    case True
    with booked_movement [OF b k] show ?thesis by auto
  next
    case False
    with p have pd: "p \<in> processed d" by blast
    with p movement_of_kept [OF b wr pd] booksD(7) [OF b]
    obtain f where "f \<in> set (db_ledger d)" "backs d p f" by auto
    then show ?thesis using backs_kept [OF b wr pd] by auto
  qed
qed

lemma booked_reversals:
  assumes b: "books d" and k: "bookable d q w w' e"
  shows "reversals_ok (booked q w' e d)"
proof -
  note D = booksD [OF b] and wr = bookableD(1) [OF k] and rev = bookable_reversal [OF k]
  have old: "wr_reference_transaction_id p \<noteq> wr_reference_transaction_id q"
    if pq: "p \<in> processed d" "is_reversal p" "is_reversal q" for p
  proof -
    from rev(1) [OF pq(3)] obtain r where "reverses q r" by blast
    then have "wr_reference_transaction_id q = Some (wr_id r)" by (simp add: reversesD)
    with rev(2) pq show ?thesis by (auto simp: processed_def is_reversal_row_def is_reversal_def)
  qed
  have "x = y"
    if xy: "x \<in> insert (written d q) (processed d)" "y \<in> insert (written d q) (processed d)"
      "is_reversal x" "is_reversal y" "wr_reference_transaction_id x = wr_reference_transaction_id y" for x y
  proof (cases "x = written d q \<or> y = written d q")
    case True
    with xy old [of x] old [of y] show ?thesis
      by (auto simp: written_simps [OF wr] written_reversal(1) [OF wr])
  next
    case False
    with xy D(9) show ?thesis by blast
  qed
  moreover have "\<exists>r\<in>insert (written d q) (processed d). reverses x r"
    if x: "x \<in> insert (written d q) (processed d)" "is_reversal x" for x
    using x D(8) [of x] rev(1) written_reversal [OF wr] by (cases "x = written d q") auto
  ultimately show ?thesis
    unfolding reversals_ok_def booked_processed [OF b k] by blast
qed

lemma booked_currencies:
  assumes b: "books d" and k: "bookable d q w w' e"
  shows "currencies_ok (booked q w' e d)"
  unfolding currencies_ok_def booked_processed [OF b k]
proof
  note w = bookableD(4,11,12) [OF k]
  fix p assume "p \<in> insert (written d q) (processed d)"
  then obtain v where v: "v \<in> set (db_wallets d)" "wl_id v = wr_wallet_id p" "wl_currency v = wr_currency p"
    using booksD(10) [OF b] w by (auto simp: written_simps [OF bookableD(1) [OF k]])
  show "\<exists>w\<in>set (db_wallets (booked q w' e d)). wl_id w = wr_wallet_id p \<and> wl_currency w = wr_currency p"
  proof (cases "wl_id v = wl_id w")
    case True
    have "v = w" using booksD(1) [OF b] v(1) w(3) True by (metis distinct_map inj_onD)
    with v show ?thesis by (auto simp: booked_wallets [OF b k] wallet_merge_def)
  next
    case False
    with v show ?thesis by (auto simp: booked_wallets [OF b k])
  qed
qed

lemma books_booked: "books d \<Longrightarrow> bookable d q w w' e \<Longrightarrow> books (booked q w' e d)"
  by (simp add: books_def [of "booked q w' e d"] booked_keys booked_chains booked_entries booked_movements
      booked_reversals booked_currencies)

section \<open>Opening a wallet\<close>

lemma books_open:
  assumes b: "books d" and new: "lookup_by wl_id (wl_id w) (db_wallets d) = None" and zero: "wl_balance w = 0"
  shows "books (put_wallet w d)"
proof -
  note D = booksD [OF b]
  have ws: "db_wallets (put_wallet w d) = db_wallets d @ [w]" using new by (simp add: upsert_def)
  have same: "processed (put_wallet w d) = processed d" "kind_at (put_wallet w d) = kind_at d"
    "entries_of (put_wallet w d) = entries_of d"
    by (simp_all add: processed_def kind_at_def entries_of_def fun_eq_iff)
  then have mo: "movement_of (put_wallet w d) = movement_of d" by (intro ext) (simp add: movement_of_def)
  then have ba: "backs (put_wallet w d) = backs d" by (intro ext) (simp add: backs_def)
  have none: "entries_of d (wl_id w) = []"
    using D(4) new unfolding entries_of_def filter_empty_conv lookup_by_None_iff by metis
  have "keys_ok (put_wallet w d)"
    unfolding keys_ok_def ws using D(1-4) new by (auto simp: lookup_by_None_iff)
  moreover have "chains_ok (put_wallet w d)"
    unfolding chains_ok_def ws same using D(5) none zero by auto
  moreover have "entries_backed (put_wallet w d)" "movements_booked (put_wallet w d)"
    "reversals_ok (put_wallet w d)"
    unfolding entries_backed_def movements_booked_def reversals_ok_def same mo ba
    using D(6-9) by auto
  moreover have "currencies_ok (put_wallet w d)"
    unfolding currencies_ok_def same ws using D(10) by auto
  ultimately show ?thesis by (simp add: books_def)
qed

text \<open>A new wallet with a balance: its opening transaction and its first entry.\<close>

lemma books_opening:
  assumes b: "books d" and new: "lookup_by wl_id (wl_id w) (db_wallets d) = None"
    and q: "lookup_by wr_id (wr_id q) (db_wagers d) = None" "wr_kind q = KindOpening"
      "wr_status q = TxStatusProcessed" "wr_wallet_id q = wl_id w" "wr_currency q = wl_currency w"
      "wr_amount q = wl_balance w" "0 < sint (wl_balance w)"
    and e: "lr_transaction_id e = wr_id q" "lr_wallet_id e = wl_id w" "lr_amount e = wl_balance w"
      "lr_direction e = DirectionCredit" "lr_balance_before e = 0" "lr_balance_after e = wl_balance w"
  shows "books (add_ledger e (put_wager q (put_wallet w d)))"
proof -
  let ?w0 = "w\<lparr>wl_balance := 0\<rparr>" and ?d0 = "put_wallet (w\<lparr>wl_balance := 0\<rparr>) d"
  have b0: "books ?d0" using b new by (intro books_open) simp_all
  have look: "lookup_by wl_id (wl_id w) (db_wallets ?d0) = Some ?w0"
    using new by (simp add: wallets.lookup_upsert)
  have "wallet_merge ?w0 w = w" by (simp add: wallet_merge_def)
  then have "db_wallets (put_wallet w ?d0) = db_wallets (put_wallet w d)"
    using new by (auto simp: upsert_def lookup_by_append dest: lookup_by_NoneD intro!: map_idI)
  then have eq: "booked q w e ?d0 = add_ledger e (put_wager q (put_wallet w d))"
    by (simp add: booked_def put_wallet_def put_wager_def add_ledger_def)
  have "books (booked q w e ?d0)"
    using q e by (intro books_booked [OF b0 bookableI [where w = ?w0]])
      (simp_all add: look [simplified] writable_def signed_row_def is_reversal_def)
  then show ?thesis unfolding eq .
qed

section \<open>What balanced books mean\<close>

text \<open>A wallet's balance is the sum of its processed movements.\<close>

definition signed_amount :: "db \<Rightarrow> wager_row \<Rightarrow> int" where
  "signed_amount d q = (case movement_of d q of Some DirectionDebit \<Rightarrow> - sint (wr_amount q)
     | Some DirectionCredit \<Rightarrow> sint (wr_amount q) | _ \<Rightarrow> 0)"

lemma backs_signed: "backs d q e \<Longrightarrow> signed_row e = signed_amount d q"
  by (simp add: backs_def signed_row_def signed_amount_def split: direction.splits)

lemma sum_list_processed:
  assumes b: "books d"
  shows "sum_list (map signed_row (entries_of d wid)) =
    (\<Sum>q\<in>{q \<in> processed d. wr_wallet_id q = wid}. signed_amount d q)"
proof -
  note D = booksD [OF b]
  let ?E = "{e \<in> set (db_ledger d). lr_wallet_id e = wid}"
  let ?Q = "{q \<in> processed d. wr_wallet_id q = wid}"
  let ?M = "{q \<in> ?Q. movement_of d q \<noteq> None}"
  have fin: "finite ?Q" by (simp add: processed_def)
  have inj: "inj_on lr_transaction_id (set (db_ledger d))" using D(3) by (simp add: distinct_map)
  have dist: "distinct (entries_of d wid)" using D(3) by (simp add: entries_of_def distinct_map)
  have injw: "inj_on wr_id (set (db_wagers d))" using D(2) by (simp add: distinct_map)
  have one_q: "p = q" if "backs d p e" "backs d q e" "p \<in> processed d" "q \<in> processed d" for p q e
    using that injw by (auto simp: backs_def processed_def inj_on_def)
  have one_e: "e = f" if "backs d q e" "backs d q f" "e \<in> set (db_ledger d)" "f \<in> set (db_ledger d)" for q e f
    using that inj by (auto simp: backs_def inj_on_def)
  define tx where "tx e = (SOME q. q \<in> processed d \<and> backs d q e)" for e
  define entry where "entry q = (SOME e. e \<in> set (db_ledger d) \<and> backs d q e)" for q
  have tx: "tx e \<in> processed d \<and> backs d (tx e) e" if "e \<in> set (db_ledger d)" for e
    unfolding tx_def by (rule someI_ex) (use D(6) [OF that] in blast)
  have entry: "entry q \<in> set (db_ledger d) \<and> backs d q (entry q)"
    if "q \<in> processed d" "movement_of d q \<noteq> None" for q
    unfolding entry_def by (rule someI_ex) (use D(7) [OF that] in blast)
  have "sum_list (map signed_row (entries_of d wid)) = (\<Sum>e\<in>?E. signed_row e)"
    using dist by (simp add: entries_of_def sum_list_distinct_conv_sum_set)
  also have "\<dots> = (\<Sum>q\<in>?M. signed_amount d q)"
  proof (rule sum.reindex_bij_witness [where i = entry and j = tx])
    fix e assume "e \<in> ?E"
    then have e: "e \<in> set (db_ledger d)" "lr_wallet_id e = wid" by simp_all
    from tx [OF e(1)] have t: "tx e \<in> processed d" "backs d (tx e) e" by simp_all
    then have mv: "movement_of d (tx e) \<noteq> None" by (simp add: backs_def)
    from entry [OF t(1) mv] one_e [OF _ t(2) _ e(1)] show "entry (tx e) = e" by blast
    from t mv e(2) show "tx e \<in> ?M" by (simp add: backs_def)
    from t(2) show "signed_amount d (tx e) = signed_row e" by (simp add: backs_signed)
  next
    fix q assume "q \<in> ?M"
    then have q: "q \<in> processed d" "movement_of d q \<noteq> None" "wr_wallet_id q = wid" by simp_all
    from entry [OF q(1,2)] have t: "entry q \<in> set (db_ledger d)" "backs d q (entry q)" by simp_all
    from tx [OF t(1)] one_q [OF _ t(2) _ q(1)] show "tx (entry q) = q" by blast
    from t q(3) show "entry q \<in> ?E" by (simp add: backs_def)
  qed
  also have "\<dots> = (\<Sum>q\<in>?Q. signed_amount d q)"
    using fin by (intro sum.mono_neutral_left) (auto simp: signed_amount_def)
  finally show ?thesis .
qed



section \<open>Sample books\<close>

text \<open>One wallet of 50.00 BRL with its opening, a processed bet of 30.00 BRL on it and a refund of
  that bet.\<close>

definition no_tables :: db where
  "no_tables = \<lparr>db_wallets = [], db_ledger = [], db_wagers = [], db_outbox = [], db_inbox = []\<rparr>"

lemma books_no_tables: "books no_tables"
  by (simp add: books_def keys_ok_def chains_ok_def entries_backed_def movements_booked_def
      reversals_ok_def currencies_ok_def processed_def no_tables_def)

definition sample_opening :: wager_row where
  "sample_opening = \<lparr>wr_id = 1, wr_status = TxStatusProcessed, wr_kind = KindOpening, wr_provider_id = None,
     wr_external_transaction_id = None, wr_round_id = None, wr_game_id = None, wr_player_id = 2,
     wr_wallet_id = 3, wr_currency = ''BRL'', wr_amount = 5000, wr_reference_external_transaction_id = None,
     wr_reference_transaction_id = None, wr_failure_code = None, wr_payload_hash = 0, wr_created_at = 1,
     wr_updated_at = 1, wr_attempts = 0, wr_next_retry_at = None\<rparr>"

definition sample_entry :: "uuid \<Rightarrow> uuid \<Rightarrow> direction \<Rightarrow> i64 \<Rightarrow> i64 \<Rightarrow> i64 \<Rightarrow> ledger_row" where
  "sample_entry i tx dir a b c = \<lparr>lr_id = i, lr_wallet_id = 3, lr_transaction_id = tx, lr_direction = dir,
     lr_amount = a, lr_balance_before = b, lr_balance_after = c, lr_created_at = 1\<rparr>"

definition opened_db :: db where
  "opened_db = add_ledger (sample_entry 4 1 DirectionCredit 5000 0 5000)
     (put_wager sample_opening (put_wallet (wallet_row_of sample_wallet) no_tables))"

lemma books_opened: "books opened_db"
  unfolding opened_db_def
  by (rule books_opening [OF books_no_tables])
    (simp_all add: no_tables_def sample_opening_def sample_entry_def sample_wallet_def wallet_row_of_def)

definition bet_db :: db where
  "bet_db = booked (wager_row_of sample_external (sample_bet TxStatusProcessed))
     (wallet_row_of (sample_wallet\<lparr>w_balance := \<lparr>m_currency = ''BRL'', m_amount = 2000\<rparr>, w_version := 2\<rparr>))
     (sample_entry 5 7 DirectionDebit 3000 5000 2000) opened_db"

lemma opened_db_eq:
  "opened_db = \<lparr>db_wallets = [wallet_row_of sample_wallet],
     db_ledger = [sample_entry 4 1 DirectionCredit 5000 0 5000], db_wagers = [sample_opening],
     db_outbox = [], db_inbox = []\<rparr>"
  by (simp add: opened_db_def add_ledger_def put_wager_def put_wallet_def no_tables_def upsert_def)

lemma books_bet: "books bet_db"
  unfolding bet_db_def
  by (rule books_booked [OF books_opened bookableI [where w = "wallet_row_of sample_wallet"]])
    (simp_all add: opened_db_eq writable_def wager_row_of_def sample_bet_def sample_opening_def
      sample_wallet_def wallet_row_of_def sample_entry_def signed_row_def is_reversal_def)

definition sample_refund :: "tx_status \<Rightarrow> uuid option \<Rightarrow> transaction" where
  "sample_refund st ref =
     \<lparr>tx_id = 8, tx_status = st, tx_externalTransactionID = ''refund-1'', tx_providerID = ''provider-a'',
      tx_playerID = 2, tx_walletID = 3, tx_roundID = ''round-1'', tx_gameID = ''game-1'',
      tx_kind = KindRefund, tx_amount = \<lparr>m_currency = ''BRL'', m_amount = 3000\<rparr>,
      tx_referenceExternalTransactionID = Some ''bet-1'', tx_referenceTransactionID = ref,
      tx_failureCode = [], tx_createdAt = 6, tx_updatedAt = 6\<rparr>"

definition refund_db :: db where
  "refund_db = booked (wager_row_of sample_external (sample_refund TxStatusProcessed (Some 7)))
     (wallet_row_of (sample_wallet\<lparr>w_version := 3\<rparr>))
     (sample_entry 6 8 DirectionCredit 3000 2000 5000) bet_db"

lemma bet_db_eq:
  "bet_db = \<lparr>db_wallets = [wallet_row_of (sample_wallet\<lparr>w_balance := \<lparr>m_currency = ''BRL'', m_amount = 2000\<rparr>, w_version := 2\<rparr>)],
     db_ledger = [sample_entry 4 1 DirectionCredit 5000 0 5000, sample_entry 5 7 DirectionDebit 3000 5000 2000],
     db_wagers = [sample_opening, wager_row_of sample_external (sample_bet TxStatusProcessed)],
     db_outbox = [], db_inbox = []\<rparr>"
  by (simp add: bet_db_def booked_def opened_db_eq add_ledger_def put_wager_def put_wallet_def upsert_def
      sample_wallet_def wallet_row_of_def wallet_merge_def sample_opening_def sample_bet_def wager_row_of_def)

lemma bet_row: "wager_row_of sample_external (sample_bet TxStatusProcessed) \<in> processed bet_db"
  by (simp add: processed_def bet_db_eq wager_row_of_def sample_bet_def)

lemma books_refund: "books refund_db"
  unfolding refund_db_def
proof (rule books_booked [OF books_bet bookableI [where w = "wallet_row_of (sample_wallet\<lparr>w_balance := \<lparr>m_currency = ''BRL'', m_amount = 2000\<rparr>, w_version := 2\<rparr>)"]])
  show "\<exists>r\<in>processed bet_db. reverses (wager_row_of sample_external (sample_refund TxStatusProcessed (Some 7))) r"
  proof (rule bexI [OF _ bet_row])
    show "reverses (wager_row_of sample_external (sample_refund TxStatusProcessed (Some 7)))
        (wager_row_of sample_external (sample_bet TxStatusProcessed))"
      by (simp add: reverses_def reference_ok_def referenceableKind_def)
        (simp add: wager_row_of_def sample_refund_def sample_bet_def)
  qed
qed (simp_all add: bet_db_eq writable_def wager_row_of_def sample_bet_def sample_opening_def
      sample_wallet_def wallet_row_of_def sample_entry_def signed_row_def is_reversal_row_def
      sample_refund_def kind_at_def, auto)



end
