(* ===== verification/Settlement.thy ===== *)
theory Settlement
  imports Submit Books
begin

text \<open>
  What a submission does to the tables, and that it keeps the books.

  The rules \<open>..._InrE\<close> describe a successful run of each piece of \<open>process\<close>; the \<open>..._db\<close> lemmas
  describe every run, failed ones and lost replies included. A call inside somebody else's
  transaction leaves half of its writes behind when it fails, for the owner of the transaction
  to undo: \<open>settled s r\<close> says that the run began outside a transaction or succeeded.
\<close>

section \<open>Successful runs\<close>

lemma rejectInTx_InrE:
  assumes "rejectInTx X dr tx code w cid s = (Inr res, t)"
  obtains tx' ev where "MarkRejected code (dr_mark_now dr) tx = Inr tx'"
    "newWagerTransactionRejectedEvent X (dr_event dr) tx' cid = Inr ev"
    "wager_violation (s_db s) (wager_row_of X tx') = None"
    "s_db t = put_outbox [ev] (put_wager (wager_row_of X tx') (s_db s))" "s_tx t = s_tx s"
    "res = \<lparr>sr_Transaction = tx', sr_Balance = w_balance w, sr_IdempotentReplay = False\<rparr>"
  using assms unfolding rejectInTx_def
  by (elim bindE_InrE) (auto elim!: Wager_Save_InrE SaveAll_InrE simp del: SaveAll.simps)

text \<open>The effect of a booked movement.\<close>

definition move_wallet :: "direction \<Rightarrow> wallet \<Rightarrow> money \<Rightarrow> error + wallet" where
  "move_wallet dir w a = (if dir = DirectionDebit then Wallet_Debit w a else Wallet_Credit w a)"

lemma move_wallet_Inr:
  assumes "move_wallet dir w a = Inr w'" "dir = DirectionDebit \<or> dir = DirectionCredit"
  shows "moved w dir a w'"
  using assms Wallet_Debit_Inr Wallet_Credit_Inr by (auto simp: move_wallet_def split: if_splits)

lemma moveInTx_InrE:
  assumes "moveInTx X dr tx dir w cid s = (Inr res, t)"
  obtains (rejected) "move_wallet dir w (tx_amount tx) = Inl (WalletE ErrInsufficientBalance)"
      "rejectInTx X dr tx (if tx_kind tx \<noteq> KindBet then FailureCodeReversalExceedsBalance
         else FailureCodeInsufficientBalance) w cid s = (Inr res, t)"
    | (moved) w' entry tx' ev1 ev2 where "move_wallet dir w (tx_amount tx) = Inr w'"
      "NewLedgerEntry (dr_entry_id dr) (dr_entry_now dr)
            \<lparr>nle_WalletID = w_id w', nle_TransactionID = tx_id tx, nle_Direction = dir,
             nle_Amount = tx_amount tx, nle_BalanceBefore = w_balance w, nle_BalanceAfter = w_balance w'\<rparr> = Inr entry"
      "MarkProcessed (dr_mark_now dr) tx = Inr tx'"
      "newWagerTransactionProcessedEvent X (dr_event dr) tx' cid = Inr ev1"
      "newWalletBalanceChangedEvent X (dr_event2 dr) w' entry cid (Some (x_uuid X (oe_id ev1))) = Inr ev2"
      "wager_violation (s_db s) (wager_row_of X tx') = None"
      "s_db t = put_outbox [ev1, ev2] (booked (wager_row_of X tx') (wallet_row_of w') (ledger_row_of entry) (s_db s))"
      "s_tx t = s_tx s"
      "res = \<lparr>sr_Transaction = tx', sr_Balance = w_balance w', sr_IdempotentReplay = False\<rparr>"
proof (cases "move_wallet dir w (tx_amount tx)")
  case (Inl e)
  with assms rejected show thesis
    by (auto simp: moveInTx_def Let_def move_wallet_def split: if_splits)
next
  case (Inr w')
  with assms show thesis
    unfolding moveInTx_def Let_def move_wallet_def [symmetric]
    by (auto elim!: bindE_InrE Wager_Save_InrE Wallet_Save_InrE SaveLedgerEntry_InrE SaveAll_InrE
        intro!: moved [of w'] simp: booked_def simp del: SaveAll.simps)
qed

lemma processInTx_InrE:
  assumes "processInTx X dr tx referenced dir cid s = (Inr res, t)"
  obtains (duplicate) w ref s1 where "referenced = Some ref"
      "lookup_by wl_id (tx_walletID tx) (db_wallets (s_db s)) = Some w"
      "\<exists>r\<in>set (db_wagers (s_db s)). is_reversal_row (tx_id ref) r"
      "s_db s1 = s_db s" "s_tx s1 = s_tx s"
      "rejectInTx X dr tx FailureCodeDuplicateReversal (wallet_of w) cid s1 = (Inr res, t)"
    | (move) w s1 where "lookup_by wl_id (tx_walletID tx) (db_wallets (s_db s)) = Some w"
      "tx_kind tx = KindRefund \<or> tx_kind tx = KindRollback \<Longrightarrow>
         \<exists>ref. referenced = Some ref \<and> (\<forall>r\<in>set (db_wagers (s_db s)). \<not> is_reversal_row (tx_id ref) r)"
      "s_db s1 = s_db s" "s_tx s1 = s_tx s"
      "moveInTx X dr tx dir (wallet_of w) cid s1 = (Inr res, t)"
proof -
  let ?rev = "tx_kind tx = KindRefund \<or> tx_kind tx = KindRollback"
  let ?ask = "\<lambda>v ref. onResult (FindReversal X (tx_id ref)) (\<lambda>r.
     case r of
       Inl e \<Rightarrow> if e \<noteq> AppE ErrWagerTransactionNotFound then fail e else moveInTx X dr tx dir v cid
     | Inr duplicate \<Rightarrow> rejectInTx X dr tx FailureCodeDuplicateReversal v cid)"
  from assms obtain v s0 where v: "Wallet_FindByID X (tx_walletID tx) s = (Inr v, s0)"
    and run: "(if ?rev then (case referenced of None \<Rightarrow> fail (ExternalE ''nil pointer dereference'') | Some ref \<Rightarrow> ?ask v ref)
     else moveInTx X dr tx dir v cid) s0 = (Inr res, t)"
    unfolding processInTx_def by (rule bindE_InrE)
  from v obtain w where w: "lookup_by wl_id (tx_walletID tx) (db_wallets (s_db s)) = Some w"
    "v = wallet_of w" "s_db s0 = s_db s" "s_tx s0 = s_tx s"
    by (rule Wallet_FindByID_InrE)
  show thesis
  proof (cases ?rev)
    case False
    with run w show thesis by (intro move [of w s0]) simp_all
  next
    case True
    with run obtain ref where ref: "referenced = Some ref" by (cases referenced) auto
    with run True have ask: "?ask v ref s0 = (Inr res, t)" by simp
    then obtain q s1 where q: "FindReversal X (tx_id ref) s0 = (q, s1)"
      and rest: "(case q of
       Inl e \<Rightarrow> if e \<noteq> AppE ErrWagerTransactionNotFound then fail e else moveInTx X dr tx dir v cid
     | Inr duplicate \<Rightarrow> rejectInTx X dr tx FailureCodeDuplicateReversal v cid) s1 = (Inr res, t)"
      by (rule onResultE)
    show thesis
    proof (cases q)
      case (Inr dup)
      from q [unfolded Inr] obtain r where "r \<in> set (db_wagers (s_db s0))" "is_reversal_row (tx_id ref) r"
        "s_db s1 = s_db s0" "s_tx s1 = s_tx s0"
        by (rule FindReversal_InrE)
      with rest Inr w ref show thesis by (intro duplicate [of ref w s1]) auto
    next
      case (Inl e)
      with rest have e: "e = AppE ErrWagerTransactionNotFound" by (auto split: if_splits)
      with rest Inl w ref FindReversal_not_found [OF q [unfolded Inl e]] show thesis
        by (intro move [of w s1]) auto
    qed
  qed
qed

section \<open>Transactions that may be written\<close>

lemma writable_core:
  assumes "tx_core a = tx_core b"
  shows "writable d (wager_row_of X a) = writable d (wager_row_of X b)"
  using tx_core_eqD(1) [OF assms] assms
  by (simp add: writable_def same_content_def split: option.splits) (simp add: wager_row_of_def)

lemma writable_new: "lookup_by wr_id (tx_id tx) (db_wagers d) = None \<Longrightarrow> writable d (wager_row_of X tx)"
  by (simp add: writable_def wager_row_of_def)

text \<open>What is known of the transaction a reversal refers to: it is a processed one that matches,
  and it stays so.\<close>

definition refers :: "db \<Rightarrow> transaction \<Rightarrow> transaction option \<Rightarrow> bool" where
  "refers d tx referenced \<longleftrightarrow>
     (if tx_kind tx = KindRefund \<or> tx_kind tx = KindRollback
      then (\<exists>ref. referenced = Some ref \<and> tx_referenceTransactionID tx = Some (tx_id ref) \<and>
        (\<exists>r\<in>processed d. wr_id r = tx_id ref \<and> wr_kind r = tx_kind ref \<and> reference_ok tx (tx_of r)))
      else referenced = None)"

lemma refers_reversalE:
  assumes "refers d tx referenced" "tx_kind tx = KindRefund \<or> tx_kind tx = KindRollback"
  obtains ref r where "referenced = Some ref" "tx_referenceTransactionID tx = Some (tx_id ref)"
    "r \<in> processed d" "wr_id r = tx_id ref" "wr_kind r = tx_kind ref" "reference_ok tx (tx_of r)"
  using assms unfolding refers_def by metis

lemma refers_core:
  assumes "tx_core a = tx_core b" and "tx_referenceTransactionID a = tx_referenceTransactionID b"
  shows "refers d a ref = refers d b ref"
  using assms(2) reference_ok_core [OF assms(1)] by (simp add: refers_def tx_core_eqD [OF assms(1)])

lemma row_of_simps [simp]:
  "wr_id (wager_row_of X tx) = tx_id tx" "wr_status (wager_row_of X tx) = tx_status tx"
  "wr_kind (wager_row_of X tx) = tx_kind tx" "wr_wallet_id (wager_row_of X tx) = tx_walletID tx"
  "wr_amount (wager_row_of X tx) = m_amount (tx_amount tx)"
  "wr_currency (wager_row_of X tx) = m_currency (tx_amount tx)"
  "wr_reference_transaction_id (wager_row_of X tx) = tx_referenceTransactionID tx"
  "wl_id (wallet_row_of w) = w_id w" "wl_balance (wallet_row_of w) = m_amount (w_balance w)"
  "w_id (wallet_of r) = wl_id r" "m_amount (w_balance (wallet_of r)) = wl_balance r"
  "m_currency (w_balance (wallet_of r)) = wl_currency r"
  by (simp_all add: wager_row_of_def wallet_row_of_def wallet_of_def)

lemma movementDirection_movement:
  assumes "movementDirection (tx_kind tx) referenced = Inr dir" and "refers d tx referenced"
    and "distinct (map wr_id (db_wagers d))"
  shows "movement (tx_kind tx) (Option.bind (tx_referenceTransactionID tx) (kind_at d)) = Some dir"
    and "dir = DirectionDebit \<or> dir = DirectionCredit"
proof -
  have k: "kind_at d (wr_id r) = Some (wr_kind r)" if "r \<in> processed d" for r
    using that kind_at_row [OF assms(3)] by (simp add: processed_def)
  show "movement (tx_kind tx) (Option.bind (tx_referenceTransactionID tx) (kind_at d)) = Some dir"
  proof (cases "tx_kind tx = KindRefund \<or> tx_kind tx = KindRollback")
    case True
    from assms(2) this obtain ref r where r: "referenced = Some ref"
      "tx_referenceTransactionID tx = Some (tx_id ref)" "r \<in> processed d" "wr_id r = tx_id ref"
      "wr_kind r = tx_kind ref" "reference_ok tx (tx_of r)"
      by (rule refers_reversalE)
    with k [OF r(3)] have "kind_at d (tx_id ref) = Some (tx_kind ref)" by simp
    with assms(1) r True show ?thesis
      by (auto simp: movementDirection_def split: kind.splits)
  next
    case False
    with assms(1) show ?thesis by (auto simp: movementDirection_def split: kind.splits)
  qed
  from assms(1) show "dir = DirectionDebit \<or> dir = DirectionCredit"
    by (auto simp: movementDirection_def split: kind.splits option.splits)
qed

section \<open>The books are kept\<close>

lemma rejectInTx_books:
  assumes "rejectInTx X dr tx code w cid s = (Inr res, t)" and "books (s_db s)"
    and "writable (s_db s) (wager_row_of X tx)"
  shows "books (s_db t)"
  using assms(1)
proof (rule rejectInTx_InrE)
  fix tx' ev
  assume m: "MarkRejected code (dr_mark_now dr) tx = Inr tx'"
    and t: "s_db t = put_outbox [ev] (put_wager (wager_row_of X tx') (s_db s))"
  have "books (put_wager (wager_row_of X tx') (s_db s))"
    using assms(2,3) writable_core [OF rejected.mark_core [OF m]] rejected.mark_target [OF m]
    by (intro books_put_wager) simp_all
  then show ?thesis unfolding t by (simp only: books_put_outbox)
qed

lemma moveInTx_books:
  assumes run: "moveInTx X dr tx dir (wallet_of w) cid s = (Inr res, t)" and b: "books (s_db s)"
    and wr: "writable (s_db s) (wager_row_of X tx)"
    and w: "lookup_by wl_id (tx_walletID tx) (db_wallets (s_db s)) = Some w"
    and dir: "movementDirection (tx_kind tx) referenced = Inr dir" and ref: "refers (s_db s) tx referenced"
    and rev: "tx_kind tx = KindRefund \<or> tx_kind tx = KindRollback \<Longrightarrow>
         \<exists>ref. referenced = Some ref \<and> (\<forall>r\<in>set (db_wagers (s_db s)). \<not> is_reversal_row (tx_id ref) r)"
  shows "books (s_db t)"
  using run
proof (rule moveInTx_InrE)
  assume "rejectInTx X dr tx (if tx_kind tx \<noteq> KindBet then FailureCodeReversalExceedsBalance
         else FailureCodeInsufficientBalance) (wallet_of w) cid s = (Inr res, t)"
  with b wr show ?thesis by (rule rejectInTx_books [rotated 1])
next
  fix w' entry tx' ev1 ev2
  assume mv: "move_wallet dir (wallet_of w) (tx_amount tx) = Inr w'"
    and en: "NewLedgerEntry (dr_entry_id dr) (dr_entry_now dr)
            \<lparr>nle_WalletID = w_id w', nle_TransactionID = tx_id tx, nle_Direction = dir,
             nle_Amount = tx_amount tx, nle_BalanceBefore = w_balance (wallet_of w),
             nle_BalanceAfter = w_balance w'\<rparr> = Inr entry"
    and mk: "MarkProcessed (dr_mark_now dr) tx = Inr tx'"
    and t: "s_db t = put_outbox [ev1, ev2] (booked (wager_row_of X tx') (wallet_row_of w') (ledger_row_of entry) (s_db s))"
  note core = processed.mark_core [OF mk] and st = processed.mark_target [OF mk]
    and rid = processed.mark_ref [OF mk]
  note M = movedD [OF move_wallet_Inr [OF mv movementDirection_movement(2) [OF dir ref booksD(2) [OF b]]]]
  note E = NewLedgerEntry_Inr [OF en]
  have wid: "wl_id w = tx_walletID tx" "w \<in> set (db_wallets (s_db s))" using lookup_by_SomeD [OF w] by simp_all
  have nn: "0 \<le> sint (wl_balance w)" by (rule books_balance_nonneg [OF b wid(2)])
  have refs: "\<exists>r\<in>processed (s_db s). reverses (wager_row_of X tx') r"
    if "is_reversal (wager_row_of X tx')"
  proof -
    have "tx_kind tx = KindRefund \<or> tx_kind tx = KindRollback"
      using that by (simp add: is_reversal_def tx_core_eqD [OF core])
    from ref this obtain rf r where "referenced = Some rf" "tx_referenceTransactionID tx = Some (tx_id rf)"
      "r \<in> processed (s_db s)" "wr_id r = tx_id rf" "wr_kind r = tx_kind rf" "reference_ok tx (tx_of r)"
      by (rule refers_reversalE)
    then show ?thesis
      using reference_ok_core [OF core] by (intro bexI [of _ r]) (simp_all add: reverses_def rid)
  qed
  have dup: "\<not> is_reversal_row rf r" if "is_reversal (wager_row_of X tx')"
    "wr_reference_transaction_id (wager_row_of X tx') = Some rf" "r \<in> set (db_wagers (s_db s))" for rf r
    using rev ref that by (auto simp: refers_def is_reversal_def rid tx_core_eqD [OF core])
  have "books (booked (wager_row_of X tx') (wallet_row_of w') (ledger_row_of entry) (s_db s))"
  proof (rule books_booked [OF b bookableI [where w = w]])
    show "writable (s_db s) (wager_row_of X tx')" using wr writable_core [OF core] by simp
    show "movement (wr_kind (wager_row_of X tx')) (Option.bind (wr_reference_transaction_id (wager_row_of X tx')) (kind_at (s_db s)))
        = Some (lr_direction (ledger_row_of entry))"
      using movementDirection_movement(1) [OF dir ref booksD(2) [OF b]] E(2)
      by (simp add: rid tx_core_eqD [OF core] ledger_row_of_def)
    show "sint (lr_balance_after (ledger_row_of entry)) =
        sint (lr_balance_before (ledger_row_of entry)) + signed_row (ledger_row_of entry)"
      using E(1) by (cases "le_direction entry") (auto simp: entry_ok_def ledger_row_of_def signed_row_def)
  qed (use E M st w wid refs dup in \<open>auto simp: tx_core_eqD [OF core] ledger_row_of_def entry_ok_def\<close>)
  then show ?thesis unfolding t by (simp only: books_put_outbox)
qed

lemma processInTx_books:
  assumes run: "processInTx X dr tx referenced dir cid s = (Inr res, t)" and b: "books (s_db s)"
    and wr: "writable (s_db s) (wager_row_of X tx)"
    and dir: "movementDirection (tx_kind tx) referenced = Inr dir" and ref: "refers (s_db s) tx referenced"
  shows "books (s_db t)"
  using run
proof (rule processInTx_InrE)
  fix w rf s1
  assume "s_db s1 = s_db s" "rejectInTx X dr tx FailureCodeDuplicateReversal (wallet_of w) cid s1 = (Inr res, t)"
  with b wr show ?thesis using rejectInTx_books by metis
next
  fix w s1
  assume "lookup_by wl_id (tx_walletID tx) (db_wallets (s_db s)) = Some w" "s_db s1 = s_db s"
    "tx_kind tx = KindRefund \<or> tx_kind tx = KindRollback \<Longrightarrow>
         \<exists>ref. referenced = Some ref \<and> (\<forall>r\<in>set (db_wagers (s_db s)). \<not> is_reversal_row (tx_id ref) r)"
    "moveInTx X dr tx dir (wallet_of w) cid s1 = (Inr res, t)"
  with b wr dir ref show ?thesis
    using moveInTx_books [where s = s1 and w = w and referenced = referenced] by simp
qed

section \<open>Every run\<close>

lemma save_with_event_db:
  assumes "WithinTx (bindE (Wager_Save X tx) (\<lambda>_. SaveAll [ev])) s = (r, t)" "settled s r"
  shows "s_db t = s_db s \<or> s_db t = put_outbox [ev] (put_wager (wager_row_of X tx) (s_db s))"
  using assms
proof (rule WithinTx_settled)
  fix s2 x t2
  assume "s_db s2 = s_db s" "bindE (Wager_Save X tx) (\<lambda>_. SaveAll [ev]) s2 = (Inr x, t2)" "s_db t = s_db t2"
  then show ?thesis
    by (auto elim!: bindE_InrE Wager_Save_InrE SaveAll_InrE simp del: SaveAll.simps)
qed simp

lemma save_with_event_books:
  assumes "s_db t = s_db s \<or> s_db t = put_outbox [ev] (put_wager (wager_row_of X tx) (s_db s))"
    and "books (s_db s)" "writable (s_db s) (wager_row_of X tx)"
    and "tx_status tx = TxStatusProcessed \<Longrightarrow> tx_kind tx = KindLoss \<and>
      (\<exists>w\<in>set (db_wallets (s_db s)). wl_id w = tx_walletID tx \<and> wl_currency w = m_currency (tx_amount tx))"
  shows "books (s_db t)"
proof -
  have "books (put_wager (wager_row_of X tx) (s_db s))"
    using assms(2-4) by (intro books_put_wager) simp_all
  then have "books (put_outbox [ev] (put_wager (wager_row_of X tx) (s_db s)))"
    by (simp only: books_put_outbox)
  with assms(1,2) show ?thesis by metis
qed

lemma saveWithEvent_db:
  assumes "saveWithEvent X tx ev s = (r, t)" "settled s r"
  shows "s_db t = s_db s \<or> s_db t = put_outbox [ev] (put_wager (wager_row_of X tx) (s_db s))"
proof -
  obtain q s1 where q: "WithinTx (bindE (Wager_Save X tx) (\<lambda>_. SaveAll [ev])) s = (q, s1)" by fastforce
  have t: "s_db t = s_db s1"
    using assms(1) q Wallet_FindByID_db
    by (auto simp: saveWithEvent_def bindE_def split: sum.splits prod.splits)
  have "settled s q"
    using assms q by (cases q) (auto simp: saveWithEvent_def bindE_def)
  with save_with_event_db [OF q] t show ?thesis by simp
qed

lemma saveWithEvent_books:
  assumes "saveWithEvent X tx ev s = (r, t)" "settled s r" "books (s_db s)"
    and "writable (s_db s) (wager_row_of X tx)"
    and "tx_status tx = TxStatusProcessed \<Longrightarrow> tx_kind tx = KindLoss \<and>
      (\<exists>w\<in>set (db_wallets (s_db s)). wl_id w = tx_walletID tx \<and> wl_currency w = m_currency (tx_amount tx))"
  shows "books (s_db t)"
  using assms(3-5) by (rule save_with_event_books [OF saveWithEvent_db [OF assms(1,2)]])

lemma reject_books:
  assumes run: "reject X dr tx code cid s = (r, t)" "settled s r" and b: "books (s_db s)"
    and wr: "writable (s_db s) (wager_row_of X tx)"
  shows "books (s_db t)"
proof (cases "\<exists>tx' ev. MarkRejected code (dr_mark_now dr) tx = Inr tx' \<and>
    newWagerTransactionRejectedEvent X (dr_event dr) tx' cid = Inr ev")
  case True
  then obtain tx' ev where m: "MarkRejected code (dr_mark_now dr) tx = Inr tx'"
    and e: "newWagerTransactionRejectedEvent X (dr_event dr) tx' cid = Inr ev" by blast
  with run have "saveWithEvent X tx' ev s = (r, t)" by (simp add: reject_def bindE_def)
  then show ?thesis
    by (rule saveWithEvent_books [OF _ run(2) b])
      (use wr writable_core [OF rejected.mark_core [OF m]] rejected.mark_target [OF m] in simp_all)
next
  case False
  with run(1) b show ?thesis
    by (auto simp: reject_def bindE_def split: sum.splits)
qed

lemma parkPendingReference_books:
  assumes run: "parkPendingReference X dr tx cid s = (r, t)" "settled s r" and b: "books (s_db s)"
    and wr: "writable (s_db s) (wager_row_of X tx)"
  shows "books (s_db t)"
proof (cases "MarkPendingReference (dr_mark_now dr) tx")
  case (Inl e)
  with run(1) b show ?thesis by (auto simp: parkPendingReference_def bindE_def)
next
  case m: (Inr tx')
  show ?thesis
  proof (cases "tx_status tx = TxStatusPendingReference")
    case True
    with run(1) m b show ?thesis
      by (auto simp: parkPendingReference_def bindE_def split: prod.splits sum.splits dest!: Wallet_FindByID_db)
  next
    case False
    show ?thesis
    proof (cases "newWagerTransactionPendingReferenceEvent X (dr_event dr) tx' cid")
      case (Inl e)
      with run(1) m b False show ?thesis by (auto simp: parkPendingReference_def bindE_def)
    next
      case (Inr ev)
      with run(1) m False have "saveWithEvent X tx' ev s = (r, t)"
        by (simp add: parkPendingReference_def bindE_def)
      then show ?thesis
        by (rule saveWithEvent_books [OF _ run(2) b])
          (use wr writable_core [OF parked.mark_core [OF m]] parked.mark_target [OF m] in simp_all)
    qed
  qed
qed

lemma finishWithoutMovement_books:
  assumes run: "finishWithoutMovement X dr tx cid s = (r, t)" "settled s r" and b: "books (s_db s)"
    and wr: "writable (s_db s) (wager_row_of X tx)" and k: "tx_kind tx = KindLoss"
  shows "books (s_db t)"
proof -
  obtain q s1 where q: "Wallet_FindByID X (tx_walletID tx) s = (q, s1)" by fastforce
  have s1: "s_db s1 = s_db s" using q by (rule Wallet_FindByID_db)
  show ?thesis
  proof (cases "\<exists>w tx' ev. q = Inr w \<and> m_currency (tx_amount tx) = m_currency (w_balance w) \<and>
      MarkProcessed (dr_mark_now dr) tx = Inr tx' \<and>
      newWagerTransactionProcessedEvent X (dr_event dr) tx' cid = Inr ev")
    case True
    then obtain w tx' ev where w: "q = Inr w" "m_currency (tx_amount tx) = m_currency (w_balance w)"
      and m: "MarkProcessed (dr_mark_now dr) tx = Inr tx'"
      and e: "newWagerTransactionProcessedEvent X (dr_event dr) tx' cid = Inr ev" by blast
    from q [unfolded w(1)] obtain row where row: "lookup_by wl_id (tx_walletID tx) (db_wallets (s_db s)) = Some row"
      "w = wallet_of row" "s_tx s1 = s_tx s"
      by (rule Wallet_FindByID_InrE)
    from run q w m e have "saveWithEvent X tx' ev s1 = (r, t)"
      by (simp add: finishWithoutMovement_def bindE_def)
    moreover have "settled s1 r" using run(2) row(3) by (simp add: settled_def)
    moreover note core = tx_core_eqD [OF processed.mark_core [OF m]]
    ultimately show ?thesis
      using saveWithEvent_books [of X tx' ev s1 r t] s1 b wr k w(2) row(2) lookup_by_SomeD [OF row(1)]
        writable_core [OF processed.mark_core [OF m]] by (auto simp: core)
  next
    case False
    with run(1) q s1 b show ?thesis
      by (auto simp: finishWithoutMovement_def bindE_def split: sum.splits if_splits)
  qed
qed

lemma processMovement_books:
  assumes run: "processMovement X dr tx referenced cid s = (r, t)" "settled s r" and b: "books (s_db s)"
    and wr: "writable (s_db s) (wager_row_of X tx)" and ref: "refers (s_db s) tx referenced"
  shows "books (s_db t)"
proof (cases "tx_kind tx = KindLoss")
  case True
  with run finishWithoutMovement_books [OF _ run(2) b wr True] show ?thesis by (simp add: processMovement_def)
next
  case False
  show ?thesis
  proof (cases "movementDirection (tx_kind tx) referenced")
    case (Inl e)
    with run(1) b False show ?thesis by (auto simp: processMovement_def bindE_def)
  next
    case (Inr dir)
    with run(1) False have "WithinTx (processInTx X dr tx referenced dir cid) s = (r, t)"
      by (simp add: processMovement_def bindE_def)
    then show ?thesis
    proof (rule WithinTx_settled [OF _ run(2)])
      fix s1 x t1
      assume s1: "s_db s1 = s_db s" "processInTx X dr tx referenced dir cid s1 = (Inr x, t1)" "s_db t = s_db t1"
      with processInTx_books [OF s1(2) _ _ Inr] b wr ref show ?thesis by simp
    qed (use b in simp)
  qed
qed

lemma processReferenced_books:
  assumes run: "processReferenced X dr tx cid q s = (r, t)" "settled s r" and b: "books (s_db s)"
    and wr: "writable (s_db s) (wager_row_of X tx)"
    and k: "tx_kind tx = KindRefund \<or> tx_kind tx = KindRollback"
    and q: "\<And>ref. q = Inr ref \<Longrightarrow> \<exists>row\<in>set (db_wagers (s_db s)). ref = tx_of row"
  shows "books (s_db t)"
proof (cases q)
  case (Inl e)
  with run b wr parkPendingReference_books [OF _ run(2) b wr] show ?thesis
    by (auto simp: processReferenced_def split: if_splits)
next
  case (Inr ref)
  show ?thesis
  proof (cases "ValidateReference tx ref")
    case (Inl e)
    with Inr run have "reject X dr tx FailureCodeInvalidReference cid s = (r, t)"
      by (simp add: processReferenced_def)
    then show ?thesis by (rule reject_books [OF _ run(2) b wr])
  next
    case v: (Inr u)
    then have ok: "reference_ok tx ref" using ValidateReference_eq [of tx ref] by simp
    from q [OF Inr] obtain row where row: "row \<in> set (db_wagers (s_db s))" "ref = tx_of row" by blast
    with ok have p: "row \<in> processed (s_db s)" by (simp add: processed_def reference_ok_def tx_of_def)
    show ?thesis
    proof (cases "ResolveReference (dr_resolve_now dr) (tx_id ref) tx")
      case (Inl e)
      with Inr v run(1) b show ?thesis by (auto simp: processReferenced_def bindE_def)
    next
      case m: (Inr tx')
      note R = ResolveReference_Inr [OF m]
      have "processMovement X dr tx' (Some ref) cid s = (r, t)"
        using run Inr v m by (simp add: processReferenced_def bindE_def)
      moreover have "refers (s_db s) tx' (Some ref)"
        using k R ok row(2) p reference_ok_core [of tx' tx] tx_core_eqD(8) [of tx' tx]
        by (auto simp: refers_def tx_of_def intro!: bexI [of _ row])
      moreover have "writable (s_db s) (wager_row_of X tx')" using wr R writable_core by blast
      ultimately show ?thesis using processMovement_books [OF _ run(2) b] by blast
    qed
  qed
qed

lemma process_tx_books:
  assumes run: "process_tx X dr tx cid s = (r, t)" "settled s r" and b: "books (s_db s)"
    and wr: "writable (s_db s) (wager_row_of X tx)"
  shows "books (s_db t)"
proof (cases "tx_kind tx = KindRefund \<or> tx_kind tx = KindRollback")
  case False
  then have "refers (s_db s) tx None" by (simp add: refers_def)
  with run False show ?thesis
    using processMovement_books [OF _ run(2) b wr] by (simp add: process_tx_def)
next
  case k: True
  show ?thesis
  proof (cases "tx_referenceExternalTransactionID tx")
    case None
    with k run(1) b show ?thesis by (auto simp: process_tx_def)
  next
    case (Some refExt)
    obtain q s1 where q: "FindByProviderAndExternalID X (tx_providerID tx) refExt s = (q, s1)" by fastforce
    have s1: "s_db s1 = s_db s" using q by (rule find_wager_db)
    have run1: "processReferenced X dr tx cid q s1 = (r, t)"
      using run(1) k Some q by (simp add: process_tx_def onResult_def)
    have "s_tx s = NoTx \<Longrightarrow> s_tx s1 = NoTx" using q by (rule find_wager_tx)
    then have set1: "settled s1 r" using run(2) by (auto simp: settled_def)
    show ?thesis
    proof (rule processReferenced_books [OF run1 set1 _ _ k])
      fix ref assume "q = Inr ref"
      with q show "\<exists>row\<in>set (db_wagers (s_db s1)). ref = tx_of row"
        unfolding s1 by (auto elim!: find_wager_InrE)
    qed (use s1 b wr in simp_all)
  qed
qed

section \<open>Replays and the whole submission\<close>

lemma balanceAtProcessing_db: "balanceAtProcessing X tx s = (r, t) \<Longrightarrow> s_db t = s_db s"
  by (auto simp: balanceAtProcessing_def onResult_def bindE_def split: prod.splits sum.splits if_splits
      dest!: find_entry_db Wallet_FindByID_db)

lemma replay_db: "replay X a b s = (r, t) \<Longrightarrow> s_db t = s_db s"
  by (auto simp: replay_def bindE_def split: prod.splits sum.splits if_splits dest!: balanceAtProcessing_db)

text \<open>The four ways through \<open>Submit\<close>.\<close>

lemma Submit_cases:
  assumes "Submit X dr i s = (r, t)"
  obtains (refused) e where "NewTransaction (dr_tx_id dr) (dr_tx_now dr) (candidate_input i) = Inl e" "r = Inl e" "t = s"
    | (lookup_failed) c e where "NewTransaction (dr_tx_id dr) (dr_tx_now dr) (candidate_input i) = Inr c"
        "FindByProviderAndExternalID X (si_ProviderID i) (si_ExternalTransactionID i) s = (Inl e, t)"
        "e \<noteq> AppE ErrWagerTransactionNotFound" "r = Inl e"
    | (replayed) c ex s1 where "NewTransaction (dr_tx_id dr) (dr_tx_now dr) (candidate_input i) = Inr c"
        "FindByProviderAndExternalID X (si_ProviderID i) (si_ExternalTransactionID i) s = (Inr ex, s1)"
        "replay X ex c s1 = (r, t)"
    | (processed) c s1 where "NewTransaction (dr_tx_id dr) (dr_tx_now dr) (candidate_input i) = Inr c"
        "FindByProviderAndExternalID X (si_ProviderID i) (si_ExternalTransactionID i) s
           = (Inl (AppE ErrWagerTransactionNotFound), s1)"
        "process_tx X dr c (si_CorrelationID i) s1 = (r, t)" "r \<noteq> Inl (AppE ErrWagerTransactionAlreadyExists)"
    | (raced) c s1 s2 where "NewTransaction (dr_tx_id dr) (dr_tx_now dr) (candidate_input i) = Inr c"
        "FindByProviderAndExternalID X (si_ProviderID i) (si_ExternalTransactionID i) s
           = (Inl (AppE ErrWagerTransactionNotFound), s1)"
        "process_tx X dr c (si_CorrelationID i) s1 = (Inl (AppE ErrWagerTransactionAlreadyExists), s2)"
        "s_db t = s_db s2"
proof (cases "NewTransaction (dr_tx_id dr) (dr_tx_now dr) (candidate_input i)")
  case (Inl e)
  with assms refused show thesis by (simp add: Submit_def bindE_def)
next
  case c: (Inr c)
  obtain q s1 where q: "FindByProviderAndExternalID X (si_ProviderID i) (si_ExternalTransactionID i) s = (q, s1)"
    by fastforce
  show thesis
  proof (cases q)
    case (Inr ex)
    with assms c q show thesis by (intro replayed [of c ex s1]) (simp_all add: Submit_def bindE_def onResult_def)
  next
    case e: (Inl e)
    show thesis
    proof (cases "e = AppE ErrWagerTransactionNotFound")
      case False
      with assms c q e show thesis
        by (intro lookup_failed [of c e]) (auto simp: Submit_def bindE_def onResult_def)
    next
      case nf: True
      obtain p s2 where p: "process_tx X dr c (si_CorrelationID i) s1 = (p, s2)" by fastforce
      show thesis
      proof (cases "p = Inl (AppE ErrWagerTransactionAlreadyExists)")
        case True
        with assms c q e nf p show thesis
          by (intro raced [of c s1 s2])
            (auto simp: Submit_def bindE_def onResult_def split: prod.splits sum.splits
              dest!: find_wager_db replay_db)
      next
        case False
        with assms c q e nf p show thesis
          by (intro processed [of c s1])
            (auto simp: Submit_def bindE_def onResult_def split: prod.splits sum.splits)
      qed
    qed
  qed
qed

text \<open>A submission keeps the books, whatever it is given and however it ends: with a
  result, with an error at any point, or with a commit whose reply is lost.\<close>

lemma Submit_keeps_books:
  assumes "books (s_db s)" and "s_tx s = NoTx"
    and "lookup_by wr_id (dr_tx_id dr) (db_wagers (s_db s)) = None"
    and "Submit X dr i s = (r, t)"
  shows "books (s_db t)"
  using assms(4)
proof (cases rule: Submit_cases)
  case (processed c s1)
  have "tx_id c = dr_tx_id dr" using NewTransaction_Inr(1) [OF processed(1)] by simp
  moreover note find_wager_not_found [OF processed(2)]
  ultimately show ?thesis
    using process_tx_books [OF processed(3)] assms(1-3) by (simp add: writable_new settled_def)
next
  case (raced c s1 s2)
  have "tx_id c = dr_tx_id dr" using NewTransaction_Inr(1) [OF raced(1)] by simp
  moreover note find_wager_not_found [OF raced(2)]
  ultimately show ?thesis
    using process_tx_books [OF raced(3)] assms(1-3) raced(4) by (simp add: writable_new)
qed (use assms(1) in \<open>auto dest!: find_wager_db replay_db\<close>)

text \<open>A bet of 20.00 BRL on the sample wallet.\<close>

definition sample_draw :: event_draw where
  "sample_draw = \<lparr>ed_id = 30, ed_occurredAt = 9, ed_now = 9\<rparr>"

definition sample_draws :: draws where
  "sample_draws = \<lparr>dr_tx_id = 20, dr_tx_now = 9, dr_resolve_now = 9, dr_mark_now = 9, dr_entry_id = 21,
     dr_entry_now = 9, dr_event = sample_draw, dr_event2 = sample_draw\<lparr>ed_id := 31\<rparr>\<rparr>"

definition sample_input :: "kind \<Rightarrow> string \<Rightarrow> i64 \<Rightarrow> string option \<Rightarrow> submit_input" where
  "sample_input k ext a ref = \<lparr>si_ProviderID = ''provider-a'', si_ExternalTransactionID = ext, si_PlayerID = 2,
     si_WalletID = 3, si_RoundID = ''round-1'', si_GameID = ''game-1'', si_Kind = k,
     si_Amount = \<lparr>m_currency = ''BRL'', m_amount = a\<rparr>, si_ReferenceExternalTransactionID = ref,
     si_CorrelationID = ''c''\<rparr>"

lemma Submit_keeps_books_sample:
  "books (s_db (snd (Submit sample_external sample_draws (sample_input KindRefund ''refund-1'' 3000 (Some ''bet-1''))
     (calm NoTx bet_db))))"
proof -
  obtain r t where rt: "Submit sample_external sample_draws
      (sample_input KindRefund ''refund-1'' 3000 (Some ''bet-1'')) (calm NoTx bet_db) = (r, t)"
    by fastforce
  from Submit_keeps_books [OF _ _ _ rt] books_bet show ?thesis
    unfolding rt by (simp add: bet_db_eq sample_draws_def sample_opening_def wager_row_of_def sample_bet_def)
qed

end
