(* ===== verification/WalletOps.thy ===== *)
theory WalletOps
  imports Settlement
begin

text \<open>
  The wallet use cases of \<open>internal/app\<close>: \<open>WalletCreator\<close>, \<open>WalletGetter\<close>, \<open>WalletLedgerLister\<close>
  and \<open>WalletReconciler\<close>, and \<open>WagerTransactionGetter\<close>. The lemmas show that opening a wallet
  keeps the books, and that reconciling a wallet of balanced books always returns and always
  finds the stored balance.
\<close>

section \<open>Opening a wallet\<close>

record create_wallet_input =
  cw_PlayerID :: uuid
  cw_InitialBalance :: money
  cw_CorrelationID :: string

record create_draws =
  cd_wallet_id :: uuid
  cd_wallet_now :: time
  cd_tx_id :: uuid
  cd_tx_now :: time
  cd_entry_id :: uuid
  cd_entry_now :: time
  cd_event :: event_draw
  cd_event2 :: event_draw

definition openWallet :: "external \<Rightarrow> create_draws \<Rightarrow> create_wallet_input \<Rightarrow> wallet \<Rightarrow> (sess, error, wallet) prog" where
  "openWallet X cd input w =
     bindE (liftE (NewOpeningTransaction (cd_tx_id cd) (cd_tx_now cd)
       \<lparr>no_PlayerID = cw_PlayerID input, no_WalletID = w_id w, no_Amount = cw_InitialBalance input\<rparr>)) (\<lambda>tx.
     let zero = Currency_Zero (m_currency (cw_InitialBalance input)) in
     bindE (liftE (NewLedgerEntry (cd_entry_id cd) (cd_entry_now cd)
       \<lparr>nle_WalletID = w_id w, nle_TransactionID = tx_id tx, nle_Direction = DirectionCredit,
        nle_Amount = cw_InitialBalance input, nle_BalanceBefore = zero,
        nle_BalanceAfter = cw_InitialBalance input\<rparr>)) (\<lambda>entry.
     bindE (liftE (newWagerTransactionProcessedEvent X (cd_event cd) tx (cw_CorrelationID input))) (\<lambda>processedEvent.
     bindE (liftE (newWalletBalanceChangedEvent X (cd_event2 cd) w entry (cw_CorrelationID input)
       (Some (x_uuid X (oe_id processedEvent))))) (\<lambda>balanceChangedEvent.
     bindE (WithinTx (
       bindE (Wallet_Save w) (\<lambda>_.
       bindE (Wager_Save X tx) (\<lambda>_.
       bindE (SaveLedgerEntry entry) (\<lambda>_.
       SaveAll [processedEvent, balanceChangedEvent]))))) (\<lambda>_.
     ret w)))))"

definition Create :: "external \<Rightarrow> create_draws \<Rightarrow> create_wallet_input \<Rightarrow> (sess, error, wallet) prog" where
  "Create X cd input =
     onResult (FindByPlayerAndCurrency X (cw_PlayerID input) (m_currency (cw_InitialBalance input))) (\<lambda>r.
     case r of
       Inr existing \<Rightarrow> fail (AppE ErrWalletAlreadyExists)
     | Inl e \<Rightarrow>
         if e \<noteq> AppE ErrWalletNotFound then fail e
         else bindE (liftE (Wallet_New (cd_wallet_id cd) (cd_wallet_now cd) (cw_PlayerID input)
             (cw_InitialBalance input))) (\<lambda>w.
           if Money_IsZero (cw_InitialBalance input)
           then bindE (Wallet_Save w) (\<lambda>_. ret w)
           else openWallet X cd input w))"

section \<open>Reading\<close>

definition WalletGetter_Get :: "external \<Rightarrow> uuid \<Rightarrow> (sess, error, wallet) prog" where
  "WalletGetter_Get X walletID = Wallet_FindByID X walletID"

definition WagerTransactionGetter_Get :: "external \<Rightarrow> uuid \<Rightarrow> (sess, error, transaction) prog" where
  "WagerTransactionGetter_Get X tid = Wager_FindByID X tid"

definition GetByProvider :: "external \<Rightarrow> string \<Rightarrow> string \<Rightarrow> (sess, error, transaction) prog" where
  "GetByProvider X providerID externalTransactionID =
     FindByProviderAndExternalID X providerID externalTransactionID"

definition defaultLedgerListLimit :: i64 where
  "defaultLedgerListLimit = 50"

definition clampLimit :: "i64 \<Rightarrow> i64" where
  "clampLimit limit =
     (if sint limit \<le> 0 \<or> sint defaultLedgerListLimit < sint limit then defaultLedgerListLimit else limit)"

definition List_ledger :: "external \<Rightarrow> uuid \<Rightarrow> uuid option \<Rightarrow> i64 \<Rightarrow> (sess, error, ledger_entry list) prog" where
  "List_ledger X walletID cursor limit = ListLedgerEntries X walletID cursor (clampLimit limit)"

section \<open>Reconciling\<close>

record reconciliation_result =
  rr_WalletID :: uuid
  rr_StoredBalance :: money
  rr_CalculatedBalance :: money
  rr_Difference :: money
  rr_Consistent :: bool
  rr_EntriesChecked :: nat

fun calculated :: "money \<Rightarrow> ledger_entry list \<Rightarrow> error + money" where
  "calculated acc [] = Inr acc"
| "calculated acc (e # es) =
     bindR (case le_direction e of
         DirectionCredit \<Rightarrow> Money_Add acc (le_amount e)
       | DirectionDebit \<Rightarrow> Money_Subtract acc (le_amount e)
       | Direction_other _ \<Rightarrow> Inr acc)
       (\<lambda>acc. calculated acc es)"

definition reconcile_body :: "external \<Rightarrow> uuid \<Rightarrow> (sess, error, reconciliation_result) prog" where
  "reconcile_body X walletID =
     bindE (Wallet_FindByID X walletID) (\<lambda>w.
     bindE (AllLedgerEntries X walletID) (\<lambda>entries.
     bindE (liftE (calculated (Currency_Zero (m_currency (w_balance w))) entries)) (\<lambda>calc.
     bindE (liftE (Money_Subtract (w_balance w) calc)) (\<lambda>difference.
     ret \<lparr>rr_WalletID = walletID, rr_StoredBalance = w_balance w, rr_CalculatedBalance = calc,
          rr_Difference = difference, rr_Consistent = Money_IsZero difference,
          rr_EntriesChecked = length entries\<rparr>))))"

definition Reconcile :: "external \<Rightarrow> uuid \<Rightarrow> (sess, error, reconciliation_result) prog" where
  "Reconcile X walletID = WithinTx (reconcile_body X walletID)"

section \<open>Opening keeps the books\<close>

lemma Wallet_New_Inr:
  "Wallet_New i now p m = Inr w \<Longrightarrow> w = \<lparr>w_id = i, w_playerID = p, w_version = 1, w_balance = m,
     w_createdAt = now, w_updatedAt = now\<rparr> \<and> 0 \<le> units m"
  by (auto simp: Wallet_New_def Money_IsNegative_def split: if_splits)

lemma Wallet_Save_db:
  "Wallet_Save w s = (r, t) \<Longrightarrow> s_db t = s_db s \<or> s_db t = put_wallet (wallet_row_of w) (s_db s)"
  unfolding Wallet_Save_def
  by (erule onResultE, drule query_db)
    (auto simp: insert_eqs split: sum.splits if_splits option.splits)

lemma openWallet_books:
  assumes run: "openWallet X cd input w s = (r, t)" "s_tx s = NoTx" and b: "books (s_db s)"
    and w: "w_balance w = cw_InitialBalance input" "lookup_by wl_id (w_id w) (db_wallets (s_db s)) = None"
    and tx: "lookup_by wr_id (cd_tx_id cd) (db_wagers (s_db s)) = None"
  shows "books (s_db t)"
proof -
  let ?m = "cw_InitialBalance input"
  let ?opening = "NewOpeningTransaction (cd_tx_id cd) (cd_tx_now cd)
       \<lparr>no_PlayerID = cw_PlayerID input, no_WalletID = w_id w, no_Amount = ?m\<rparr>"
  let ?entry = "\<lambda>tx. NewLedgerEntry (cd_entry_id cd) (cd_entry_now cd)
       \<lparr>nle_WalletID = w_id w, nle_TransactionID = tx_id tx, nle_Direction = DirectionCredit,
        nle_Amount = ?m, nle_BalanceBefore = Currency_Zero (m_currency ?m), nle_BalanceAfter = ?m\<rparr>"
  let ?ev1 = "\<lambda>tx. newWagerTransactionProcessedEvent X (cd_event cd) tx (cw_CorrelationID input)"
  let ?ev2 = "\<lambda>en e1. newWalletBalanceChangedEvent X (cd_event2 cd) w en (cw_CorrelationID input)
       (Some (x_uuid X (oe_id e1)))"
  let ?body = "\<lambda>tx en e1 e2. bindE (Wallet_Save w) (\<lambda>_. bindE (Wager_Save X tx) (\<lambda>_.
       bindE (SaveLedgerEntry en) (\<lambda>_. SaveAll [e1, e2])))"
  consider (stopped) "s_db t = s_db s"
    | (saved) tx en e1 e2 q where "?opening = Inr tx" "?entry tx = Inr en" "?ev1 tx = Inr e1" "?ev2 en e1 = Inr e2"
        "WithinTx (?body tx en e1 e2) s = (q, t)"
    using run(1) unfolding openWallet_def Let_def
    by (auto simp: bindE_def simp del: SaveAll.simps split: sum.splits prod.splits)
  then show ?thesis
  proof cases
    case stopped
    with b show ?thesis by simp
  next
    case saved
    have "settled s q" using run(2) by (simp add: settled_def)
    with saved(5) show ?thesis
    proof (rule WithinTx_settled)
      assume "s_db t = s_db s"
      with b show ?thesis by simp
    next
      fix s1 x t1
      assume s1: "s_db s1 = s_db s" "?body tx en e1 e2 s1 = (Inr x, t1)" "s_db t = s_db t1"
      then have t: "s_db t = put_outbox [e1, e2] (add_ledger (ledger_row_of en)
          (put_wager (wager_row_of X tx) (put_wallet (wallet_row_of w) (s_db s))))"
        by (auto elim!: bindE_InrE Wallet_Save_InrE Wager_Save_InrE SaveLedgerEntry_InrE SaveAll_InrE
            simp del: SaveAll.simps)
      have T: "tx_id tx = cd_tx_id cd" "tx_kind tx = KindOpening" "tx_status tx = TxStatusProcessed"
        "tx_walletID tx = w_id w" "tx_amount tx = ?m" "0 < units ?m"
        using saved(1) by (auto simp: NewOpeningTransaction_def Money_IsPositive_def split: if_splits)
      have "books (add_ledger (ledger_row_of en) (put_wager (wager_row_of X tx) (put_wallet (wallet_row_of w) (s_db s))))"
        using b w tx T NewLedgerEntry_Inr(2) [OF saved(2)]
        by (intro books_opening)
          (simp_all add: ledger_row_of_def Currency_Zero_def wallet_row_of_def)
      then show ?thesis unfolding t by (simp only: books_put_outbox)
    qed
  qed
qed

text \<open>Opening a wallet keeps the books, with and without an initial balance and however
  the call ends: the initial balance is always backed by an opening transaction and an entry.\<close>

lemma Create_keeps_books:
  assumes "books (s_db s)" and "s_tx s = NoTx"
    and "lookup_by wl_id (cd_wallet_id cd) (db_wallets (s_db s)) = None"
    and "lookup_by wr_id (cd_tx_id cd) (db_wagers (s_db s)) = None"
    and "Create X cd input s = (r, t)"
  shows "books (s_db t)"
proof -
  obtain q s1 where q: "FindByPlayerAndCurrency X (cw_PlayerID input) (m_currency (cw_InitialBalance input)) s = (q, s1)"
    by fastforce
  have s1: "s_db s1 = s_db s" "s_tx s1 = NoTx"
    using q assms(2) unfolding finds_read_one by (auto dest: read_one_db read_one_tx)
  show ?thesis
  proof (cases "q = Inl (AppE ErrWalletNotFound)")
    case False
    with assms(1,5) q s1 show ?thesis
      by (cases q) (auto simp: Create_def onResult_def split: if_splits)
  next
    case nf: True
    show ?thesis
    proof (cases "Wallet_New (cd_wallet_id cd) (cd_wallet_now cd) (cw_PlayerID input) (cw_InitialBalance input)")
      case (Inl e)
      with assms(1,5) q s1 nf show ?thesis by (simp add: Create_def onResult_def bindE_def)
    next
      case (Inr w)
      note W = Wallet_New_Inr [OF Inr]
      show ?thesis
      proof (cases "Money_IsZero (cw_InitialBalance input)")
        case True
        with assms(5) q nf Inr obtain q2 where "Wallet_Save w s1 = (q2, t)"
          by (auto simp: Create_def onResult_def bindE_def split: prod.splits sum.splits)
        from Wallet_Save_db [OF this] s1 show ?thesis
          using assms(1,3) W True by (auto simp: Money_IsZero_def intro!: books_open)
      next
        case False
        with assms(5) q nf Inr have "openWallet X cd input w s1 = (r, t)"
          by (simp add: Create_def onResult_def bindE_def)
        then show ?thesis
          by (rule openWallet_books) (use s1 assms W in simp_all)
      qed
    qed
  qed
qed

section \<open>Reconciliation is exact\<close>

lemma scan_rows_Inr:
  "scan_rows scan rows = Inr es \<Longrightarrow> list_all2 (\<lambda>r e. scan r = Inr e) rows es"
  by (induction rows arbitrary: es) (auto simp: bindR_Inr_iff)

lemma scan_entries:
  assumes "scan_rows (scanLedgerEntry X) (map (\<lambda>r. (r, c)) rows) = Inr es"
  shows "es = map (entry_of c) rows"
  using assms
  by (induction rows arbitrary: es) (auto simp: bindR_Inr_iff scanLedgerEntry_eq split: if_splits)

lemma scan_entries_iso:
  "x_iso X c \<Longrightarrow> scan_rows (scanLedgerEntry X) (map (\<lambda>r. (r, c)) rows) = Inr (map (entry_of c) rows)"
  by (induction rows) (simp_all add: scanLedgerEntry_eq)

text \<open>The rows of the join that belong to one wallet.\<close>

lemma own_join:
  assumes "lookup_by wl_id wid (db_wallets d) = Some w"
  shows "filter (\<lambda>rc. lr_wallet_id (fst rc) = wid) (ledger_join d) =
    map (\<lambda>r. (r, wl_currency w)) (entries_of d wid)"
proof -
  have "filter (\<lambda>rc. lr_wallet_id (fst rc) = wid) (List.map_filter (\<lambda>r.
      map_option (\<lambda>w. (r, wl_currency w)) (lookup_by wl_id (lr_wallet_id r) (db_wallets d))) ls) =
    map (\<lambda>r. (r, wl_currency w)) (filter (\<lambda>e. lr_wallet_id e = wid) ls)" for ls
    using assms by (induction ls) (auto simp: map_filter_simps split: option.split)
  then show ?thesis by (simp add: ledger_join_def entries_of_def)
qed

lemma sort_join:
  "sort_key (ledger_order \<circ> fst) (map (\<lambda>r. (r, c)) es) = map (\<lambda>r. (r, c)) (sort_key ledger_order es)"
proof -
  have ins: "insort_key (ledger_order \<circ> fst) (x, c) (map (\<lambda>r. (r, c)) xs) =
      map (\<lambda>r. (r, c)) (insort_key ledger_order x xs)" for x xs
    by (induction xs) simp_all
  show ?thesis
    by (induction es) (simp_all add: ins [unfolded comp_def] comp_def)
qed

lemma sort_key_sum: "sum_list (map f (sort_key k xs)) = (sum_list (map f xs) :: int)"
proof -
  have "sum_list (map f (insort_key k x ys)) = f x + sum_list (map f ys)" for x ys
    by (induction ys) simp_all
  then show ?thesis by (induction xs) simp_all
qed

lemma calculated_Inr:
  "calculated acc (map (entry_of c) es) = Inr m \<Longrightarrow> m_currency acc = c \<Longrightarrow>
     m_currency m = c \<and> units m = units acc + sum_list (map signed_row es)"
proof (induction es arbitrary: acc)
  case (Cons e es)
  then show ?case
    by (cases "lr_direction e")
      (auto simp: bindR_Inr_iff entry_of_def Money_Add_Inr_iff Money_Subtract_Inr_iff signed_row_def)
qed simp

lemma AllLedgerEntries_InrE:
  assumes "AllLedgerEntries X wid s = (Inr es, t)" "lookup_by wl_id wid (db_wallets (s_db s)) = Some w"
  shows "es = map (entry_of (wl_currency w)) (sort_key ledger_order (entries_of (s_db s) wid))"
    "s_db t = s_db s" "s_tx t = s_tx s"
proof -
  from assms(1) obtain rows s1 where r: "query (\<lambda>d. (Inr (sort_key (ledger_order \<circ> fst)
       (filter (\<lambda>rc. lr_wallet_id (fst rc) = wid) (ledger_join d))), d)) s = (Inr rows, s1)"
    "liftE (scan_rows (scanLedgerEntry X) rows) s1 = (Inr es, t)"
    unfolding AllLedgerEntries_def by (rule bindE_InrE)
  from r(1) have s1: "rows = sort_key (ledger_order \<circ> fst)
       (filter (\<lambda>rc. lr_wallet_id (fst rc) = wid) (ledger_join (s_db s)))"
    "s_db s1 = s_db s" "s_tx s1 = s_tx s"
    by (auto elim!: query_InrE)
  have rows: "rows = map (\<lambda>r. (r, wl_currency w)) (sort_key ledger_order (entries_of (s_db s) wid))"
    unfolding s1(1) own_join [OF assms(2)] by (rule sort_join)
  from r(2) have "scan_rows (scanLedgerEntry X) rows = Inr es" "t = s1" by simp_all
  with rows s1(2,3) scan_entries show "es = map (entry_of (wl_currency w)) (sort_key ledger_order (entries_of (s_db s) wid))"
    "s_db t = s_db s" "s_tx t = s_tx s"
    by simp_all
qed

text \<open>The report a reconciliation owes on the tables \<open>d\<close>.\<close>

definition report_ok :: "db \<Rightarrow> uuid \<Rightarrow> reconciliation_result \<Rightarrow> bool" where
  "report_ok d wid res \<longleftrightarrow> (\<exists>w. lookup_by wl_id wid (db_wallets d) = Some w \<and>
    rr_WalletID res = wid \<and> rr_StoredBalance res = w_balance (wallet_of w) \<and>
    units (rr_CalculatedBalance res) = sum_list (map signed_row (entries_of d wid)) \<and>
    units (rr_Difference res) = sint (wl_balance w) - sum_list (map signed_row (entries_of d wid)) \<and>
    (rr_Consistent res \<longleftrightarrow> sint (wl_balance w) = sum_list (map signed_row (entries_of d wid))) \<and>
    rr_EntriesChecked res = length (entries_of d wid))"

lemma reconcile_body_InrE:
  assumes "reconcile_body X wid s = (Inr res, t)"
  shows "s_db t = s_db s \<and> report_ok (s_db s) wid res"
proof -
  from assms obtain w s2 where w: "Wallet_FindByID X wid s = (Inr w, s2)" and
    run2: "bindE (AllLedgerEntries X wid) (\<lambda>entries.
       bindE (liftE (calculated (Currency_Zero (m_currency (w_balance w))) entries)) (\<lambda>calc.
       bindE (liftE (Money_Subtract (w_balance w) calc)) (\<lambda>difference.
       ret \<lparr>rr_WalletID = wid, rr_StoredBalance = w_balance w, rr_CalculatedBalance = calc,
            rr_Difference = difference, rr_Consistent = Money_IsZero difference,
            rr_EntriesChecked = length entries\<rparr>))) s2 = (Inr res, t)"
    unfolding reconcile_body_def by (rule bindE_InrE)
  from w obtain row where row: "lookup_by wl_id wid (db_wallets (s_db s)) = Some row" "w = wallet_of row"
    "s_db s2 = s_db s"
    by (rule Wallet_FindByID_InrE)
  from run2 obtain es s3 where es: "AllLedgerEntries X wid s2 = (Inr es, s3)" and
    run3: "bindE (liftE (calculated (Currency_Zero (m_currency (w_balance w))) es)) (\<lambda>calc.
       bindE (liftE (Money_Subtract (w_balance w) calc)) (\<lambda>difference.
       ret \<lparr>rr_WalletID = wid, rr_StoredBalance = w_balance w, rr_CalculatedBalance = calc,
            rr_Difference = difference, rr_Consistent = Money_IsZero difference,
            rr_EntriesChecked = length es\<rparr>)) s3 = (Inr res, t)"
    by (rule bindE_InrE)
  from es row have E: "es = map (entry_of (wl_currency row)) (sort_key ledger_order (entries_of (s_db s) wid))"
    "s_db s3 = s_db s"
    using AllLedgerEntries_InrE [OF es] by simp_all
  from run3 obtain calc diff where c: "calculated (Currency_Zero (wl_currency row)) es = Inr calc"
    and dif: "Money_Subtract (w_balance w) calc = Inr diff" and t: "t = s3"
    and res: "res = \<lparr>rr_WalletID = wid, rr_StoredBalance = w_balance w, rr_CalculatedBalance = calc,
            rr_Difference = diff, rr_Consistent = Money_IsZero diff, rr_EntriesChecked = length es\<rparr>"
    unfolding row(2) by (auto elim!: bindE_InrE)
  have "units calc = sum_list (map signed_row (entries_of (s_db s) wid))"
    using calculated_Inr [OF c [unfolded E(1)]] by (simp add: Currency_Zero_def sort_key_sum)
  moreover have "units diff = sint (wl_balance row) - units calc"
    using dif row(2) by (simp add: Money_Subtract_Inr_iff)
  ultimately show ?thesis
    using row E t res by (auto simp: Money_IsZero_units report_ok_def)
qed



text \<open>When the sum of the amounts fits in 64 bits no order of the entries can overflow.\<close>

lemma entry_of_simps:
  "le_direction (entry_of c e) = lr_direction e"
  "le_amount (entry_of c e) = \<lparr>m_currency = c, m_amount = lr_amount e\<rparr>"
  by (simp_all add: entry_of_def)

lemma calculated_returns:
  assumes "\<forall>e\<in>set es. 0 < sint (lr_amount e)" "m_currency acc = c"
    and "\<bar>units acc\<bar> + sum_list (map (\<lambda>e. sint (lr_amount e)) es) \<le> max_i64"
  shows "\<exists>m. calculated acc (map (entry_of c) es) = Inr m"
  using assms
proof (induction es arbitrary: acc)
  case (Cons e es)
  let ?a = "sint (lr_amount e)"
  have nn: "0 \<le> sum_list (map (\<lambda>e. sint (lr_amount e)) es)"
    using Cons.prems(1) by (intro sum_list_nonneg) (auto intro: less_imp_le)
  have a: "0 < ?a" "\<bar>units acc\<bar> + ?a \<le> max_i64" using Cons.prems nn by simp_all
  have fits: "fits_i64 (units acc + ?a)" "fits_i64 (units acc - ?a)" using a by (auto simp: fits_i64_def)
  have step: "\<exists>m. calculated acc' (map (entry_of c) es) = Inr m"
    if "m_currency acc' = c" "units acc' = units acc + ?a \<or> units acc' = units acc - ?a \<or> units acc' = units acc" for acc'
    using Cons.prems a that by (intro Cons.IH) auto
  show ?case
  proof (cases "lr_direction e")
    case DirectionCredit
    obtain r where r: "Money_Add acc (le_amount (entry_of c e)) = Inr r"
      using fits(1) Cons.prems(2) by (simp add: Money_Add_eq entry_of_simps)
    then have "\<exists>m. calculated r (map (entry_of c) es) = Inr m"
      using Cons.prems(2) by (intro step) (simp_all add: Money_Add_Inr_iff entry_of_simps)
    with r DirectionCredit show ?thesis by (simp add: entry_of_simps)
  next
    case DirectionDebit
    have "?a \<noteq> min_i64" using a(1) by simp
    then obtain r where r: "Money_Subtract acc (le_amount (entry_of c e)) = Inr r"
      using fits(2) Cons.prems(2) by (simp add: Money_Subtract_exact entry_of_simps)
    then have "\<exists>m. calculated r (map (entry_of c) es) = Inr m"
      using Cons.prems(2) by (intro step) (simp_all add: Money_Subtract_Inr_iff entry_of_simps)
    with r DirectionDebit show ?thesis by (simp add: entry_of_simps)
  next
    case (Direction_other x)
    then show ?thesis using step [of acc] Cons.prems(2) by (simp add: entry_of_simps)
  qed
qed simp

lemma chain_amounts: "chain b es c \<Longrightarrow> \<forall>e\<in>set es. 0 < sint (lr_amount e)"
  by (induction es arbitrary: b) auto

text \<open>Claim C22. On balanced books the reconciliation of an existing wallet returns, finds the
  stored balance, and counts every entry. The one thing that can stop it is an overflow on the
  way, because the entries are summed by creation time; it cannot happen while the amounts of
  the wallet's entries add up to less than \<open>2 ^ 63\<close> minor units.\<close>

theorem Reconcile_balanced:
  assumes "books d" and w: "lookup_by wl_id wid (db_wallets d) = Some w" and "x_iso X (wl_currency w)"
    and "sum_list (map (\<lambda>e. sint (lr_amount e)) (entries_of d wid)) \<le> max_i64"
  shows "Reconcile X wid (calm NoTx d) =
    (Inr \<lparr>rr_WalletID = wid, rr_StoredBalance = w_balance (wallet_of w),
          rr_CalculatedBalance = w_balance (wallet_of w),
          rr_Difference = \<lparr>m_currency = wl_currency w, m_amount = 0\<rparr>, rr_Consistent = True,
          rr_EntriesChecked = length (entries_of d wid)\<rparr>, calm NoTx d)"
proof -
  let ?c = "wl_currency w" and ?es = "sort_key ledger_order (entries_of d wid)"
  have wm: "w \<in> set (db_wallets d)" "wl_id w = wid" using lookup_by_SomeD [OF w] by simp_all
  have ch: "chain 0 (entries_of d wid) (sint (wl_balance w))" using booksD(5) [OF assms(1) wm(1)] wm(2) by simp
  have "\<forall>e\<in>set ?es. 0 < sint (lr_amount e)" using chain_amounts [OF ch] by simp
  then obtain m where m: "calculated (Currency_Zero ?c) (map (entry_of ?c) ?es) = Inr m"
    using calculated_returns [of ?es "Currency_Zero ?c" ?c] assms(4)
    by (auto simp: Currency_Zero_def sort_key_sum)
  have "units m = sint (wl_balance w)" "m_currency m = ?c"
    using calculated_Inr [OF m] chain_sum [OF ch] by (simp_all add: Currency_Zero_def sort_key_sum)
  then have "m = w_balance (wallet_of w)" by (simp add: money_eq_iff)
  with m have calc: "calculated (Currency_Zero ?c) (map (entry_of ?c) ?es) = Inr (w_balance (wallet_of w))" by simp
  have "sint (wl_balance w) \<noteq> min_i64" using chain_nonneg [OF ch] by simp
  then have dif: "Money_Subtract (w_balance (wallet_of w)) (w_balance (wallet_of w)) =
      Inr \<lparr>m_currency = ?c, m_amount = 0\<rparr>"
    by (simp add: Money_Subtract_exact fits_i64_def)
  have all: "AllLedgerEntries X wid (calm TxActive d) = (Inr (map (entry_of ?c) ?es), calm TxActive d)"
    by (simp add: AllLedgerEntries_def bindE_def calm_query own_join [OF w] sort_join scan_entries_iso assms(3))
  have find: "Wallet_FindByID X wid (calm TxActive d) = (Inr (wallet_of w), calm TxActive d)"
    by (simp add: calm_FindByID w scanWallet_eq assms(3))
  have len: "length ?es = length (entries_of d wid)" by simp
  show ?thesis
    unfolding Reconcile_def
    by (rule calm_WithinTx_ok)
      (simp add: reconcile_body_def bindE_def find all calc dif len Money_IsZero_def)
qed

theorem Reconcile_balanced_witness:
  "fst (Reconcile sample_external 3 (calm NoTx bet_db)) =
    Inr \<lparr>rr_WalletID = 3, rr_StoredBalance = \<lparr>m_currency = ''BRL'', m_amount = 2000\<rparr>,
         rr_CalculatedBalance = \<lparr>m_currency = ''BRL'', m_amount = 2000\<rparr>,
         rr_Difference = \<lparr>m_currency = ''BRL'', m_amount = 0\<rparr>, rr_Consistent = True, rr_EntriesChecked = 2\<rparr>"
proof -
  let ?w = "wallet_row_of (sample_wallet\<lparr>w_balance := \<lparr>m_currency = ''BRL'', m_amount = 2000\<rparr>, w_version := 2\<rparr>)"
  have "lookup_by wl_id 3 (db_wallets bet_db) = Some ?w" "x_iso sample_external (wl_currency ?w)"
    "sum_list (map (\<lambda>e. sint (lr_amount e)) (entries_of bet_db 3)) \<le> max_i64"
    by (simp_all add: bet_db_eq entries_of_def sample_entry_def sample_wallet_def wallet_row_of_def sample_external_def)
  from Reconcile_balanced [OF books_bet this] show ?thesis
    by (simp add: wallet_of_def wallet_row_of_def bet_db_eq entries_of_def sample_entry_def)
qed

section \<open>Pages of the ledger\<close>

lemma clampLimit_range: "1 \<le> sint (clampLimit limit) \<and> sint (clampLimit limit) \<le> 50"
  by (simp add: clampLimit_def defaultLedgerListLimit_def)

lemma filter_after:
  fixes xs :: "'x::linorder list"
  assumes "sorted_wrt (<) (map f ys)" "k < length ys"
  shows "filter (\<lambda>y. (f (ys ! k) :: 'x) < f y) ys = drop (Suc k) ys"
proof -
  have lt: "f (ys ! i) < f (ys ! j)" if "i < j" "j < length ys" for i j
    using assms(1) that by (simp add: sorted_wrt_iff_nth_less)
  have "filter (\<lambda>y. f (ys ! k) < f y) (take (Suc k) ys) = []"
  proof (simp add: filter_empty_conv, intro ballI)
    fix y assume "y \<in> set (take (Suc k) ys)"
    then obtain i where "i \<le> k" "y = ys ! i" "i < length ys" by (auto simp: in_set_conv_nth less_Suc_eq_le)
    with lt [of i k] assms(2) show "\<not> f (ys ! k) < f y" by (cases "i = k") auto
  qed
  moreover have "filter (\<lambda>y. f (ys ! k) < f y) (drop (Suc k) ys) = drop (Suc k) ys"
    using lt by (auto simp: filter_id_conv in_set_conv_nth)
  ultimately show ?thesis
    by (metis append_Nil append_take_drop_id filter_append)
qed

lemma ledger_strict:
  assumes "distinct (map lr_id es)"
  shows "sorted_wrt (<) (map ledger_order (sort_key ledger_order es))"
proof -
  have "distinct (map ledger_order es)"
    using assms by (auto simp: ledger_order_def distinct_map inj_on_def)
  then have "distinct (map ledger_order (sort_key ledger_order es))"
    by (simp add: distinct_map)
  then show ?thesis by (simp add: strict_sorted_iff)
qed

text \<open>Claim C23. The pages of a wallet's ledger partition it: the first page is the first \<open>n\<close>
  entries in creation order, \<open>n\<close> being between 1 and 50 whatever limit is asked for, and the
  page after an entry is the \<open>n\<close> entries that follow it, none skipped and none repeated.\<close>

theorem List_ledger_pages:
  assumes w: "lookup_by wl_id wid (db_wallets d) = Some w" "x_iso X (wl_currency w)"
    and ids: "distinct (map lr_id (db_ledger d))"
    and L: "L = map (entry_of (wl_currency w)) (sort_key ledger_order (entries_of d wid))"
    and n: "n = nat (sint (clampLimit limit))"
  shows "1 \<le> n \<and> n \<le> 50 \<and>
    List_ledger X wid None limit (calm NoTx d) = (Inr (take n L), calm NoTx d) \<and>
    (\<forall>k<length L. List_ledger X wid (Some (le_id (L ! k))) limit (calm NoTx d) =
       (Inr (take n (drop (Suc k) L)), calm NoTx d))"
proof (intro conjI allI impI)
  let ?R = "sort_key ledger_order (entries_of d wid)" and ?c = "wl_currency w"
  have "distinct (map lr_id (entries_of d wid))"
    using ids by (simp add: entries_of_def distinct_map inj_on_def)
  note strict = ledger_strict [OF this]
  show "1 \<le> n" "n \<le> 50" using clampLimit_range [of limit] by (auto simp: n)
  show "List_ledger X wid None limit (calm NoTx d) = (Inr (take n L), calm NoTx d)"
    by (simp add: List_ledger_def ListLedgerEntries_def bindE_def calm_query own_join [OF w(1)] sort_join
        take_map scan_entries_iso w(2) L n)
  fix k assume k: "k < length L"
  then have kR: "?R ! k \<in> set (db_ledger d)" "k < length ?R"
    using nth_mem [of k ?R] by (auto simp: L entries_of_def)
  have id: "le_id (L ! k) = lr_id (?R ! k)" using k by (simp add: L entry_of_def)
  have cur: "lookup_by lr_id (lr_id (?R ! k)) (db_ledger d) = Some (?R ! k)"
    using ids kR(1) by (rule lookup_by_eqI)
  have own: "filter (\<lambda>rc. ledger_order (?R ! k) < ledger_order (fst rc)) (map (\<lambda>r. (r, ?c)) (entries_of d wid)) =
      map (\<lambda>r. (r, ?c)) (filter (\<lambda>r. ledger_order (?R ! k) < ledger_order r) (entries_of d wid))"
    by (simp add: filter_map comp_def)
  have after: "sort_key ledger_order (filter (\<lambda>r. ledger_order (?R ! k) < ledger_order r) (entries_of d wid)) =
      drop (Suc k) ?R"
    using filter_after [OF strict kR(2)] by (simp only: filter_sort)
  show "List_ledger X wid (Some (le_id (L ! k))) limit (calm NoTx d) =
       (Inr (take n (drop (Suc k) L)), calm NoTx d)"
    unfolding id
    by (simp only: List_ledger_def ListLedgerEntries_def bindE_def calm_query own_join [OF w(1)] Let_def
        option.case cur own sort_join after)
      (simp add: calm_query own_join [OF w(1)] cur own sort_join after take_map drop_map scan_entries_iso w(2) L n
        del: filter_filter)
qed

theorem List_ledger_pages_witness:
  "fst (List_ledger sample_external 3 (Some 4) 1 (calm NoTx bet_db)) =
    Inr [entry_of ''BRL'' (sample_entry 5 7 DirectionDebit 3000 5000 2000)]"
proof -
  let ?w = "wallet_row_of (sample_wallet\<lparr>w_balance := \<lparr>m_currency = ''BRL'', m_amount = 2000\<rparr>, w_version := 2\<rparr>)"
  let ?L = "map (entry_of (wl_currency ?w)) (sort_key ledger_order (entries_of bet_db 3))"
  have h: "lookup_by wl_id 3 (db_wallets bet_db) = Some ?w" "x_iso sample_external (wl_currency ?w)"
    "distinct (map lr_id (db_ledger bet_db))"
    by (simp_all add: bet_db_eq sample_entry_def sample_wallet_def wallet_row_of_def sample_external_def)
  have L: "?L = [entry_of ''BRL'' (sample_entry 4 1 DirectionCredit 5000 0 5000),
      entry_of ''BRL'' (sample_entry 5 7 DirectionDebit 3000 5000 2000)]"
    by (simp add: bet_db_eq entries_of_def sample_entry_def ledger_order_def less_eq_prod_def
        wallet_row_of_def insort_key.simps)
  have n: "nat (sint (clampLimit 1)) = 1" by (simp add: clampLimit_def defaultLedgerListLimit_def)
  have len: "0 < length ?L" unfolding L by simp
  have "\<forall>k<length ?L. List_ledger sample_external 3 (Some (le_id (?L ! k))) 1 (calm NoTx bet_db) =
      (Inr (take (nat (sint (clampLimit 1))) (drop (Suc k) ?L)), calm NoTx bet_db)"
    using List_ledger_pages [OF h refl refl, of 1] by blast
  from this [rule_format, OF len]
  have "List_ledger sample_external 3 (Some (le_id (?L ! 0))) 1 (calm NoTx bet_db) =
      (Inr (take 1 (drop (Suc 0) ?L)), calm NoTx bet_db)"
    unfolding n .
  then show ?thesis unfolding L by (simp add: entry_of_def sample_entry_def)
qed

definition sample_create_draws :: create_draws where
  "sample_create_draws = \<lparr>cd_wallet_id = 3, cd_wallet_now = 1, cd_tx_id = 1, cd_tx_now = 1,
     cd_entry_id = 4, cd_entry_now = 1, cd_event = sample_draw, cd_event2 = sample_draw\<lparr>ed_id := 31\<rparr>\<rparr>"

definition sample_create :: create_wallet_input where
  "sample_create = \<lparr>cw_PlayerID = 2, cw_InitialBalance = \<lparr>m_currency = ''BRL'', m_amount = 5000\<rparr>,
     cw_CorrelationID = ''c''\<rparr>"

lemma Create_keeps_books_sample:
  "books (s_db (snd (Create sample_external sample_create_draws sample_create (calm NoTx no_tables))))"
proof -
  obtain r t where rt: "Create sample_external sample_create_draws sample_create (calm NoTx no_tables) = (r, t)"
    by fastforce
  from Create_keeps_books [OF _ _ _ _ rt] books_no_tables show ?thesis
    unfolding rt by (simp add: no_tables_def sample_create_draws_def)
qed

end
