(* ===== verification/Resolver.thy ===== *)
theory Resolver
  imports Settlement
begin

text \<open>
  \<open>internal/app/pending_reference_resolver.go\<close>: the retry of parked reversals. The values drawn
  while one item is resolved are those of a submission and the minted correlation id. An
  outcome is the label \<open>ObservePendingReferenceResolution\<close> is given.
\<close>

record resolver =
  rs_maxAttempts :: i64
  rs_ttl :: i64
  rs_backoffBase :: i64

record resolve_draws =
  rd_correlationID :: string
  rd_draws :: draws

datatype resolution = Expired | Resolved | StillPending

text \<open>\<open>time.Time.Sub\<close> saturates at the ends of \<open>time.Duration\<close>.\<close>

definition Time_Sub :: "time \<Rightarrow> time \<Rightarrow> int" where
  "Time_Sub a b = max min_i64 (min max_i64 (a - b))"

definition is_expired :: "resolver \<Rightarrow> time \<Rightarrow> transaction \<Rightarrow> i64 \<Rightarrow> bool" where
  "is_expired rs now tx attempts \<longleftrightarrow>
     sint (rs_maxAttempts rs) \<le> sint attempts \<or> sint (rs_ttl rs) \<le> Time_Sub now (tx_createdAt tx)"

definition resolveOne ::
  "external \<Rightarrow> resolver \<Rightarrow> resolve_draws \<Rightarrow> time \<Rightarrow> transaction \<times> i64 \<Rightarrow> (sess, error, resolution) prog" where
  "resolveOne X rs rd now item =
     (let tx = fst item; attempts = snd item; correlationID = rd_correlationID rd in
      if is_expired rs now tx attempts
      then bindE (reject X (rd_draws rd) tx FailureCodeReferenceNotFound correlationID) (\<lambda>_. ret Expired)
      else bindE (process_tx X (rd_draws rd) tx correlationID) (\<lambda>res.
        if tx_status (sr_Transaction res) \<noteq> TxStatusPendingReference then ret Resolved
        else bindE (ScheduleNextPendingReferenceRetry (tx_id tx)
            (now + sint (backoffDelay (rs_backoffBase rs) attempts))) (\<lambda>_. ret StillPending)))"

fun resolve_items ::
  "external \<Rightarrow> resolver \<Rightarrow> (nat \<Rightarrow> resolve_draws) \<Rightarrow> nat \<Rightarrow> time \<Rightarrow> (transaction \<times> i64) list \<Rightarrow> (sess, error, unit) prog" where
  "resolve_items X rs rds n now [] = ret ()"
| "resolve_items X rs rds n now (item # due) =
     bindE (resolveOne X rs (rds n) now item) (\<lambda>_. resolve_items X rs rds (Suc n) now due)"

definition ResolveDue ::
  "external \<Rightarrow> resolver \<Rightarrow> (nat \<Rightarrow> resolve_draws) \<Rightarrow> time \<Rightarrow> i64 \<Rightarrow> (sess, error, nat) prog" where
  "ResolveDue X rs rds now limit =
     bindE (FindDuePendingReferences X now limit) (\<lambda>due.
     bindE (resolve_items X rs rds 0 now due) (\<lambda>_.
     ret (length due)))"

end
