(* ===== verification/Worker.thy ===== *)
theory Worker
  imports Laws
begin

text \<open>
  \<open>internal/app/outbox_worker.go\<close> and \<open>internal/sqs/publisher.go\<close>: the publication of outbox
  entries. \<open>SendMessage\<close> of the AWS client is a parameter \<open>send\<close>: it is given the message and
  answers with an error or not. The message body is the envelope; its JSON text belongs to
  \<open>encoding/json\<close>.
\<close>

section \<open>The publisher\<close>

record event_envelope =
  ev_EventID :: uuid
  ev_AggregateType :: string
  ev_AggregateID :: uuid
  ev_EventType :: string
  ev_Version :: i64
  ev_OccurredAt :: time
  ev_CorrelationID :: string
  ev_CausationID :: "string option"
  ev_Data :: string

record sqs_message =
  sm_QueueUrl :: string
  sm_MessageBody :: event_envelope
  sm_MessageGroupId :: string
  sm_MessageDeduplicationId :: string

definition event_message :: "external \<Rightarrow> string \<Rightarrow> outbox_entry \<Rightarrow> sqs_message" where
  "event_message X queueURL entry =
     \<lparr>sm_QueueUrl = queueURL,
      sm_MessageBody =
        \<lparr>ev_EventID = oe_id entry, ev_AggregateType = oe_aggregateType entry,
         ev_AggregateID = oe_aggregateID entry, ev_EventType = oe_eventType entry,
         ev_Version = oe_version entry, ev_OccurredAt = oe_occurredAt entry,
         ev_CorrelationID = oe_correlationID entry, ev_CausationID = oe_causationID entry,
         ev_Data = oe_payload entry\<rparr>,
      sm_MessageGroupId = x_uuid X (oe_aggregateID entry),
      sm_MessageDeduplicationId = x_uuid X (oe_id entry)\<rparr>"

definition Publish :: "external \<Rightarrow> (sqs_message \<Rightarrow> error option) \<Rightarrow> string \<Rightarrow> outbox_entry \<Rightarrow> error option" where
  "Publish X send queueURL entry = send (event_message X queueURL entry)"

section \<open>The worker\<close>

text \<open>
  One run. The result is whether an entry was found, which the callers of the Go function only
  look at when it returns no error. \<open>now_db\<close> is the database's \<open>now()\<close>, \<open>now\<close> the clock of the process.
\<close>

definition attempt ::
  "external \<Rightarrow> (sqs_message \<Rightarrow> error option) \<Rightarrow> string \<Rightarrow> i64 \<Rightarrow> time \<Rightarrow> outbox_entry \<Rightarrow> (sess, error, unit) prog" where
  "attempt X send queueURL backoffBase now entry =
     (case Publish X send queueURL entry of
        Some pubErr \<Rightarrow>
          bindE (liftE (ScheduleRetry (now + sint (backoffDelay backoffBase (oe_retryCount entry))) entry))
            (\<lambda>entry. SaveAll [entry])
      | None \<Rightarrow> SaveAll [MarkPublished entry])"

definition RunOnce_body ::
  "external \<Rightarrow> (sqs_message \<Rightarrow> error option) \<Rightarrow> string \<Rightarrow> i64 \<Rightarrow> time \<Rightarrow> time \<Rightarrow> (sess, error, bool) prog" where
  "RunOnce_body X send queueURL backoffBase now_db now =
     onResult (FindDueForUpdate now_db) (\<lambda>r.
     case r of
       Inl e \<Rightarrow> if e = AppE ErrOutboxEntryNotFound then ret False else fail e
     | Inr entry \<Rightarrow> bindE (attempt X send queueURL backoffBase now entry) (\<lambda>_. ret True))"

definition RunOnce ::
  "external \<Rightarrow> (sqs_message \<Rightarrow> error option) \<Rightarrow> string \<Rightarrow> i64 \<Rightarrow> time \<Rightarrow> time \<Rightarrow> (sess, error, bool) prog" where
  "RunOnce X send queueURL backoffBase now_db now =
     WithinTx (RunOnce_body X send queueURL backoffBase now_db now)"

end
