(* ===== verification/History.thy ===== *)
theory History
  imports WalletOps Resolver Worker
begin

text \<open>
  What no operation of the service ever does to the tables, on any path: the lemmas of the
  locale \<open>table_law\<close> lifted from the repository calls to the use cases, and its
  interpretations. The ledger only grows at its end; wallets, transactions and events are never
  removed and never change their identity or content.
\<close>

section \<open>The use cases obey every table law\<close>

context table_law begin

lemma lift: "(\<And>x. r = Inr x \<Longrightarrow> changes R (k x)) \<Longrightarrow> changes R (bindE (liftE r) k)"
  by (auto simp: changes_def bindE_def law_refl split: sum.splits)

lemma case_changes:
  "(\<And>e. r = Inl e \<Longrightarrow> changes R (f e)) \<Longrightarrow> (\<And>x. r = Inr x \<Longrightarrow> changes R (g x)) \<Longrightarrow>
     changes R (case r of Inl e \<Rightarrow> f e | Inr x \<Rightarrow> g x)"
  by (cases r) auto

lemma if_changes: "(b \<Longrightarrow> changes R m) \<Longrightarrow> (\<not> b \<Longrightarrow> changes R n) \<Longrightarrow> changes R (if b then m else n)"
  by auto

lemma movement_changes:
  assumes W: "\<And>tx'. tx_core tx' = tx_core tx \<Longrightarrow> W (wager_row_of X tx')"
  shows "changes R (rejectInTx X dr tx code w cid)"
    and "changes R (moveInTx X dr tx dir w cid)"
    and "changes R (processInTx X dr tx referenced dir cid)"
proof -
  show rej: "changes R (rejectInTx X dr tx code w cid)" for code w
    unfolding rejectInTx_def
    by (intro lift bindE_changes saves_change ret_changes liftE_changes W rejected.mark_core)
  show mov: "changes R (moveInTx X dr tx dir w cid)" for w
    unfolding moveInTx_def Let_def
    by (auto split: sum.split intro!: rej fail_changes lift bindE_changes saves_change ret_changes
        liftE_changes W processed.mark_core simp del: SaveAll.simps)
  show "changes R (processInTx X dr tx referenced dir cid)"
    unfolding processInTx_def
    by (auto split: sum.split option.split intro!: rej mov bindE_changes onResult_changes finds_change fail_changes)
qed

lemma save_changes:
  assumes W: "\<And>tx'. tx_core tx' = tx_core tx \<Longrightarrow> W (wager_row_of X tx')"
  shows "changes R (saveWithEvent X tx ev)"
    and "changes R (reject X dr tx code cid)"
    and "changes R (parkPendingReference X dr tx cid)"
    and "changes R (finishWithoutMovement X dr tx cid)"
proof -
  have save: "changes R (saveWithEvent X tx' ev)" if "tx_core tx' = tx_core tx" for tx' ev
    unfolding saveWithEvent_def
    by (intro bindE_changes WithinTx_changes saves_change finds_change ret_changes W that)
  show "changes R (saveWithEvent X tx ev)" by (rule save) simp
  show "changes R (reject X dr tx code cid)"
    unfolding reject_def by (intro lift save rejected.mark_core)
  show "changes R (parkPendingReference X dr tx cid)"
    unfolding parkPendingReference_def Let_def
    by (auto intro!: lift save parked.mark_core bindE_changes finds_change ret_changes)
  show "changes R (finishWithoutMovement X dr tx cid)"
    unfolding finishWithoutMovement_def
    by (auto intro!: lift save processed.mark_core bindE_changes finds_change fail_changes)
qed

lemma process_changes:
  assumes W: "\<And>tx'. tx_core tx' = tx_core tx \<Longrightarrow> W (wager_row_of X tx')"
  shows "changes R (process_tx X dr tx cid)"
proof -
  have pm: "changes R (processMovement X dr tx' referenced cid)" if "tx_core tx' = tx_core tx" for tx' referenced
    unfolding processMovement_def
    using W that by (auto intro!: save_changes(4) lift WithinTx_changes movement_changes(3))
  have pr: "changes R (processReferenced X dr tx cid q)" for q
    unfolding processReferenced_def
    using W ResolveReference_Inr
    by (auto split: sum.split intro!: fail_changes save_changes(2,3) lift pm)
  show ?thesis
    unfolding process_tx_def
    by (auto split: option.split intro!: pm pr fail_changes onResult_changes finds_change)
qed

lemma replay_changes: "changes R (replay X a b)"
  unfolding replay_def balanceAtProcessing_def
  by (auto intro!: bindE_changes onResult_changes finds_change ret_changes fail_changes split: sum.split)

lemma Submit_changes:
  assumes W: "\<And>c tx'. NewTransaction (dr_tx_id dr) (dr_tx_now dr) (candidate_input i) = Inr c \<Longrightarrow>
    tx_core tx' = tx_core c \<Longrightarrow> W (wager_row_of X tx')"
  shows "changes R (Submit X dr i)"
  unfolding Submit_def
proof (rule lift)
  fix c
  assume c: "NewTransaction (dr_tx_id dr) (dr_tx_now dr) (candidate_input i) = Inr c"
  have p: "changes R (process_tx X dr c (si_CorrelationID i))"
    using W [OF c] by (rule process_changes)
  show "changes R (onResult (FindByProviderAndExternalID X (si_ProviderID i) (si_ExternalTransactionID i))
    (\<lambda>r. case r of
       Inl e \<Rightarrow>
         if e \<noteq> AppE ErrWagerTransactionNotFound then fail e
         else onResult (process_tx X dr c (si_CorrelationID i)) (\<lambda>r.
           case r of
             Inl e \<Rightarrow>
               if e = AppE ErrWagerTransactionAlreadyExists
               then onResult (FindByProviderAndExternalID X (si_ProviderID i)
                   (si_ExternalTransactionID i)) (\<lambda>r.
                 case r of
                   Inl ferr \<Rightarrow> fail ferr
                 | Inr winner \<Rightarrow> replay X winner c)
               else fail e
           | Inr result \<Rightarrow> ret result)
     | Inr existing \<Rightarrow> replay X existing c))"
    by (intro onResult_changes finds_change case_changes if_changes fail_changes p replay_changes ret_changes)
qed

lemma Create_changes:
  assumes W: "\<And>q. wr_id q = cd_tx_id cd \<Longrightarrow> W q"
  shows "changes R (Create X cd input)"
proof -
  have "changes R (openWallet X cd input w)" for w
    unfolding openWallet_def Let_def
  proof (rule lift)
    fix tx
    assume tx: "NewOpeningTransaction (cd_tx_id cd) (cd_tx_now cd)
       \<lparr>no_PlayerID = cw_PlayerID input, no_WalletID = w_id w, no_Amount = cw_InitialBalance input\<rparr> = Inr tx"
    then have "W (wager_row_of X tx)"
      by (intro W) (auto simp: NewOpeningTransaction_def split: if_splits)
    then show "changes R (bindE (liftE (NewLedgerEntry (cd_entry_id cd) (cd_entry_now cd)
       \<lparr>nle_WalletID = w_id w, nle_TransactionID = tx_id tx, nle_Direction = DirectionCredit,
        nle_Amount = cw_InitialBalance input,
        nle_BalanceBefore = Currency_Zero (m_currency (cw_InitialBalance input)),
        nle_BalanceAfter = cw_InitialBalance input\<rparr>)) (\<lambda>entry.
     bindE (liftE (newWagerTransactionProcessedEvent X (cd_event cd) tx (cw_CorrelationID input))) (\<lambda>processedEvent.
     bindE (liftE (newWalletBalanceChangedEvent X (cd_event2 cd) w entry (cw_CorrelationID input)
       (Some (x_uuid X (oe_id processedEvent))))) (\<lambda>balanceChangedEvent.
     bindE (WithinTx (
       bindE (Wallet_Save w) (\<lambda>_.
       bindE (Wager_Save X tx) (\<lambda>_.
       bindE (SaveLedgerEntry entry) (\<lambda>_.
       SaveAll [processedEvent, balanceChangedEvent]))))) (\<lambda>_.
     ret w)))))"
      by (intro lift bindE_changes WithinTx_changes saves_change ret_changes)
  qed
  then show ?thesis
    unfolding Create_def
    by (auto intro!: onResult_changes finds_change fail_changes lift bindE_changes saves_change ret_changes
        split: sum.split)
qed

lemma reads_change:
  "changes R (WalletGetter_Get X wid)" "changes R (WagerTransactionGetter_Get X tid)"
  "changes R (GetByProvider X p e)" "changes R (List_ledger X wid cursor limit)" "changes R (Reconcile X wid)"
  unfolding WalletGetter_Get_def WagerTransactionGetter_Get_def GetByProvider_def List_ledger_def Reconcile_def
    reconcile_body_def
  by (intro finds_change lists_change WithinTx_changes bindE_changes liftE_changes ret_changes)+

lemma resolveOne_changes:
  assumes W: "\<And>q. wr_id q = tx_id (fst item) \<Longrightarrow> W q" and T: "T (tx_id (fst item))"
  shows "changes R (resolveOne X rs rd now item)"
proof -
  have W': "W (wager_row_of X tx')" if "tx_core tx' = tx_core (fst item)" for tx'
    using W tx_core_eqD(1) [OF that] by simp
  show ?thesis
    unfolding resolveOne_def Let_def
    using W' T by (auto intro!: bindE_changes save_changes(2) process_changes saves_change ret_changes)
qed

lemma resolve_items_changes:
  assumes "\<And>item. item \<in> set due \<Longrightarrow> (\<forall>q. wr_id q = tx_id (fst item) \<longrightarrow> W q) \<and> T (tx_id (fst item))"
  shows "changes R (resolve_items X rs rds n now due)"
  using assms
proof (induction due arbitrary: n)
  case Nil
  show ?case by (simp only: resolve_items.simps ret_changes)
next
  case (Cons item due)
  have "changes R (resolveOne X rs (rds n) now item)"
    using Cons.prems [of item] by (intro resolveOne_changes) auto
  moreover have "changes R (resolve_items X rs rds (Suc n) now due)"
    using Cons.prems by (intro Cons.IH) auto
  ultimately show ?case by (simp only: resolve_items.simps bindE_changes)
qed

lemma RunOnce_changes: "changes R (RunOnce X send queueURL base now_db now)"
proof -
  have "changes R (attempt X send queueURL base now entry)" for entry
    unfolding attempt_def
    by (auto split: option.split intro!: lift saves_change simp del: SaveAll.simps)
  then show ?thesis
    unfolding RunOnce_def RunOnce_body_def
    by (auto split: sum.split intro!: WithinTx_changes onResult_changes bindE_changes finds_change
        ret_changes fail_changes)
qed

end

section \<open>What is never lost\<close>

definition tables_grow :: "db \<Rightarrow> db \<Rightarrow> bool" where
  "tables_grow d d' \<longleftrightarrow>
     (\<exists>new. db_ledger d' = db_ledger d @ new) \<and>
     (\<forall>i r. lookup_by wl_id i (db_wallets d) = Some r \<longrightarrow> (\<exists>r'. lookup_by wl_id i (db_wallets d') = Some r' \<and>
        wl_player_id r' = wl_player_id r \<and> wl_currency r' = wl_currency r \<and> wl_created_at r' = wl_created_at r)) \<and>
     (\<forall>i r. lookup_by wr_id i (db_wagers d) = Some r \<longrightarrow> (\<exists>r'. lookup_by wr_id i (db_wagers d') = Some r' \<and>
        tx_core (tx_of r') = tx_core (tx_of r) \<and> wr_payload_hash r' = wr_payload_hash r)) \<and>
     (\<forall>i e. lookup_by oe_id i (db_outbox d) = Some e \<longrightarrow> (\<exists>e'. lookup_by oe_id i (db_outbox d') = Some e' \<and>
        e' = e\<lparr>oe_status := oe_status e', oe_retryCount := oe_retryCount e', oe_nextSendAt := oe_nextSendAt e'\<rparr>)) \<and>
     (\<forall>k i. lookup_by inbox_key k (db_inbox d) = Some i \<longrightarrow> (\<exists>i'. lookup_by inbox_key k (db_inbox d') = Some i' \<and>
        in_payloadHash i' = in_payloadHash i \<and> in_createdAt i' = in_createdAt i))"

text \<open>Rows of a keyed table that are kept up to a reflexive and transitive relation.\<close>

definition kept :: "('r \<Rightarrow> 'k) \<Rightarrow> ('r \<Rightarrow> 'r \<Rightarrow> bool) \<Rightarrow> 'r list \<Rightarrow> 'r list \<Rightarrow> bool" where
  "kept key same a b \<longleftrightarrow>
     (\<forall>k r. lookup_by key k a = Some r \<longrightarrow> (\<exists>r'. lookup_by key k b = Some r' \<and> same r r'))"

lemma kept_refl: "(\<And>r. same r r) \<Longrightarrow> kept key same a a"
  by (auto simp: kept_def)

lemma kept_trans:
  assumes "\<And>p q r. same p q \<Longrightarrow> same q r \<Longrightarrow> same p r" "kept key same a b" "kept key same b c"
  shows "kept key same a c"
  using assms unfolding kept_def by meson

context keyed_table begin

lemma kept_upsert:
  "(\<And>r. same r r) \<Longrightarrow> (\<And>old. same old (merge old new)) \<Longrightarrow> kept key same a (upsert key merge new a)"
  by (auto simp: kept_def lookup_upsert)

end

definition same_wallet :: "wallet_row \<Rightarrow> wallet_row \<Rightarrow> bool" where
  "same_wallet r r' \<longleftrightarrow> wl_player_id r' = wl_player_id r \<and> wl_currency r' = wl_currency r \<and>
     wl_created_at r' = wl_created_at r"

definition same_wager :: "wager_row \<Rightarrow> wager_row \<Rightarrow> bool" where
  "same_wager r r' \<longleftrightarrow> tx_core (tx_of r') = tx_core (tx_of r) \<and> wr_payload_hash r' = wr_payload_hash r"

definition same_event :: "outbox_entry \<Rightarrow> outbox_entry \<Rightarrow> bool" where
  "same_event e e' \<longleftrightarrow>
     e' = e\<lparr>oe_status := oe_status e', oe_retryCount := oe_retryCount e', oe_nextSendAt := oe_nextSendAt e'\<rparr>"

definition same_inbox :: "inbox \<Rightarrow> inbox \<Rightarrow> bool" where
  "same_inbox i i' \<longleftrightarrow> in_payloadHash i' = in_payloadHash i \<and> in_createdAt i' = in_createdAt i"

lemmas same_defs = same_wallet_def same_wager_def same_event_def same_inbox_def

lemma tables_grow_kept:
  "tables_grow d d' \<longleftrightarrow> (\<exists>new. db_ledger d' = db_ledger d @ new) \<and>
     kept wl_id same_wallet (db_wallets d) (db_wallets d') \<and>
     kept wr_id same_wager (db_wagers d) (db_wagers d') \<and>
     kept oe_id same_event (db_outbox d) (db_outbox d') \<and>
     kept inbox_key same_inbox (db_inbox d) (db_inbox d')"
  by (simp only: tables_grow_def kept_def same_defs)

lemma same_refl: "same_wallet r r" "same_wager q q" "same_event e e" "same_inbox i i"
  by (simp_all add: same_defs)

lemma same_merge:
  "same_wallet r (wallet_merge r r')" "same_wager q (wager_merge q q')"
  "same_event e (outbox_merge e e')" "same_inbox i (inbox_merge i i')"
  by (simp_all add: same_defs wallet_merge_def wager_merge_def outbox_merge_def inbox_merge_def
      tx_of_def tx_core_def)

lemma same_event_trans: "same_event a b \<Longrightarrow> same_event b c \<Longrightarrow> same_event a c"
  unfolding same_event_def by (cases a; cases b; cases c) simp

interpretation growth: table_law tables_grow "\<lambda>_. True" "\<lambda>_. True" "\<lambda>_. True"
proof unfold_locales
  show "tables_grow a c" if "tables_grow a b" "tables_grow b c" for a b c
  proof -
    have "kept wl_id same_wallet (db_wallets a) (db_wallets c)"
      by (rule kept_trans [of same_wallet wl_id _ "db_wallets b"])
        (use that in \<open>auto simp: tables_grow_kept same_wallet_def\<close>)
    moreover have "kept wr_id same_wager (db_wagers a) (db_wagers c)"
      by (rule kept_trans [of same_wager wr_id _ "db_wagers b"])
        (use that in \<open>auto simp: tables_grow_kept same_wager_def\<close>)
    moreover have "kept oe_id same_event (db_outbox a) (db_outbox c)"
      by (rule kept_trans [of same_event oe_id _ "db_outbox b"])
        (use that same_event_trans in \<open>auto simp: tables_grow_kept\<close>)
    moreover have "kept inbox_key same_inbox (db_inbox a) (db_inbox c)"
      by (rule kept_trans [of same_inbox inbox_key _ "db_inbox b"])
        (use that in \<open>auto simp: tables_grow_kept same_inbox_def\<close>)
    ultimately show ?thesis using that by (auto simp: tables_grow_kept)
  qed
  show "tables_grow d (d\<lparr>db_wagers := map (\<lambda>r. if wr_id r = tid \<and> wr_status r = TxStatusPendingReference
       then r\<lparr>wr_attempts := wr_attempts r + 1, wr_next_retry_at := Some nxt\<rparr> else r) (db_wagers d)\<rparr>)" for d tid nxt
    by (auto simp: tables_grow_kept kept_refl same_refl)
      (auto simp: kept_def lookup_by_map same_wager_def tx_of_def tx_core_def)
qed (auto simp: tables_grow_kept kept_refl same_refl same_merge
    intro: wallets.kept_upsert wagers.kept_upsert outbox.kept_upsert inbox.kept_upsert)

text \<open>No use case ever loses or rewrites history, on any path and with any failure of
  the database: the ledger only grows at its end; no wallet, transaction, event or inbox record
  disappears; owner, currency and creation of a wallet, the content of a transaction with its
  stored hash, the content of an event and the hash of an inbox record never change.\<close>

lemma history_is_kept:
  "tables_grow (s_db s) (s_db (snd (Submit X dr i s))) \<and>
   tables_grow (s_db s) (s_db (snd (Create X cd ci s))) \<and>
   tables_grow (s_db s) (s_db (snd (Reconcile X wid s))) \<and>
   tables_grow (s_db s) (s_db (snd (ResolveDue X rs rds now limit s))) \<and>
   tables_grow (s_db s) (s_db (snd (RunOnce X send q base now_db now s)))"
proof -
  have "changes tables_grow (ResolveDue X rs rds now limit)"
    unfolding ResolveDue_def
    by (intro growth.bindE_changes growth.lists_change growth.resolve_items_changes growth.ret_changes) simp
  note runs = changes_snd [OF this] changes_snd [OF growth.Submit_changes [OF TrueI]]
    changes_snd [OF growth.Create_changes [OF TrueI]] changes_snd [OF growth.reads_change(5)]
    changes_snd [OF growth.RunOnce_changes]
  show ?thesis
    by (intro conjI runs)
qed

end
