(* ===== verification/Resolving.thy ===== *)
theory Resolving
  imports History
begin

text \<open>
  What the resolution of parked reversals does to the books. One run takes a snapshot of the
  due rows and works through it; the lemmas show that working on one row leaves the others as
  the snapshot found them, hence that a run keeps the books whatever fails on the way.
\<close>

section \<open>Programs that end outside a transaction\<close>

definition outside :: "(sess, error, 'a) prog \<Rightarrow> bool" where
  "outside m \<longleftrightarrow> (\<forall>s r t. m s = (r, t) \<longrightarrow> s_tx s = NoTx \<longrightarrow> s_tx t = NoTx)"

named_theorems outside_rules "programs that end outside a transaction when they start outside"

lemma outsideI: "(\<And>s r t. m s = (r, t) \<Longrightarrow> s_tx s = NoTx \<Longrightarrow> s_tx t = NoTx) \<Longrightarrow> outside m"
  by (auto simp: outside_def)

lemma outsideD: "outside m \<Longrightarrow> m s = (r, t) \<Longrightarrow> s_tx s = NoTx \<Longrightarrow> s_tx t = NoTx"
  by (auto simp: outside_def)

lemma outside_basic [outside_rules]: "outside (ret x)" "outside (fail e)" "outside (liftE q)"
  by (simp_all add: outside_def)

lemma outside_bindE [outside_rules]: "outside m \<Longrightarrow> (\<And>x. outside (k x)) \<Longrightarrow> outside (bindE m k)"
  by (rule outsideI) (force simp: bindE_def outside_def split: prod.splits sum.splits)

lemma outside_onResult [outside_rules]: "outside m \<Longrightarrow> (\<And>x. outside (k x)) \<Longrightarrow> outside (onResult m k)"
  by (rule outsideI) (force simp: onResult_def outside_def split: prod.splits)

lemma outside_if [outside_rules]: "outside m \<Longrightarrow> outside n \<Longrightarrow> outside (if b then m else n)"
  by simp

lemma outside_sum [outside_rules]:
  "(\<And>e. outside (f e)) \<Longrightarrow> (\<And>x. outside (g x)) \<Longrightarrow> outside (case r of Inl e \<Rightarrow> f e | Inr x \<Rightarrow> g x)"
  by (cases r) auto

lemma outside_option [outside_rules]:
  "outside f \<Longrightarrow> (\<And>x. outside (g x)) \<Longrightarrow> outside (case r of None \<Rightarrow> f | Some x \<Rightarrow> g x)"
  by (cases r) auto

lemma outside_WithinTx [outside_rules]: "outside (WithinTx fn)"
  by (rule outsideI) (erule WithinTx_cases)

lemma outside_query [outside_rules]: "outside (query stmt)"
  by (rule outsideI) (auto dest!: query_tx)

lemma outside_finds [outside_rules]:
  "outside (Wallet_FindByID X wid)" "outside (FindByPlayerAndCurrency X pid c)"
  "outside (FindLedgerEntryByTransactionID X tid)" "outside (Wager_FindByID X tid)"
  "outside (FindByProviderAndExternalID X p e)" "outside (FindReversal X ref)"
  "outside (FindDueForUpdate now)" "outside (FindByConsumerAndMessage cn m)"
  unfolding finds_read_one by (rule outsideI, erule read_one_tx, assumption)+

lemma outside_writes [outside_rules]:
  "outside (Wallet_Save w)" "outside (Wager_Save X tx)" "outside (SaveLedgerEntry en)"
  "outside (Inbox_Save i)" "outside (ScheduleNextPendingReferenceRetry tid nxt)"
  "outside (FindDuePendingReferences X now limit)"
  unfolding Wallet_Save_def Wager_Save_def SaveLedgerEntry_def Inbox_Save_def
    ScheduleNextPendingReferenceRetry_def FindDuePendingReferences_def
  by (intro outside_rules)+

lemma outside_submission [outside_rules]:
  "outside (saveWithEvent X tx ev)" "outside (parkPendingReference X dr tx cid)"
  "outside (reject X dr tx code cid)" "outside (finishWithoutMovement X dr tx cid)"
  "outside (process_tx X dr tx cid)"
  unfolding parkPendingReference_def reject_def finishWithoutMovement_def saveWithEvent_def
    process_tx_def processReferenced_def processMovement_def Let_def
  by (intro outside_rules)+

lemma outside_Submit [outside_rules]: "outside (Submit X dr i)"
  unfolding Submit_def replay_def balanceAtProcessing_def by (intro outside_rules)

lemma outside_resolveOne [outside_rules]: "outside (resolveOne X rs rd now item)"
  unfolding resolveOne_def Let_def by (intro outside_rules)

section \<open>Work on one row leaves the others alone\<close>

definition others_kept :: "uuid \<Rightarrow> db \<Rightarrow> db \<Rightarrow> bool" where
  "others_kept i d d' \<longleftrightarrow>
     (\<forall>j. j \<noteq> i \<longrightarrow> lookup_by wr_id j (db_wagers d') = lookup_by wr_id j (db_wagers d))"

text \<open>The retry schedule of a row is no part of the books.\<close>

definition reschedule :: "uuid \<Rightarrow> time \<Rightarrow> wager_row \<Rightarrow> wager_row" where
  "reschedule i nxt r = (if wr_id r = i \<and> wr_status r = TxStatusPendingReference
     then r\<lparr>wr_attempts := wr_attempts r + 1, wr_next_retry_at := Some nxt\<rparr> else r)"

interpretation others: table_law "others_kept i" "\<lambda>q. wr_id q = i" "\<lambda>t. t = i" "\<lambda>_. True"
proof unfold_locales
  show "others_kept i d (d\<lparr>db_wagers := map (\<lambda>r. if wr_id r = tid \<and> wr_status r = TxStatusPendingReference
       then r\<lparr>wr_attempts := wr_attempts r + 1, wr_next_retry_at := Some nxt\<rparr> else r) (db_wagers d)\<rparr>)"
    if "tid = i" for d tid nxt
    unfolding others_kept_def
  proof (intro allI impI)
    fix j assume j: "j \<noteq> i"
    show "lookup_by wr_id j (db_wagers (d\<lparr>db_wagers := map (\<lambda>r. if wr_id r = tid \<and> wr_status r = TxStatusPendingReference
       then r\<lparr>wr_attempts := wr_attempts r + 1, wr_next_retry_at := Some nxt\<rparr> else r) (db_wagers d)\<rparr>)) =
       lookup_by wr_id j (db_wagers d)"
      using that j
      by (cases "lookup_by wr_id j (db_wagers d)") (auto simp: lookup_by_map dest: lookup_by_SomeD)
  qed
qed (auto simp: others_kept_def wagers.lookup_upsert)

lemma resolveOne_others: "changes (others_kept (tx_id (fst item))) (resolveOne X rs rd now item)"
  by (rule others.resolveOne_changes) simp_all

lemma books_reschedule:
  assumes "books d"
  shows "books (d\<lparr>db_wagers := map (reschedule i nxt) (db_wagers d)\<rparr>)" (is "books ?d")
proof -
  have keep: "reschedule i nxt r = r" if "wr_status r = TxStatusProcessed" for r
    using that by (simp add: reschedule_def)
  have P: "processed ?d = processed d"
    using keep by (force simp: processed_def reschedule_def image_iff)
  have "kind_at ?d j = kind_at d j" for j
    by (cases "lookup_by wr_id j (db_wagers d)") (simp_all add: kind_at_def lookup_by_map reschedule_def)
  then have K: "kind_at ?d = kind_at d" ..
  have M: "movement_of ?d = movement_of d" by (simp add: movement_of_def K fun_eq_iff)
  have B: "backs ?d = backs d" by (simp add: backs_def M fun_eq_iff)
  have I: "map wr_id (db_wagers ?d) = map wr_id (db_wagers d)" by (simp add: reschedule_def)
  show ?thesis
    using assms
    by (simp only: books_def keys_ok_def chains_ok_def entries_backed_def movements_booked_def
        reversals_ok_def currencies_ok_def P M B I entries_of_def) simp
qed


lemma ScheduleNext_books:
  assumes "ScheduleNextPendingReferenceRetry i nxt s = (r, t)" and "books (s_db s)"
  shows "books (s_db t)"
  using query_db [OF assms(1) [unfolded ScheduleNextPendingReferenceRetry_def]] assms(2)
    books_reschedule [OF assms(2), of i nxt]
  by (auto simp: reschedule_def [abs_def])

section \<open>One item, and a run\<close>

text \<open>An item as the snapshot found it: the row is still there, with its content, and can be written.\<close>

definition open_item :: "external \<Rightarrow> db \<Rightarrow> transaction \<times> i64 \<Rightarrow> bool" where
  "open_item X d item \<longleftrightarrow> writable d (wager_row_of X (fst item))"

lemma open_item_others:
  assumes "others_kept i d d'" and "tx_id (fst item) \<noteq> i"
  shows "open_item X d' item = open_item X d item"
  using assms by (simp add: open_item_def writable_def others_kept_def)

lemma resolveOne_books:
  assumes run: "resolveOne X rs rd now item s = (r, t)" and s: "s_tx s = NoTx" "books (s_db s)"
    and item: "open_item X (s_db s) item"
  shows "books (s_db t)"
proof -
  have set: "settled s q" for q :: "error + 'a" using s(1) by (simp add: settled_def)
  show ?thesis
  proof (cases "is_expired rs now (fst item) (snd item)")
    case True
    with run obtain q where "reject X (rd_draws rd) (fst item) FailureCodeReferenceNotFound
        (rd_correlationID rd) s = (q, t)"
      by (auto simp: resolveOne_def bindE_def split: prod.splits sum.splits)
    then show ?thesis
      using s(2) item unfolding open_item_def by (rule reject_books [OF _ set])
  next
    case False
    obtain q s1 where q: "process_tx X (rd_draws rd) (fst item) (rd_correlationID rd) s = (q, s1)" by fastforce
    have s1: "books (s_db s1)"
      using q set s(2) item unfolding open_item_def by (rule process_tx_books)
    from run False q consider "t = s1"
      | nxt q' where "ScheduleNextPendingReferenceRetry (tx_id (fst item)) nxt s1 = (q', t)"
      by (auto simp: resolveOne_def Let_def bindE_def split: prod.splits sum.splits if_splits)
    then show ?thesis using s1 by cases (auto intro: ScheduleNext_books)
  qed
qed

lemma resolve_items_books:
  assumes "resolve_items X rs rds n now items s = (r, t)" and "s_tx s = NoTx" and "books (s_db s)"
    and "distinct (map (tx_id \<circ> fst) items)" and "\<And>item. item \<in> set items \<Longrightarrow> open_item X (s_db s) item"
  shows "books (s_db t)"
  using assms
proof (induction items arbitrary: n s)
  case (Cons item items)
  obtain q s1 where q: "resolveOne X rs (rds n) now item s = (q, s1)" by fastforce
  have b: "books (s_db s1)"
    using q Cons.prems(2,3,5) by (intro resolveOne_books [OF q]) simp_all
  show ?case
  proof (cases q)
    case (Inl e)
    with Cons.prems(1) q b show ?thesis by (simp add: bindE_def)
  next
    case (Inr o1)
    have others: "others_kept (tx_id (fst item)) (s_db s) (s_db s1)"
      using resolveOne_others q by (rule changesD)
    have "open_item X (s_db s1) it" if it: "it \<in> set items" for it
    proof -
      have "tx_id (fst item) \<notin> (\<lambda>x. tx_id (fst x)) ` set items"
        using Cons.prems(4) by (simp add: comp_def)
      moreover have "tx_id (fst it) \<in> (\<lambda>x. tx_id (fst x)) ` set items" using it by blast
      ultimately have "tx_id (fst it) \<noteq> tx_id (fst item)" by metis
      from open_item_others [OF others this] it show ?thesis using Cons.prems(5) by simp
    qed
    moreover have "s_tx s1 = NoTx"
      using outside_resolveOne q Cons.prems(2) by (rule outsideD)
    ultimately show ?thesis
      using Cons.IH [of "Suc n" s1] Cons.prems(1,4) q Inr b by (simp add: bindE_def)
  qed
qed simp

text \<open>The snapshot: distinct rows of the table, parked and due, at most \<open>limit\<close> of them.\<close>

lemma scan_due:
  assumes "scan_rows (scanWagerTransactionWithAttempts X) rows = Inr due"
  shows "due = map (\<lambda>r. (tx_of r, wr_attempts r)) rows"
  using assms
  by (induction rows arbitrary: due) (auto simp: bindR_Inr_iff scanWagerTransactionWithAttempts_eq split: if_splits)

lemma FindDue_InrE:
  assumes "FindDuePendingReferences X now limit s = (Inr due, t)"
  obtains rows where "due = map (\<lambda>r. (tx_of r, wr_attempts r)) rows"
    "rows = take (nat (sint limit)) (sort_key wr_created_at (filter (is_due_row now) (db_wagers (s_db s))))"
    "s_db t = s_db s"
proof -
  from assms obtain rows where r: "scan_rows (scanWagerTransactionWithAttempts X) rows = Inr due" and
    "query (\<lambda>d. (Inr (take (nat (sint limit)) (sort_key wr_created_at
       (filter (is_due_row now) (db_wagers d)))), d)) s = (Inr rows, t)"
    unfolding FindDuePendingReferences_def by (auto elim: bindE_InrE)
  from this(2) have "rows = take (nat (sint limit)) (sort_key wr_created_at
      (filter (is_due_row now) (db_wagers (s_db s))))" "s_db t = s_db s"
    by (auto elim: query_InrE)
  with scan_due [OF r] that show thesis by blast
qed

lemma open_row:
  assumes "distinct (map wr_id (db_wagers d))" and "r \<in> set (db_wagers d)"
    and "wr_status r = TxStatusPendingReference"
  shows "open_item X d (tx_of r, n)"
proof -
  have "tx_id (tx_of r) = wr_id r" by (simp add: tx_of_def)
  then show ?thesis
    using lookup_by_eqI [OF assms(1,2)] assms(3)
    by (simp add: open_item_def writable_def same_content_def)
qed

lemma due_rows:
  assumes "distinct (map wr_id (db_wagers d))"
    and "rows = take n (sort_key wr_created_at (filter (is_due_row now) (db_wagers d)))"
  shows "distinct (map wr_id rows)"
    and "r \<in> set rows \<Longrightarrow> r \<in> set (db_wagers d) \<and> wr_status r = TxStatusPendingReference"
proof -
  have "distinct (map wr_id (filter (is_due_row now) (db_wagers d)))"
    using assms(1) by (simp add: distinct_map_filter)
  then have "distinct (map wr_id (sort_key wr_created_at (filter (is_due_row now) (db_wagers d))))"
    by (simp add: distinct_map)
  then show "distinct (map wr_id rows)"
    unfolding assms(2) by (simp add: take_map [symmetric] distinct_take)
  show "r \<in> set rows \<Longrightarrow> r \<in> set (db_wagers d) \<and> wr_status r = TxStatusPendingReference"
    unfolding assms(2) by (auto dest!: in_set_takeD simp: is_due_row_def)
qed

text \<open>A run of the resolver keeps the books, whatever is due and whatever fails on the
  way: with the books balanced before, they are balanced after, also when the run stops at an
  error or loses the reply to a commit.\<close>

lemma ResolveDue_keeps_books:
  assumes "books (s_db s)" and "s_tx s = NoTx"
  shows "books (s_db (snd (ResolveDue X rs rds now limit s)))"
proof -
  obtain q s1 where q: "FindDuePendingReferences X now limit s = (q, s1)" by fastforce
  have s1: "s_db s1 = s_db s" "s_tx s1 = NoTx"
    using q assms(2) outsideD [OF outside_writes(6) q]
    by (auto simp: FindDuePendingReferences_def bindE_def split: prod.splits sum.splits dest: query_read_db)
  show ?thesis
  proof (cases q)
    case (Inl e)
    with q s1 assms(1) show ?thesis by (simp add: ResolveDue_def bindE_def)
  next
    case (Inr due)
    obtain rows where due: "due = map (\<lambda>r. (tx_of r, wr_attempts r)) rows" and
      rows: "rows = take (nat (sint limit)) (sort_key wr_created_at (filter (is_due_row now) (db_wagers (s_db s))))"
      using q [unfolded Inr] by (rule FindDue_InrE)
    note R = due_rows [OF booksD(2) [OF assms(1)] rows]
    obtain r t where run: "resolve_items X rs rds 0 now due s1 = (r, t)" by fastforce
    have "books (s_db t)"
    proof (rule resolve_items_books [OF run s1(2)])
      show "distinct (map (tx_id \<circ> fst) due)"
        using R(1) by (simp add: due comp_def tx_of_def)
      show "open_item X (s_db s1) item" if "item \<in> set due" for item
        using that R(2) open_row [OF booksD(2) [OF assms(1)]] by (auto simp: due s1(1))
    qed (use assms(1) s1 in simp)
    then show ?thesis
      using q Inr run by (simp add: ResolveDue_def bindE_def split: sum.split)
  qed
qed

section \<open>Two resolvers\<close>

text \<open>A refund parked before its bet arrived, and the snapshot two instances take of it.\<close>

definition parked_db :: db where
  "parked_db = put_wager (wager_row_of sample_external (sample_refund TxStatusPendingReference None)) bet_db"

definition sample_resolver :: resolver where
  "sample_resolver = \<lparr>rs_maxAttempts = 5, rs_ttl = 1000000, rs_backoffBase = 1000\<rparr>"

definition sample_resolve_draws :: "uuid \<Rightarrow> resolve_draws" where
  "sample_resolve_draws n = \<lparr>rd_correlationID = ''c'', rd_draws = sample_draws\<lparr>dr_entry_id := n,
     dr_event := sample_draw\<lparr>ed_id := n + 1\<rparr>, dr_event2 := sample_draw\<lparr>ed_id := n + 2\<rparr>\<rparr>\<rparr>"

abbreviation "resolve_parked n \<equiv> resolveOne sample_external sample_resolver (sample_resolve_draws n) 100
  (sample_refund TxStatusPendingReference None, 0)"

abbreviation "after_first \<equiv> snd (resolve_parked 40 (calm NoTx parked_db))"
abbreviation "after_second \<equiv> snd (resolve_parked 50 after_first)"

lemma parked_db_eq:
  "parked_db = bet_db\<lparr>db_wagers := db_wagers bet_db @
     [wager_row_of sample_external (sample_refund TxStatusPendingReference None)]\<rparr>"
  by (simp add: parked_db_def put_wager_def bet_db_eq upsert_def wager_row_of_def sample_refund_def
      sample_opening_def sample_bet_def)

lemma books_parked: "books parked_db"
  unfolding parked_db_def
  by (rule books_put_wager [OF books_bet])
    (simp_all add: writable_new bet_db_eq wager_row_of_def sample_refund_def sample_opening_def sample_bet_def
      writable_def)

lemma ResolveDue_keeps_books_sample:
  "books (s_db (snd (ResolveDue sample_external sample_resolver (\<lambda>_. sample_resolve_draws 40) 100 50 (calm NoTx parked_db))))"
  using ResolveDue_keeps_books [of "calm NoTx parked_db"] books_parked by simp

lemma resolved_once:
  "fst (resolve_parked 40 (calm NoTx parked_db)) = Inr Resolved"
  "map wl_balance (db_wallets (s_db after_first)) = [5000]"
  by code_simp+

lemma resolved_twice:
  "fst (resolve_parked 50 after_first) = Inr Resolved"
  "filter (\<lambda>q. wr_status q = TxStatusProcessed \<and> wr_id q = 8) (db_wagers (s_db after_second)) = []"
  "\<exists>e\<in>set (db_ledger (s_db after_second)). lr_transaction_id e = 8"
  by code_simp+

lemma twice_not_books: "\<not> books (s_db after_second)"
proof
  assume b: "books (s_db after_second)"
  obtain e where "e \<in> set (db_ledger (s_db after_second))" "lr_transaction_id e = 8"
    using resolved_twice(3) by blast
  then obtain q where "q \<in> processed (s_db after_second)" "wr_id q = 8"
    using booksD(6) [OF b, of e] unfolding backs_def by metis
  then have "q \<in> set (filter (\<lambda>q. wr_status q = TxStatusProcessed \<and> wr_id q = 8) (db_wagers (s_db after_second)))"
    by (simp add: processed_def)
  then show False unfolding resolved_twice(2) by simp
qed

lemma books_once: "books (s_db after_first)"
proof -
  obtain r t where "resolve_parked 40 (calm NoTx parked_db) = (r, t)" by fastforce
  moreover have "open_item sample_external parked_db (sample_refund TxStatusPendingReference None, 0)"
    by code_simp
  ultimately show ?thesis using resolveOne_books [of _ _ _ _ _ "calm NoTx parked_db" r t] books_parked by simp
qed

text \<open>The rollback of the bet a provider sends next.\<close>

abbreviation "after_rollback \<equiv> Submit sample_external
  (sample_draws\<lparr>dr_entry_id := 60, dr_event := sample_draw\<lparr>ed_id := 61\<rparr>, dr_event2 := sample_draw\<lparr>ed_id := 62\<rparr>\<rparr>)
  (sample_input KindRollback ''rollback-1'' 3000 (Some ''bet-1'')) after_second"

text \<open>Claim C33. Two resolvers are not safe. The snapshot is read without a lock and the row is not
  read again, so when two instances hold the same parked refund the first credits it and the
  second finds the refund itself as the earlier reversal, and overwrites its status with
  \<open>REJECTED\<close>. The credit stays without a processed transaction, the books no longer balance, and a
  later rollback of the same bet is accepted: a bet of 3000 taken from a wallet opened with
  5000 ends with a balance of 8000.\<close>

theorem two_resolvers_pay_twice:
  "books parked_db \<and> fst (resolve_parked 40 (calm NoTx parked_db)) = Inr Resolved \<and> books (s_db after_first) \<and>
   fst (resolve_parked 50 after_first) = Inr Resolved \<and> \<not> books (s_db after_second) \<and>
   map_sum id (\<lambda>res. (tx_status (sr_Transaction res), m_amount (sr_Balance res))) (fst after_rollback) =
     Inr (TxStatusProcessed, 8000)"
proof (intro conjI)
  show "map_sum id (\<lambda>res. (tx_status (sr_Transaction res), m_amount (sr_Balance res))) (fst after_rollback) =
     Inr (TxStatusProcessed, 8000)"
    by code_simp
qed (rule books_parked resolved_once books_once resolved_twice twice_not_books)+

end
