(* ===== verification/Nested.thy ===== *)
theory Nested
  imports Resolving
begin

text \<open>
  A submission inside a transaction somebody else opened, which is how the SQS consumer calls
  it. PostgreSQL refuses every statement after a failed one, so a submission that loses the
  race for its key cannot look the winner up there. \<open>in_tx m\<close> collects the two facts this
  needs of a program: it never leaves the transaction it runs in, and when it reports that the
  transaction row exists already, the transaction is aborted.
\<close>

abbreviation "raced \<equiv> AppE ErrWagerTransactionAlreadyExists"

definition joins :: "(sess, error, 'a) prog \<Rightarrow> bool" where
  "joins m \<longleftrightarrow> (\<forall>s r t. m s = (r, t) \<longrightarrow> s_tx s \<noteq> NoTx \<longrightarrow> s_tx t \<noteq> NoTx \<and> (s_tx s = TxAborted \<longrightarrow> s_tx t = TxAborted))"

definition race_aborts :: "(sess, error, 'a) prog \<Rightarrow> bool" where
  "race_aborts m \<longleftrightarrow> (\<forall>s t. m s = (Inl raced, t) \<longrightarrow> s_tx s \<noteq> NoTx \<longrightarrow> s_tx t = TxAborted)"

definition in_tx :: "(sess, error, 'a) prog \<Rightarrow> bool" where
  "in_tx m \<longleftrightarrow> joins m \<and> race_aborts m"

named_theorems in_tx_rules "programs that stay in their transaction and abort it when they lose a race"

lemma joinsD: "joins m \<Longrightarrow> m s = (r, t) \<Longrightarrow> s_tx s \<noteq> NoTx \<Longrightarrow> s_tx t \<noteq> NoTx"
  "joins m \<Longrightarrow> m s = (r, t) \<Longrightarrow> s_tx s = TxAborted \<Longrightarrow> s_tx t = TxAborted"
  by (auto simp: joins_def)

lemma in_txD:
  "in_tx m \<Longrightarrow> m s = (r, t) \<Longrightarrow> s_tx s \<noteq> NoTx \<Longrightarrow> s_tx t \<noteq> NoTx"
  "in_tx m \<Longrightarrow> m s = (r, t) \<Longrightarrow> s_tx s = TxAborted \<Longrightarrow> s_tx t = TxAborted"
  "in_tx m \<Longrightarrow> m s = (Inl raced, t) \<Longrightarrow> s_tx s \<noteq> NoTx \<Longrightarrow> s_tx t = TxAborted"
  by (auto simp: in_tx_def joins_def race_aborts_def)

lemma in_txI:
  assumes "\<And>s r t. m s = (r, t) \<Longrightarrow> s_tx s \<noteq> NoTx \<Longrightarrow> s_tx t \<noteq> NoTx"
    and "\<And>s r t. m s = (r, t) \<Longrightarrow> s_tx s = TxAborted \<Longrightarrow> s_tx t = TxAborted"
    and "\<And>s t. m s = (Inl raced, t) \<Longrightarrow> s_tx s \<noteq> NoTx \<Longrightarrow> s_tx t = TxAborted"
  shows "in_tx m"
  using assms unfolding in_tx_def joins_def race_aborts_def by blast

lemma in_tx_joins: "in_tx m \<Longrightarrow> joins m"
  by (simp add: in_tx_def)

lemma joins_fail: "joins (fail e)"
  by (simp add: joins_def)

lemma in_tx_ret [in_tx_rules]: "in_tx (ret x)"
  by (rule in_txI) simp_all

lemma in_tx_fail [in_tx_rules]: "e \<noteq> raced \<Longrightarrow> in_tx (fail e)"
  by (rule in_txI) simp_all

lemma in_tx_liftE [in_tx_rules]: "r \<noteq> Inl raced \<Longrightarrow> in_tx (liftE r)"
  by (rule in_txI) auto

lemma in_tx_bindE [in_tx_rules]:
  assumes m: "in_tx m" and k: "\<And>x. in_tx (k x)"
  shows "in_tx (bindE m k)"
proof (rule in_txI)
  fix s r t assume run: "bindE m k s = (r, t)"
  obtain q u where q: "m s = (q, u)" by fastforce
  show "s_tx t \<noteq> NoTx" if "s_tx s \<noteq> NoTx"
    using run q that in_txD(1) [OF m q] in_txD(1) [OF k] by (cases q) (auto simp: bindE_def)
  show "s_tx t = TxAborted" if "s_tx s = TxAborted"
    using run q that in_txD(2) [OF m q] in_txD(2) [OF k] by (cases q) (auto simp: bindE_def)
next
  fix s t assume run: "bindE m k s = (Inl raced, t)" and s: "s_tx s \<noteq> NoTx"
  from run show "s_tx t = TxAborted"
  proof (cases rule: bindE_InlE)
    case first
    with s show ?thesis by (rule in_txD(3) [OF m, rotated])
  next
    case (second x u)
    from in_txD(1) [OF m second(1) s] show ?thesis by (rule in_txD(3) [OF k second(2)])
  qed
qed

text \<open>A program that looks at the result of another one may pass the lost race on.\<close>

lemma in_tx_onResult [in_tx_rules]:
  assumes m: "in_tx m" and k: "\<And>r. r \<noteq> Inl raced \<Longrightarrow> in_tx (k r)" and j: "joins (k (Inl raced))"
  shows "in_tx (onResult m k)"
proof (rule in_txI)
  have jk: "joins (k r)" for r using k j in_tx_joins by (cases "r = Inl raced") auto
  fix s r t assume run: "onResult m k s = (r, t)"
  then obtain q u where q: "m s = (q, u)" "k q u = (r, t)" by (rule onResultE)
  show "s_tx t \<noteq> NoTx" if "s_tx s \<noteq> NoTx"
    using in_txD(1) [OF m q(1) that] by (rule joinsD(1) [OF jk q(2)])
  show "s_tx t = TxAborted" if "s_tx s = TxAborted"
    using in_txD(2) [OF m q(1) that] by (rule joinsD(2) [OF jk q(2)])
next
  fix s t assume run: "onResult m k s = (Inl raced, t)" and s: "s_tx s \<noteq> NoTx"
  then obtain q u where q: "m s = (q, u)" "k q u = (Inl raced, t)" by (auto elim: onResultE)
  show "s_tx t = TxAborted"
  proof (cases "q = Inl raced")
    case True
    with q have "s_tx u = TxAborted" using in_txD(3) [OF m] s by simp
    then show ?thesis using joinsD(2) [OF j] q True by simp
  next
    case False
    from in_txD(1) [OF m q(1) s] show ?thesis by (rule in_txD(3) [OF k [OF False] q(2)])
  qed
qed

lemma in_tx_if [in_tx_rules]: "(b \<Longrightarrow> in_tx m) \<Longrightarrow> (\<not> b \<Longrightarrow> in_tx n) \<Longrightarrow> in_tx (if b then m else n)"
  by simp

lemma in_tx_option [in_tx_rules]:
  "in_tx f \<Longrightarrow> (\<And>x. r = Some x \<Longrightarrow> in_tx (g x)) \<Longrightarrow> in_tx (case r of None \<Rightarrow> f | Some x \<Rightarrow> g x)"
  by (cases r) auto

lemma in_tx_sum [in_tx_rules]:
  "(\<And>e. r = Inl e \<Longrightarrow> in_tx (f e)) \<Longrightarrow> (\<And>x. r = Inr x \<Longrightarrow> in_tx (g x)) \<Longrightarrow>
     in_tx (case r of Inl e \<Rightarrow> f e | Inr x \<Rightarrow> g x)"
  by (cases r) auto

lemma in_tx_WithinTx [in_tx_rules]:
  assumes "in_tx fn"
  shows "in_tx (WithinTx fn)"
  by (rule in_txI) (auto simp: WithinTx_nested dest: in_txD [OF assms])

lemma query_aborted: "s_tx s = TxAborted \<Longrightarrow> query stmt s = (Inl (PgE InFailedTransaction), s)"
  by (simp add: query_def)

lemma in_tx_query [in_tx_rules]: "in_tx (query stmt)"
proof (rule in_txI)
  show "s_tx t \<noteq> NoTx" if "query stmt s = (r, t)" "s_tx s \<noteq> NoTx" for s r t
    using query_tx [OF that(1)] that(2) by auto
  show "s_tx t = TxAborted" if "query stmt s = (r, t)" "s_tx s = TxAborted" for s r t
    using query_tx [OF that(1)] that(2) by auto
  show "s_tx t = TxAborted" if "query stmt s = (Inl raced, t)" for s t
    using query_pg_error [OF that] by auto
qed

lemma no_rows_as_not_raced:
  "nf \<noteq> ErrWagerTransactionAlreadyExists \<Longrightarrow> r \<noteq> Inl raced \<Longrightarrow> no_rows_as nf r \<noteq> Inl raced"
  by (auto simp: no_rows_as_def split: sum.splits error.splits pg_error.splits)

lemma in_tx_read_one:
  assumes "nf \<noteq> ErrWagerTransactionAlreadyExists" and "\<And>y. scan y \<noteq> Inl raced"
  shows "in_tx (read_one nf f scan)"
proof -
  have "bindR r scan \<noteq> Inl raced" if "r \<noteq> Inl raced" for r
    using that assms(2) by (cases r) auto
  then show ?thesis
    unfolding read_one_def using assms(1)
    by (intro in_tx_onResult in_tx_query in_tx_liftE no_rows_as_not_raced)
      (auto simp: joins_def)
qed

lemma scans_not_raced:
  "scanWallet X w \<noteq> Inl raced" "scanWagerTransaction X q \<noteq> Inl raced" "scanLedgerEntry X l \<noteq> Inl raced"
  by (auto dest: scan_errors)

lemma in_tx_finds [in_tx_rules]:
  "in_tx (Wallet_FindByID X wid)" "in_tx (FindByProviderAndExternalID X p e)"
  "in_tx (FindReversal X ref)" "in_tx (FindLedgerEntryByTransactionID X tid)"
  unfolding finds_read_one by (intro in_tx_read_one scans_not_raced, simp)+

text \<open>The one place a lost race comes from: the violated constraint aborts the transaction.\<close>

lemma in_tx_Wager_Save [in_tx_rules]: "in_tx (Wager_Save X tx)"
proof (rule in_txI)
  fix s r t assume "Wager_Save X tx s = (r, t)"
  then obtain q where q: "query (insert_wager (wager_row_of X tx)) s = (q, t)"
    by (auto simp: Wager_Save_def elim!: onResultE split: sum.splits if_splits)
  show "s_tx s \<noteq> NoTx \<Longrightarrow> s_tx t \<noteq> NoTx" "s_tx s = TxAborted \<Longrightarrow> s_tx t = TxAborted"
    using in_txD(1,2) [OF in_tx_query q] by simp_all
next
  fix s t assume run: "Wager_Save X tx s = (Inl raced, t)" and s: "s_tx s \<noteq> NoTx"
  then have "query (insert_wager (wager_row_of X tx)) s =
      (Inl (PgE (UniqueViolation ''wager_transactions_provider_external_unique'')), t)"
    using query_pg_error by (fastforce simp: Wager_Save_def elim!: onResultE split: sum.splits if_splits)
  with s show "s_tx t = TxAborted"
    by (cases "s_tx s") (auto simp: query_def abort_tx_def driver_error_def wrapTransientErr_def next_fault_simps
        split: if_splits prod.splits option.splits sum.splits)
qed

lemma in_tx_Wallet_Save [in_tx_rules]: "in_tx (Wallet_Save w)"
  unfolding Wallet_Save_def
  by (intro in_tx_onResult in_tx_query) (auto intro!: in_tx_rules split: sum.split simp: joins_def)

lemma in_tx_SaveLedgerEntry [in_tx_rules]: "in_tx (SaveLedgerEntry en)"
  unfolding SaveLedgerEntry_def by (rule in_tx_query)

lemma in_tx_SaveAll [in_tx_rules]: "in_tx (SaveAll es)"
proof (induction es)
  case (Cons e es)
  then show ?case unfolding SaveAll.simps by (intro in_tx_bindE in_tx_query)
qed (simp only: SaveAll.simps in_tx_ret)


section \<open>The submission\<close>

lemma domain_not_raced:
  "MarkProcessed now tx \<noteq> Inl raced" "MarkRejected code now tx \<noteq> Inl raced"
  "MarkPendingReference now tx \<noteq> Inl raced" "ResolveReference now rid tx \<noteq> Inl raced"
  "NewLedgerEntry i now inp \<noteq> Inl raced" "movementDirection k ref \<noteq> Inl raced"
  "NewTransaction i now nt \<noteq> Inl raced" "move_wallet dir w a \<noteq> Inl raced"
  by (auto simp: MarkProcessed_def MarkRejected_def MarkPendingReference_def ResolveReference_def
      NewLedgerEntry_def movementDirection_def NewTransaction_def move_wallet_def Wallet_Debit_def
      Wallet_Credit_def Money_Subtract_def Money_Negate_def Money_Add_def ParseKind_def
      bindR_def Let_def
      split: if_splits sum.splits option.splits kind.splits direction.splits)

lemma events_not_raced:
  "newWagerTransactionProcessedEvent X d tx cid \<noteq> Inl raced"
  "newWagerTransactionRejectedEvent X d tx cid \<noteq> Inl raced"
  "newWagerTransactionPendingReferenceEvent X d tx cid \<noteq> Inl raced"
  "newWalletBalanceChangedEvent X d w en cid ca \<noteq> Inl raced"
  by (auto simp: newWagerTransactionProcessedEvent_def newWagerTransactionRejectedEvent_def
      newWagerTransactionPendingReferenceEvent_def newWalletBalanceChangedEvent_def NewEntry_def
      split: if_splits option.splits)

lemma in_tx_outcomes [in_tx_rules]:
  "in_tx (saveWithEvent X tx ev)" "in_tx (rejectInTx X dr tx code w cid)" "in_tx (reject X dr tx code cid)"
  unfolding saveWithEvent_def rejectInTx_def reject_def
  by (intro in_tx_rules domain_not_raced events_not_raced)+

lemma in_tx_parkPendingReference [in_tx_rules]: "in_tx (parkPendingReference X dr tx cid)"
  unfolding parkPendingReference_def Let_def
  by (intro in_tx_rules domain_not_raced events_not_raced)

lemma in_tx_finishWithoutMovement [in_tx_rules]: "in_tx (finishWithoutMovement X dr tx cid)"
  unfolding finishWithoutMovement_def
  by (intro in_tx_rules domain_not_raced events_not_raced) simp

lemma in_tx_moveInTx [in_tx_rules]: "in_tx (moveInTx X dr tx dir w cid)"
  unfolding moveInTx_def Let_def move_wallet_def [symmetric]
proof (rule in_tx_sum)
  fix e assume "move_wallet dir w (tx_amount tx) = Inl e"
  then have "e \<noteq> raced" using domain_not_raced(8) by metis
  then show "in_tx (if e \<noteq> WalletE ErrInsufficientBalance then fail e
      else rejectInTx X dr tx (if tx_kind tx \<noteq> KindBet then FailureCodeReversalExceedsBalance
         else FailureCodeInsufficientBalance) w cid)"
    by (intro in_tx_if in_tx_fail in_tx_outcomes)
qed (intro in_tx_rules domain_not_raced events_not_raced)

lemma joins_error: "joins (case Inl e of Inl e \<Rightarrow> if e \<noteq> c then fail e else m | Inr x \<Rightarrow> n x)" if "e \<noteq> c"
  using that by (simp add: joins_fail)

lemma in_tx_processInTx [in_tx_rules]: "in_tx (processInTx X dr tx referenced dir cid)"
  unfolding processInTx_def
  by (intro in_tx_rules; simp add: joins_fail)

lemma in_tx_processMovement [in_tx_rules]: "in_tx (processMovement X dr tx referenced cid)"
  unfolding processMovement_def
  by (intro in_tx_rules domain_not_raced)

lemma in_tx_process_tx [in_tx_rules]: "in_tx (process_tx X dr tx cid)"
proof -
  have "in_tx (processReferenced X dr tx cid r)" if "r \<noteq> Inl raced" for r
    unfolding processReferenced_def using that
    by (intro in_tx_rules domain_not_raced) auto
  moreover have "joins (processReferenced X dr tx cid (Inl raced))"
    by (simp add: processReferenced_def joins_fail)
  ultimately show ?thesis
    unfolding process_tx_def by (intro in_tx_rules) simp_all
qed

lemma aborted_lookup:
  "s_tx s = TxAborted \<Longrightarrow> FindByProviderAndExternalID X p e s = (Inl (PgE InFailedTransaction), s)"
  by (simp add: finds_read_one read_one_def onResult_def query_aborted no_rows_as_def)

lemma Submit_raced_fails:
  assumes "Submit X dr i s = (Inr res, t)" and "s_tx s \<noteq> NoTx"
    and "NewTransaction (dr_tx_id dr) (dr_tx_now dr) (candidate_input i) = Inr c"
    and "FindByProviderAndExternalID X (si_ProviderID i) (si_ExternalTransactionID i) s =
      (Inl (AppE ErrWagerTransactionNotFound), s1)"
    and "process_tx X dr c (si_CorrelationID i) s1 = (Inl raced, s2)"
  shows False
proof -
  have "s_tx s1 \<noteq> NoTx" using in_txD(1) [OF in_tx_finds(2) assms(4) assms(2)] .
  then have "s_tx s2 = TxAborted" by (rule in_txD(3) [OF in_tx_process_tx assms(5)])
  with assms show ?thesis by (simp add: Submit_def bindE_def onResult_def aborted_lookup)
qed

text \<open>Hence a submission that succeeds keeps the books inside a transaction as it does outside.\<close>

lemma Submit_books:
  assumes "Submit X dr i s = (r, t)" and "settled s r" and b: "books (s_db s)"
    and new: "lookup_by wr_id (dr_tx_id dr) (db_wagers (s_db s)) = None"
  shows "books (s_db t)"
  using assms(1)
proof (cases rule: Submit_cases)
  case (processed c s1)
  have "tx_id c = dr_tx_id dr" using NewTransaction_Inr(1) [OF processed(1)] by simp
  moreover note find_wager_not_found [OF processed(2)]
  moreover from this have "settled s1 r" using assms(2) by (simp add: settled_def)
  ultimately show ?thesis
    using process_tx_books [OF processed(3)] b new by (simp add: writable_new)
next
  case (raced c s1 s2)
  note nf = find_wager_not_found [OF raced(2)]
  have id: "tx_id c = dr_tx_id dr" using NewTransaction_Inr(1) [OF raced(1)] by simp
  show ?thesis
  proof (cases "s_tx s = NoTx")
    case True
    with process_tx_books [OF raced(3)] nf id b new raced(4) show ?thesis by (simp add: writable_new)
  next
    case False
    with assms(2) obtain res where "r = Inr res" by (auto simp: settled_def)
    with Submit_raced_fails [OF _ False raced(1-3)] assms(1) show ?thesis by blast
  qed
qed (use b in \<open>auto dest!: find_wager_db replay_db\<close>)



end
