(* ===== verification/Metrics.thy ===== *)
theory Metrics
  imports Prelude
begin

text \<open>
  \<open>internal/metrics/metrics.go\<close>: the Prometheus registry of the process.

  A counter vector is a function from its label values to a count, a histogram the list of the
  values it was given, in order, a gauge vector the last value of each label. \<open>collectors\<close> is the
  table of what \<open>New\<close> registers. Durations are in nanoseconds; their conversion to seconds, and
  that of minor units to \<open>float64\<close>, is left to the reader of the histogram.
\<close>

section \<open>What is registered\<close>

datatype buckets = NoBuckets | DefBuckets | Buckets "int list"

datatype collector_type = CounterVec | Histogram | HistogramVec | GaugeVec

record collector =
  cl_Name :: string
  cl_Type :: collector_type
  cl_Buckets :: buckets
  cl_Labels :: "string list"

definition collectors :: "collector list" where
  "collectors =
    [\<lparr>cl_Name = ''croupier_http_request_duration_seconds'', cl_Type = HistogramVec,
      cl_Buckets = DefBuckets, cl_Labels = [''method'', ''pattern'', ''status'']\<rparr>,
     \<lparr>cl_Name = ''croupier_wager_submissions_total'', cl_Type = CounterVec,
      cl_Buckets = NoBuckets, cl_Labels = [''kind'', ''outcome'']\<rparr>,
     \<lparr>cl_Name = ''croupier_wallet_reconciliations_total'', cl_Type = CounterVec,
      cl_Buckets = NoBuckets, cl_Labels = [''consistent'']\<rparr>,
     \<lparr>cl_Name = ''croupier_wallet_reconciliation_difference_minor_units'', cl_Type = Histogram,
      cl_Buckets = Buckets [0, 1, 10, 100, 1000, 10000, 100000], cl_Labels = []\<rparr>,
     \<lparr>cl_Name = ''croupier_outbox_publish_total'', cl_Type = CounterVec,
      cl_Buckets = NoBuckets, cl_Labels = [''outcome'']\<rparr>,
     \<lparr>cl_Name = ''croupier_outbox_publish_latency_seconds'', cl_Type = Histogram,
      cl_Buckets = DefBuckets, cl_Labels = []\<rparr>,
     \<lparr>cl_Name = ''croupier_pending_reference_resolutions_total'', cl_Type = CounterVec,
      cl_Buckets = NoBuckets, cl_Labels = [''outcome'']\<rparr>,
     \<lparr>cl_Name = ''croupier_sqs_messages_processed_total'', cl_Type = CounterVec,
      cl_Buckets = NoBuckets, cl_Labels = [''consumer'', ''result'']\<rparr>,
     \<lparr>cl_Name = ''croupier_sqs_message_processing_duration_seconds'', cl_Type = HistogramVec,
      cl_Buckets = DefBuckets, cl_Labels = [''consumer'']\<rparr>,
     \<lparr>cl_Name = ''croupier_sqs_dlq_depth'', cl_Type = GaugeVec,
      cl_Buckets = NoBuckets, cl_Labels = [''queue'']\<rparr>]"

section \<open>The registry\<close>

record registry =
  mr_httpRequestDuration :: "string \<times> string \<times> string \<Rightarrow> int list"
  mr_wagerSubmissionsTotal :: "string \<times> string \<Rightarrow> nat"
  mr_reconciliationsTotal :: "string \<Rightarrow> nat"
  mr_reconciliationDifference :: "int list"
  mr_outboxPublishTotal :: "string \<Rightarrow> nat"
  mr_outboxPublishLatency :: "int list"
  mr_pendingReferenceResolutionsTotal :: "string \<Rightarrow> nat"
  mr_sqsMessagesTotal :: "string \<times> string \<Rightarrow> nat"
  mr_sqsMessageProcessingDuration :: "string \<Rightarrow> int list"
  mr_dlqDepth :: "string \<Rightarrow> string option"

definition Metrics_New :: registry where
  "Metrics_New = \<lparr>mr_httpRequestDuration = (\<lambda>_. []), mr_wagerSubmissionsTotal = (\<lambda>_. 0),
     mr_reconciliationsTotal = (\<lambda>_. 0), mr_reconciliationDifference = [],
     mr_outboxPublishTotal = (\<lambda>_. 0), mr_outboxPublishLatency = [],
     mr_pendingReferenceResolutionsTotal = (\<lambda>_. 0), mr_sqsMessagesTotal = (\<lambda>_. 0),
     mr_sqsMessageProcessingDuration = (\<lambda>_. []), mr_dlqDepth = (\<lambda>_. None)\<rparr>"

definition Inc :: "'l \<Rightarrow> ('l \<Rightarrow> nat) \<Rightarrow> 'l \<Rightarrow> nat" where
  "Inc l c = c(l := Suc (c l))"

definition Observe :: "'l \<Rightarrow> int \<Rightarrow> ('l \<Rightarrow> int list) \<Rightarrow> 'l \<Rightarrow> int list" where
  "Observe l x h = h(l := h l @ [x])"

definition statusBucket :: "i64 \<Rightarrow> string" where
  "statusBucket status =
     (if 500 \<le> sint status then ''5xx''
      else if 400 \<le> sint status then ''4xx''
      else if 300 \<le> sint status then ''3xx''
      else ''2xx'')"

definition ObserveRequest :: "string \<Rightarrow> string \<Rightarrow> i64 \<Rightarrow> int \<Rightarrow> registry \<Rightarrow> registry" where
  "ObserveRequest method pattern status duration r =
     r\<lparr>mr_httpRequestDuration := Observe (method, pattern, statusBucket status) duration (mr_httpRequestDuration r)\<rparr>"

definition ObserveWagerSubmission :: "string \<Rightarrow> string \<Rightarrow> registry \<Rightarrow> registry" where
  "ObserveWagerSubmission kind outcome r =
     r\<lparr>mr_wagerSubmissionsTotal := Inc (kind, outcome) (mr_wagerSubmissionsTotal r)\<rparr>"

definition ObserveReconciliation :: "bool \<Rightarrow> i64 \<Rightarrow> registry \<Rightarrow> registry" where
  "ObserveReconciliation consistent differenceMinorUnits r =
     (let label = (if \<not> consistent then ''false'' else ''true'');
          d = (if sint differenceMinorUnits < 0 then - differenceMinorUnits else differenceMinorUnits)
      in r\<lparr>mr_reconciliationsTotal := Inc label (mr_reconciliationsTotal r),
           mr_reconciliationDifference := mr_reconciliationDifference r @ [sint d]\<rparr>)"

definition ObserveOutboxPublish :: "string \<Rightarrow> int \<Rightarrow> registry \<Rightarrow> registry" where
  "ObserveOutboxPublish outcome age r =
     (let r = r\<lparr>mr_outboxPublishTotal := Inc outcome (mr_outboxPublishTotal r)\<rparr> in
      if outcome = ''success'' then r\<lparr>mr_outboxPublishLatency := mr_outboxPublishLatency r @ [age]\<rparr> else r)"

definition ObservePendingReferenceResolution :: "string \<Rightarrow> registry \<Rightarrow> registry" where
  "ObservePendingReferenceResolution outcome r =
     r\<lparr>mr_pendingReferenceResolutionsTotal := Inc outcome (mr_pendingReferenceResolutionsTotal r)\<rparr>"

definition ObserveSQSMessage :: "string \<Rightarrow> string \<Rightarrow> registry \<Rightarrow> registry" where
  "ObserveSQSMessage consumer result r =
     r\<lparr>mr_sqsMessagesTotal := Inc (consumer, result) (mr_sqsMessagesTotal r)\<rparr>"

definition ObserveSQSMessageDuration :: "string \<Rightarrow> int \<Rightarrow> registry \<Rightarrow> registry" where
  "ObserveSQSMessageDuration consumer duration r =
     r\<lparr>mr_sqsMessageProcessingDuration := Observe consumer duration (mr_sqsMessageProcessingDuration r)\<rparr>"

text \<open>The depth as the number the caller parsed, in its decimal text.\<close>

definition SetDLQDepth :: "string \<Rightarrow> string \<Rightarrow> registry \<Rightarrow> registry" where
  "SetDLQDepth queue depth r = r\<lparr>mr_dlqDepth := (mr_dlqDepth r)(queue := Some depth)\<rparr>"

lemmas observe_defs = ObserveRequest_def ObserveWagerSubmission_def ObserveReconciliation_def
  ObserveOutboxPublish_def ObservePendingReferenceResolution_def ObserveSQSMessage_def
  ObserveSQSMessageDuration_def SetDLQDepth_def Let_def

section \<open>What the series say\<close>

lemma statusBucket_classes: "statusBucket status \<in> {''2xx'', ''3xx'', ''4xx'', ''5xx''}"
  by (simp add: statusBucket_def)

text \<open>The latency histogram has one value per successful publication, the difference histogram one
  per reconciliation.\<close>

definition series_ok :: "registry \<Rightarrow> bool" where
  "series_ok r \<longleftrightarrow>
     length (mr_outboxPublishLatency r) = mr_outboxPublishTotal r ''success'' \<and>
     length (mr_reconciliationDifference r) = mr_reconciliationsTotal r ''true'' + mr_reconciliationsTotal r ''false'' \<and>
     (\<forall>m p b. b \<notin> {''2xx'', ''3xx'', ''4xx'', ''5xx''} \<longrightarrow> mr_httpRequestDuration r (m, p, b) = [])"

datatype observation =
    Request string string i64 int
  | WagerSubmission string string
  | Reconciliation bool i64
  | OutboxPublish string int
  | PendingReferenceResolution string
  | SQSMessage string string
  | SQSMessageDuration string int
  | DLQDepth string string

fun record_one :: "observation \<Rightarrow> registry \<Rightarrow> registry" where
  "record_one (Request m p st d) = ObserveRequest m p st d"
| "record_one (WagerSubmission k out) = ObserveWagerSubmission k out"
| "record_one (Reconciliation c d) = ObserveReconciliation c d"
| "record_one (OutboxPublish out age) = ObserveOutboxPublish out age"
| "record_one (PendingReferenceResolution out) = ObservePendingReferenceResolution out"
| "record_one (SQSMessage c res) = ObserveSQSMessage c res"
| "record_one (SQSMessageDuration c d) = ObserveSQSMessageDuration c d"
| "record_one (DLQDepth q d) = SetDLQDepth q d"

lemma series_ok_step: "series_ok r \<Longrightarrow> series_ok (record_one ob r)"
  using statusBucket_classes
  by (cases ob) (auto simp: series_ok_def observe_defs Inc_def Observe_def)


text \<open>The table \<open>New\<close> registers has no two collectors of one name, the case in which the
  registration panics, and only the vectors have labels.\<close>

lemma collectors_registrable:
  "distinct (map cl_Name collectors) \<and>
   list_all (\<lambda>c. cl_Labels c = [] \<longleftrightarrow> cl_Type c = Histogram) collectors \<and>
   list_all (\<lambda>c. cl_Buckets c \<noteq> NoBuckets \<longleftrightarrow> cl_Type c = Histogram \<or> cl_Type c = HistogramVec) collectors"
  unfolding collectors_def by code_simp

end
