(* ===== verification/Process.thy ===== *)
theory Process
  imports Submit Metrics
begin

text \<open>
  What the two inbound adapters share. A \<open>node\<close> is a process: its database session, its metrics
  registry, and the receipts of the messages it asked the queue to delete. \<open>on_db\<close> runs a use
  case on the session, \<open>observe\<close> reports to the registry. A \<open>money\<close> field of a JSON document is
  read by \<open>Money.UnmarshalJSON\<close>; a missing one leaves the zero \<open>Money\<close>.
\<close>

record node =
  nd_sess :: sess
  nd_metrics :: registry
  nd_deleted :: "string list"

definition on_db :: "(sess, error, 'a) prog \<Rightarrow> (node, error, 'a) prog" where
  "on_db m n = (case m (nd_sess n) of (r, s) \<Rightarrow> (r, n\<lparr>nd_sess := s\<rparr>))"

definition observe :: "(registry \<Rightarrow> registry) \<Rightarrow> (node, error, unit) prog" where
  "observe f n = (Inr (), n\<lparr>nd_metrics := f (nd_metrics n)\<rparr>)"

definition wire_money :: "external \<Rightarrow> (error + moneyJSON) option \<Rightarrow> error + money" where
  "wire_money X j = (case j of None \<Rightarrow> Inr \<lparr>m_currency = [], m_amount = 0\<rparr>
     | Some j \<Rightarrow> Money_UnmarshalJSON (x_iso X) j)"

end
