(* ===== verification/Consumer.thy ===== *)
theory Consumer
  imports Nested Process
begin

text \<open>
  \<open>internal/sqs/consumer.go\<close>: the queue consumer. The JSON text of a message is decoded by
  \<open>encoding/json\<close>, a parameter that yields the fields as they are on the wire; the money field
  is then read by \<open>Money.UnmarshalJSON\<close>, which is code of this repository. The log lines are left
  out. The lemmas follow a delivery through the inbox: what is recorded, what is deleted, and what
  a redelivery does.
\<close>

section \<open>Messages\<close>

record wire_message =
  wm_ProviderID :: string
  wm_ExternalTransactionID :: string
  wm_IdempotencyKey :: string
  wm_PlayerID :: uuid
  wm_WalletID :: uuid
  wm_RoundID :: string
  wm_GameID :: string
  wm_Kind :: string
  wm_Money :: "(error + moneyJSON) option"
  wm_ReferenceExternalTransactionID :: "string option"

record wire_envelope =
  we_MessageID :: string
  we_Type :: string
  we_OccurredAt :: time
  we_Data :: wire_message

record wagerTransactionMessage =
  ms_ProviderID :: string
  ms_ExternalTransactionID :: string
  ms_IdempotencyKey :: string
  ms_PlayerID :: uuid
  ms_WalletID :: uuid
  ms_RoundID :: string
  ms_GameID :: string
  ms_Kind :: kind
  ms_Money :: money
  ms_ReferenceExternalTransactionID :: "string option"

record wagerTransactionEnvelope =
  en_MessageID :: string
  en_Type :: string
  en_OccurredAt :: time
  en_Data :: wagerTransactionMessage

record queue_message =
  qm_MessageId :: string
  qm_Body :: string
  qm_ReceiptHandle :: string

definition wagerTransactionRequestedType :: string where
  "wagerTransactionRequestedType = ''WagerTransactionRequested''"

definition decode_envelope ::
  "external \<Rightarrow> (string \<Rightarrow> wire_envelope option) \<Rightarrow> string \<Rightarrow> error + wagerTransactionEnvelope" where
  "decode_envelope X unmarshal body =
     (case unmarshal body of
        None \<Rightarrow> Inl (ConsumerE MalformedEnvelope)
      | Some e \<Rightarrow>
          (let d = we_Data e in
           case wire_money X (wm_Money d) of
             Inl _ \<Rightarrow> Inl (ConsumerE MalformedEnvelope)
           | Inr m \<Rightarrow> Inr \<lparr>en_MessageID = we_MessageID e, en_Type = we_Type e, en_OccurredAt = we_OccurredAt e,
               en_Data = \<lparr>ms_ProviderID = wm_ProviderID d, ms_ExternalTransactionID = wm_ExternalTransactionID d,
                 ms_IdempotencyKey = wm_IdempotencyKey d, ms_PlayerID = wm_PlayerID d, ms_WalletID = wm_WalletID d,
                 ms_RoundID = wm_RoundID d, ms_GameID = wm_GameID d, ms_Kind = kind_of_string (wm_Kind d),
                 ms_Money = m, ms_ReferenceExternalTransactionID = wm_ReferenceExternalTransactionID d\<rparr>\<rparr>))"

section \<open>The consumer\<close>

text \<open>\<open>cs_tx\<close> and \<open>cs_metrics\<close> say whether the optional dependencies are configured; \<open>cmd/croupier\<close>
  configures both.\<close>

record consumer =
  cs_queueURL :: string
  cs_consumerName :: string
  cs_tx :: bool
  cs_metrics :: bool
  cs_waitTime :: i64
  cs_maxMessages :: i64

definition NewConsumer :: "string \<Rightarrow> string \<Rightarrow> bool \<Rightarrow> bool \<Rightarrow> consumer" where
  "NewConsumer queueURL consumerName txManager metrics =
     \<lparr>cs_queueURL = queueURL, cs_consumerName = consumerName, cs_tx = txManager, cs_metrics = metrics,
      cs_waitTime = 20, cs_maxMessages = 10\<rparr>"

definition withinTx :: "consumer \<Rightarrow> (sess, error, 'a) prog \<Rightarrow> (sess, error, 'a) prog" where
  "withinTx c fn = (if \<not> cs_tx c then fn else WithinTx fn)"

record handle_draws =
  hd_correlationID :: string
  hd_inbox_now :: time
  hd_completed_now :: time
  hd_submit :: draws
  hd_duration :: int

definition wagerOutcome :: "submit_result \<Rightarrow> string" where
  "wagerOutcome result =
     (if sr_IdempotentReplay result then ''replay''
      else to_lower (status_string (tx_status (sr_Transaction result))))"

definition message_input :: "wagerTransactionMessage \<Rightarrow> string \<Rightarrow> submit_input" where
  "message_input req correlationID =
     \<lparr>si_ProviderID = ms_ProviderID req, si_ExternalTransactionID = ms_ExternalTransactionID req,
      si_PlayerID = ms_PlayerID req, si_WalletID = ms_WalletID req, si_RoundID = ms_RoundID req,
      si_GameID = ms_GameID req, si_Kind = ms_Kind req, si_Amount = ms_Money req,
      si_ReferenceExternalTransactionID = ms_ReferenceExternalTransactionID req,
      si_CorrelationID = correlationID\<rparr>"

text \<open>The checks \<open>handle\<close> makes before it touches the database.\<close>

definition check_envelope :: "wagerTransactionEnvelope \<Rightarrow> error + wagerTransactionMessage" where
  "check_envelope envelope =
     (let req = en_Data envelope in
      if en_Type envelope \<noteq> wagerTransactionRequestedType then Inl (ConsumerE UnsupportedType)
      else if en_MessageID envelope = [] then Inl (ConsumerE MissingMessageId)
      else if ms_IdempotencyKey req \<noteq> ms_ProviderID req @ '':'' @ ms_ExternalTransactionID req
      then Inl (ConsumerE IdempotencyKeyMismatch)
      else Inr req)"

text \<open>The function \<open>handle\<close> passes to \<open>withinTx\<close>.\<close>

definition handle_body ::
  "external \<Rightarrow> consumer \<Rightarrow> handle_draws \<Rightarrow> inbox option \<Rightarrow> string \<Rightarrow> hash \<Rightarrow> wagerTransactionMessage \<Rightarrow>
   (sess, error, submit_result) prog" where
  "handle_body X c dw entry messageID hash req =
     bindE (case entry of
         None \<Rightarrow>
           bindE (liftE (Inbox_New (hd_inbox_now dw) \<lparr>ni_ConsumerName = cs_consumerName c,
             ni_MessageID = messageID, ni_PayloadHash = hash\<rparr>)) (\<lambda>entry.
           bindE (Inbox_Save entry) (\<lambda>_. ret entry))
       | Some entry \<Rightarrow> ret entry) (\<lambda>entry.
     bindE (Submit X (hd_submit dw) (message_input req (hd_correlationID dw))) (\<lambda>result.
     bindE (liftE (MarkCompleted (hd_completed_now dw) entry)) (\<lambda>entry.
     bindE (Inbox_Save entry) (\<lambda>_. ret result))))"

text \<open>The part of \<open>handle\<close> that works on the database: nothing to do is \<open>None\<close>.\<close>

definition handle_db ::
  "external \<Rightarrow> consumer \<Rightarrow> handle_draws \<Rightarrow> string \<Rightarrow> hash \<Rightarrow> wagerTransactionMessage \<Rightarrow>
   (sess, error, submit_result option) prog" where
  "handle_db X c dw messageID hash req =
     onResult (FindByConsumerAndMessage (cs_consumerName c) messageID) (\<lambda>r.
     case r of
       Inl e \<Rightarrow>
         if e \<noteq> AppE ErrInboxEntryNotFound then fail e
         else bindE (withinTx c (handle_body X c dw None messageID hash req)) (\<lambda>res. ret (Some res))
     | Inr entry \<Rightarrow>
         if in_payloadHash entry \<noteq> hash then fail (ConsumerE ContentChanged)
         else if IsCompleted entry then ret None
         else bindE (withinTx c (handle_body X c dw (Some entry) messageID hash req)) (\<lambda>res. ret (Some res)))"

definition handle ::
  "external \<Rightarrow> (string \<Rightarrow> wire_envelope option) \<Rightarrow> consumer \<Rightarrow> handle_draws \<Rightarrow> queue_message \<Rightarrow>
   (node, error, unit) prog" where
  "handle X unmarshal c dw msg =
     bindE (liftE (decode_envelope X unmarshal (qm_Body msg))) (\<lambda>envelope.
     bindE (liftE (check_envelope envelope)) (\<lambda>req.
     bindE (on_db (handle_db X c dw (en_MessageID envelope) (x_body_sha X (qm_Body msg)) req)) (\<lambda>res.
     case res of
       None \<Rightarrow> ret ()
     | Some result \<Rightarrow>
         if cs_metrics c
         then observe (ObserveWagerSubmission (kind_string (ms_Kind req)) (wagerOutcome result))
         else ret ())))"

text \<open>A message is deleted only after a successful \<open>handle\<close>; the outcome of the deletion is only
  logged.\<close>

definition processMessage ::
  "external \<Rightarrow> (string \<Rightarrow> wire_envelope option) \<Rightarrow> consumer \<Rightarrow> handle_draws \<Rightarrow> queue_message \<Rightarrow> node \<Rightarrow> node" where
  "processMessage X unmarshal c dw msg n =
     (case handle X unmarshal c dw msg n of
        (r, n) \<Rightarrow>
          let seen = (\<lambda>f n. if cs_metrics c then n\<lparr>nd_metrics := f (nd_metrics n)\<rparr> else n);
              n = seen (ObserveSQSMessageDuration (cs_consumerName c) (hd_duration dw)) n
          in case r of
            Inl _ \<Rightarrow> seen (ObserveSQSMessage (cs_consumerName c) ''error'') n
          | Inr _ \<Rightarrow>
              (seen (ObserveSQSMessage (cs_consumerName c) ''success'') n)
                \<lparr>nd_deleted := nd_deleted n @ [qm_ReceiptHandle msg]\<rparr>)"

text \<open>
  \<open>Run\<close> on a sequence of polls: what \<open>ctx.Err\<close> answers before the receive, and what the receive
  returns, with the answer of \<open>ctx.Err\<close> after a failed one. The sequence ending is the process
  being killed.
\<close>

datatype poll =
    Cancelled
  | ReceiveFailed "error option" error
  | Received "(handle_draws \<times> queue_message) list"

definition context_Canceled :: error where
  "context_Canceled = ExternalE ''context canceled''"

fun Run :: "external \<Rightarrow> (string \<Rightarrow> wire_envelope option) \<Rightarrow> consumer \<Rightarrow> poll list \<Rightarrow> node \<Rightarrow> error option \<times> node" where
  "Run X unmarshal c [] n = (None, n)"
| "Run X unmarshal c (Cancelled # polls) n = (Some context_Canceled, n)"
| "Run X unmarshal c (ReceiveFailed ctxErr err # polls) n =
     (Some (case ctxErr of Some e \<Rightarrow> e | None \<Rightarrow> err), n)"
| "Run X unmarshal c (Received msgs # polls) n =
     Run X unmarshal c polls (fold (\<lambda>(dw, msg) n. processMessage X unmarshal c dw msg n) msgs n)"

section \<open>The inbox record of a message\<close>

definition recorded :: "db \<Rightarrow> string \<Rightarrow> string \<Rightarrow> hash \<Rightarrow> bool" where
  "recorded d cn mid h \<longleftrightarrow> (\<exists>i. lookup_by inbox_key (cn, mid) (db_inbox d) = Some i \<and>
     IsCompleted i \<and> in_payloadHash i = h)"

definition inbox_kept :: "db \<Rightarrow> db \<Rightarrow> bool" where
  "inbox_kept d d' \<longleftrightarrow> db_inbox d' = db_inbox d"

definition other_records_kept :: "string \<times> string \<Rightarrow> db \<Rightarrow> db \<Rightarrow> bool" where
  "other_records_kept k d d' \<longleftrightarrow>
     (\<forall>j. j \<noteq> k \<longrightarrow> lookup_by inbox_key j (db_inbox d') = lookup_by inbox_key j (db_inbox d))"

context table_law begin

lemma bindE_changes_that:
  assumes "changes R m" and "\<And>s x t. m s = (Inr x, t) \<Longrightarrow> changes R (k x)"
  shows "changes R (bindE m k)"
proof (rule changesI)
  fix s r t assume "bindE m k s = (r, t)"
  then show "R (s_db s) (s_db t)"
    using changesD [OF assms(1)] changesD [OF assms(2)] law_trans
    by (auto simp: bindE_def split: prod.splits sum.splits) blast+
qed

end

interpretation no_inbox: table_law inbox_kept "\<lambda>_. True" "\<lambda>_. True" "\<lambda>_. False"
  by unfold_locales (simp_all add: inbox_kept_def)

interpretation one_inbox: table_law "other_records_kept k" "\<lambda>_. True" "\<lambda>_. True" "\<lambda>i. inbox_key i = k"
  by unfold_locales (auto simp: other_records_kept_def inbox.lookup_upsert)

lemma Inbox_Save_InrE:
  assumes "Inbox_Save i s = (Inr u, t)"
  shows "s_db t = put_inbox i (s_db s)"
  using assms unfolding Inbox_Save_def by (auto elim!: query_InrE simp: insert_eqs)

lemma Inbox_Save_db:
  "Inbox_Save i s = (r, t) \<Longrightarrow> s_db t = s_db s \<or> s_db t = put_inbox i (s_db s)"
  unfolding Inbox_Save_def by (drule query_db) (auto simp: insert_eqs)

lemma find_inbox_InrE:
  assumes "FindByConsumerAndMessage cn mid s = (Inr i, t)"
  obtains "lookup_by inbox_key (cn, mid) (db_inbox (s_db s)) = Some i" "s_db t = s_db s"
  using assms unfolding finds_read_one
  by (elim read_one_InrE) (auto simp: Inbox_FromPersistence_def)

lemma find_inbox_not_found:
  assumes "FindByConsumerAndMessage cn mid s = (Inl (AppE ErrInboxEntryNotFound), t)"
  shows "lookup_by inbox_key (cn, mid) (db_inbox (s_db s)) = None"
  using read_one_not_found [OF assms [unfolded finds_read_one]] by simp

text \<open>The complete run of the body: the record is stored and completed, with the hash the caller
  computed or the stored one.\<close>

definition entry_ok :: "consumer \<Rightarrow> string \<Rightarrow> hash \<Rightarrow> db \<Rightarrow> inbox option \<Rightarrow> bool" where
  "entry_ok c mid h d entry \<longleftrightarrow> lookup_by inbox_key (cs_consumerName c, mid) (db_inbox d) = entry \<and>
     (\<forall>i. entry = Some i \<longrightarrow> in_payloadHash i = h)"

lemma entry_key: "entry_ok c mid h d (Some i) \<Longrightarrow> inbox_key i = (cs_consumerName c, mid)"
  by (auto simp: entry_ok_def dest: lookup_by_SomeD)

lemma handle_body_recorded:
  assumes run: "handle_body X c dw entry mid h req s = (Inr res, t)" and entry: "entry_ok c mid h (s_db s) entry"
  shows "recorded (s_db t) (cs_consumerName c) mid h"
proof -
  let ?k = "(cs_consumerName c, mid)"
  obtain e s1 where first: "(case entry of
         None \<Rightarrow>
           bindE (liftE (Inbox_New (hd_inbox_now dw) \<lparr>ni_ConsumerName = cs_consumerName c,
             ni_MessageID = mid, ni_PayloadHash = h\<rparr>)) (\<lambda>entry.
           bindE (Inbox_Save entry) (\<lambda>_. ret entry))
       | Some entry \<Rightarrow> ret entry) s = (Inr e, s1)"
    and rest: "bindE (Submit X (hd_submit dw) (message_input req (hd_correlationID dw))) (\<lambda>result.
     bindE (liftE (MarkCompleted (hd_completed_now dw) e)) (\<lambda>entry.
     bindE (Inbox_Save entry) (\<lambda>_. ret result))) s1 = (Inr res, t)"
    using run unfolding handle_body_def by (rule bindE_InrE)
  have k: "inbox_key e = ?k" "in_payloadHash e = h"
    and s1: "\<exists>i. lookup_by inbox_key ?k (db_inbox (s_db s1)) = Some i \<and> in_payloadHash i = h"
    using first entry
    by (auto split: option.splits elim!: bindE_InrE dest!: Inbox_Save_InrE
        simp: Inbox_New_def inbox_key_def inbox.lookup_upsert entry_ok_def
        dest: lookup_by_SomeD split: if_splits)
  from rest obtain r2 s2 e' where sub: "Submit X (hd_submit dw) (message_input req (hd_correlationID dw)) s1 = (Inr r2, s2)"
    and m: "MarkCompleted (hd_completed_now dw) e = Inr e'" and sv: "Inbox_Save e' s2 = (Inr (), t)"
    by (auto elim!: bindE_InrE)
  have "db_inbox (s_db s2) = db_inbox (s_db s1)"
    using changesD [OF no_inbox.Submit_changes sub] by (simp add: inbox_kept_def)
  moreover have "inbox_key e' = ?k" "IsCompleted e'"
    using m k by (auto simp: MarkCompleted_def IsCompleted_def inbox_key_def split: if_splits)
  ultimately show ?thesis
    using s1 Inbox_Save_InrE [OF sv]
    by (auto simp: recorded_def inbox.lookup_upsert inbox_merge_def IsCompleted_def)
qed

section \<open>One delivery\<close>

text \<open>What a message asks for: its durable identity and the hash of its body.\<close>

definition message_id :: "external \<Rightarrow> (string \<Rightarrow> wire_envelope option) \<Rightarrow> queue_message \<Rightarrow> string option" where
  "message_id X unmarshal msg =
     (case decode_envelope X unmarshal (qm_Body msg) of Inl _ \<Rightarrow> None | Inr e \<Rightarrow> Some (en_MessageID e))"

definition message_recorded ::
  "external \<Rightarrow> (string \<Rightarrow> wire_envelope option) \<Rightarrow> consumer \<Rightarrow> queue_message \<Rightarrow> db \<Rightarrow> bool" where
  "message_recorded X unmarshal c msg d \<longleftrightarrow> (\<exists>mid. message_id X unmarshal msg = Some mid \<and>
     recorded d (cs_consumerName c) mid (x_body_sha X (qm_Body msg)))"

text \<open>The runs of the function that works on the database.\<close>

lemma handle_tx_cases:
  assumes "bindE (WithinTx (handle_body X c dw entry mid h req)) (\<lambda>res. ret (Some res)) s = (r, t)" and "s_tx s = NoTx"
  obtains (failed) e where "r = Inl e" "s_db t = s_db s" "s_tx t = NoTx"
    | (ran) s1 s2 res where "s_db s1 = s_db s" "handle_body X c dw entry mid h req s1 = (Inr res, s2)"
        "s_db t = s_db s2" "s_tx s1 = TxActive" "s_tx t = NoTx" "r = Inr (Some res) \<or> (\<exists>e. r = Inl e)"
proof -
  obtain p s3 where p: "WithinTx (handle_body X c dw entry mid h req) s = (p, s3)" by fastforce
  with assms(1) have rt: "r = map_sum id Some p" "t = s3" by (auto simp: bindE_def split: sum.splits)
  from p assms(2) show thesis
  proof (cases rule: WithinTx_cases)
    case (unchanged e)
    with failed rt show thesis by simp
  next
    case (in_doubt s1 x t1)
    with ran [of s1 x t1] rt show thesis by simp
  next
    case (committed s1 x t1)
    with ran [of s1 x t1] rt show thesis by simp
  qed
qed

lemma handle_db_cases:
  assumes "handle_db X c dw mid h req s = (r, t)" and "cs_tx c" and "s_tx s = NoTx"
  obtains (failed) e where "r = Inl e" "s_db t = s_db s" "s_tx t = NoTx"
    | (already) "r = Inr None" "s_db t = s_db s" "s_tx t = NoTx" "recorded (s_db s) (cs_consumerName c) mid h"
    | (ran) entry q s1 s2 res where "entry_ok c mid h (s_db s) entry"
        "\<nexists>i. entry = Some i \<and> IsCompleted i"
        "s_db s1 = s_db s" "handle_body X c dw entry mid h req s1 = (Inr res, s2)" "s_db t = s_db s2"
        "s_tx s1 = TxActive" "s_tx t = NoTx" "r = Inr (Some res) \<or> (\<exists>e. r = Inl e)"
proof -
  obtain q s0 where q: "FindByConsumerAndMessage (cs_consumerName c) mid s = (q, s0)" by fastforce
  have s0: "s_db s0 = s_db s" "s_tx s0 = NoTx"
    using q assms(3) unfolding finds_read_one by (auto dest: read_one_db read_one_tx)
  have body: thesis if run: "bindE (WithinTx (handle_body X c dw entry mid h req)) (\<lambda>res. ret (Some res)) s0 = (r, t)"
    and ok: "entry_ok c mid h (s_db s) entry" "\<nexists>i. entry = Some i \<and> IsCompleted i" for entry
    using run s0(2)
    by (cases rule: handle_tx_cases) (use failed ran [OF ok] s0 in \<open>simp, metis+\<close>)
  consider (broken) e where "r = Inl e" "t = s0"
    | (new) "q = Inl (AppE ErrInboxEntryNotFound)"
    | (known) i where "q = Inr i" "in_payloadHash i = h"
    using assms(1) q by (cases q) (auto simp: handle_db_def onResult_def fail_def split: if_splits)
  then show thesis
  proof cases
    case broken
    with s0 failed show thesis by simp
  next
    case new
    have "entry_ok c mid h (s_db s) None" using find_inbox_not_found q new by (simp add: entry_ok_def)
    with body [of None] assms(1,2) q new show thesis by (simp add: handle_db_def onResult_def withinTx_def)
  next
    case (known i)
    then have lk: "lookup_by inbox_key (cs_consumerName c, mid) (db_inbox (s_db s)) = Some i"
      using q by (auto elim: find_inbox_InrE)
    show thesis
    proof (cases "IsCompleted i")
      case True
      with assms(1) q known s0 lk already show thesis by (simp add: handle_db_def onResult_def recorded_def)
    next
      case False
      with body [of "Some i"] assms(1,2) q known lk show thesis
        by (simp add: handle_db_def onResult_def withinTx_def entry_ok_def)
    qed
  qed
qed

lemma handle_db_recorded:
  assumes "handle_db X c dw mid h req s = (r, t)" and "cs_tx c" and "s_tx s = NoTx"
  shows "s_tx t = NoTx" and "s_db t = s_db s \<or> recorded (s_db t) (cs_consumerName c) mid h"
    and "r = Inr x \<Longrightarrow> recorded (s_db t) (cs_consumerName c) mid h"
  using assms(1) assms(2,3) by (cases rule: handle_db_cases; force dest: handle_body_recorded)+

lemma handle_body_others:
  assumes "entry_ok c mid h d entry"
  shows "changes (other_records_kept (cs_consumerName c, mid)) (handle_body X c dw entry mid h req)"
proof -
  have save: "changes (other_records_kept (cs_consumerName c, mid)) (Inbox_Save i)"
    if "inbox_key i = (cs_consumerName c, mid)" for i
    using that by (rule one_inbox.saves_change(5))
  have tail: "changes (other_records_kept (cs_consumerName c, mid))
      (bindE (Submit X (hd_submit dw) (message_input req (hd_correlationID dw))) (\<lambda>result.
       bindE (liftE (MarkCompleted (hd_completed_now dw) e)) (\<lambda>entry.
       bindE (Inbox_Save entry) (\<lambda>_. ret result))))"
    if "inbox_key e = (cs_consumerName c, mid)" for e
    using that
    by (intro one_inbox.bindE_changes [OF one_inbox.Submit_changes [OF TrueI]] one_inbox.lift
        one_inbox.bindE_changes [OF save] one_inbox.ret_changes)
      (auto simp: MarkCompleted_def inbox_key_def split: if_splits)
  show ?thesis
  proof (cases entry)
    case None
    have new: "inbox_key e = (cs_consumerName c, mid)" if "Inbox_New (hd_inbox_now dw)
        \<lparr>ni_ConsumerName = cs_consumerName c, ni_MessageID = mid, ni_PayloadHash = h\<rparr> = Inr e" for e
      using that by (auto simp: Inbox_New_def inbox_key_def split: if_splits)
    show ?thesis
      unfolding handle_body_def None option.case
      by (rule one_inbox.bindE_changes_that)
        (auto intro!: one_inbox.lift one_inbox.bindE_changes [OF save] one_inbox.ret_changes tail new
          elim!: bindE_InrE)
  next
    case (Some i)
    with assms have "inbox_key i = (cs_consumerName c, mid)" by (auto dest: entry_key)
    from tail [OF this] Some show ?thesis by (simp add: handle_body_def changes_def bindE_def)
  qed
qed

lemma handle_db_others:
  assumes "handle_db X c dw mid h req s = (r, t)" and "cs_tx c" and "s_tx s = NoTx"
    and "recorded (s_db s) cn m g"
  shows "recorded (s_db t) cn m g"
proof (cases "s_db t = s_db s")
  case True
  with assms(4) show ?thesis by simp
next
  case ne: False
  from assms(1-3) ne obtain entry s1 s2 res where entry: "entry_ok c mid h (s_db s) entry"
    "\<nexists>i. entry = Some i \<and> IsCompleted i" and s1: "s_db s1 = s_db s" "s_db t = s_db s2"
    and run: "handle_body X c dw entry mid h req s1 = (Inr res, s2)"
    by (cases rule: handle_db_cases) auto
  have ne: "(cn, m) \<noteq> (cs_consumerName c, mid)"
    using entry assms(4) by (auto simp: entry_ok_def recorded_def)
  have "other_records_kept (cs_consumerName c, mid) (s_db s1) (s_db s2)"
    using handle_body_others [OF entry(1)] run by (rule changesD)
  then have "other_records_kept (cs_consumerName c, mid) (s_db s) (s_db t)" by (simp only: s1)
  with ne show ?thesis
    using assms(4) unfolding recorded_def other_records_kept_def by (metis (no_types, lifting))
qed

text \<open>The node after one delivery, whatever became of it.\<close>

lemma handle_node:
  assumes "handle X unmarshal c dw msg n = (r, n')"
  obtains (refused) e where "r = Inl e" "n' = n"
    | (run) en req q s where "decode_envelope X unmarshal (qm_Body msg) = Inr en"
        "handle_db X c dw (en_MessageID en) (x_body_sha X (qm_Body msg)) req (nd_sess n) = (q, s)"
        "nd_sess n' = s" "nd_deleted n' = nd_deleted n" "r = map_sum id (\<lambda>_. ()) q" "req = en_Data en"
        "check_envelope en = Inr req"
proof (cases "decode_envelope X unmarshal (qm_Body msg)")
  case (Inl e)
  with assms have "r = Inl e" "n' = n" by (simp_all add: handle_def bindE_def)
  then show thesis by (rule refused)
next
  case en: (Inr en)
  show thesis
  proof (cases "check_envelope en")
    case (Inl e)
    with assms en have "r = Inl e" "n' = n" by (simp_all add: handle_def bindE_def)
    then show thesis by (rule refused)
  next
    case (Inr req)
    obtain q s where q: "handle_db X c dw (en_MessageID en) (x_body_sha X (qm_Body msg)) req (nd_sess n) = (q, s)"
      by fastforce
    have "req = en_Data en" using Inr by (auto simp: check_envelope_def Let_def split: if_splits)
    moreover have "nd_sess n' = s \<and> nd_deleted n' = nd_deleted n \<and> r = map_sum id (\<lambda>_. ()) q"
      using assms en Inr q
      by (auto simp: handle_def bindE_def on_db_def observe_def split: sum.splits option.splits if_splits)
    ultimately show thesis using run [OF en q] Inr by blast
  qed
qed

lemma processMessage_sess:
  "nd_sess (processMessage X unmarshal c dw msg n) = nd_sess (snd (handle X unmarshal c dw msg n))"
  "nd_deleted (processMessage X unmarshal c dw msg n) =
     (case fst (handle X unmarshal c dw msg n) of Inl _ \<Rightarrow> nd_deleted (snd (handle X unmarshal c dw msg n))
      | Inr _ \<Rightarrow> nd_deleted (snd (handle X unmarshal c dw msg n)) @ [qm_ReceiptHandle msg])"
  by (simp_all add: processMessage_def Let_def split: prod.split sum.split)

definition deletes_ok ::
  "external \<Rightarrow> (string \<Rightarrow> wire_envelope option) \<Rightarrow> consumer \<Rightarrow> node \<Rightarrow> queue_message list \<Rightarrow> bool" where
  "deletes_ok X unmarshal c n seen \<longleftrightarrow> s_tx (nd_sess n) = NoTx \<and>
     (\<forall>rh\<in>set (nd_deleted n). \<exists>msg\<in>set seen. qm_ReceiptHandle msg = rh \<and>
        message_recorded X unmarshal c msg (s_db (nd_sess n)))"

lemma processMessage_deletes_ok:
  assumes tx: "cs_tx c" and ok: "deletes_ok X unmarshal c n seen"
  shows "deletes_ok X unmarshal c (processMessage X unmarshal c dw msg n) (seen @ [msg])"
proof -
  obtain r n' where h: "handle X unmarshal c dw msg n = (r, n')" by fastforce
  have NoTx: "s_tx (nd_sess n) = NoTx" using ok by (simp add: deletes_ok_def)
  from h show ?thesis
  proof (cases rule: handle_node)
    case (refused e)
    with ok h show ?thesis by (auto simp: deletes_ok_def processMessage_sess)
  next
    case (run en req q s)
    have mid: "message_id X unmarshal msg = Some (en_MessageID en)" using run(1) by (simp add: message_id_def)
    note R = handle_db_recorded [OF run(2) tx NoTx]
    have old: "message_recorded X unmarshal c m (s_db s)"
      if "message_recorded X unmarshal c m (s_db (nd_sess n))" for m
      using that handle_db_others [OF run(2) tx NoTx] unfolding message_recorded_def by blast
    show ?thesis
    proof (cases q)
      case (Inl e)
      with run h ok old R(1) show ?thesis
        by (auto simp: deletes_ok_def processMessage_sess)
    next
      case (Inr x)
      have "message_recorded X unmarshal c msg (s_db s)"
        using mid R(3) Inr by (auto simp: message_recorded_def)
      with Inr run h ok old R(1) show ?thesis
        by (auto simp: deletes_ok_def processMessage_sess)
    qed
  qed
qed

text \<open>Claim C13. No message is lost: over any sequence of polls, with any failure of the database,
  the consumer asks the queue to delete a message only when its inbox record is stored, completed
  and has the hash of that message's body; and the record stays for the rest of the run. In the
  same transaction the submission has committed.\<close>

theorem deletes_only_recorded_messages:
  assumes "cs_tx c" and "s_tx (nd_sess n) = NoTx" and "nd_deleted n = []"
  shows "\<forall>rh\<in>set (nd_deleted (snd (Run X unmarshal c polls n))).
    \<exists>msg\<in>set (map snd (concat (map (\<lambda>p. case p of Received msgs \<Rightarrow> msgs | _ \<Rightarrow> []) polls))).
      qm_ReceiptHandle msg = rh \<and>
      message_recorded X unmarshal c msg (s_db (nd_sess (snd (Run X unmarshal c polls n))))"
proof -
  have batch: "deletes_ok X unmarshal c (fold (\<lambda>(dw, msg) n. processMessage X unmarshal c dw msg n) msgs n)
      (seen @ map snd msgs)" if "deletes_ok X unmarshal c n seen" for n seen msgs
    using that
  proof (induction msgs arbitrary: n seen)
    case (Cons dm msgs)
    obtain dw msg where dm: "dm = (dw, msg)" by fastforce
    from Cons.IH [OF processMessage_deletes_ok [OF assms(1) Cons.prems, of dw msg]] show ?case
      by (simp add: dm)
  qed simp
  have "\<exists>later. deletes_ok X unmarshal c (snd (Run X unmarshal c polls n)) (seen @ later) \<and>
      set later \<subseteq> set (map snd (concat (map (\<lambda>p. case p of Received msgs \<Rightarrow> msgs | _ \<Rightarrow> []) polls)))"
    if "deletes_ok X unmarshal c n seen" for n seen
    using that
  proof (induction polls arbitrary: n seen)
    case Nil
    then show ?case by (auto intro: exI [of _ "[]"])
  next
    case (Cons p polls)
    show ?case
    proof (cases p)
      case (Received msgs)
      from Cons.IH [OF batch [OF Cons.prems, of msgs]] obtain later where
        "deletes_ok X unmarshal c (snd (Run X unmarshal c (p # polls) n)) (seen @ (map snd msgs @ later))"
        "set later \<subseteq> set (map snd (concat (map (\<lambda>p. case p of Received msgs \<Rightarrow> msgs | _ \<Rightarrow> []) polls)))"
        by (auto simp: Received)
      then show ?thesis by (intro exI [of _ "map snd msgs @ later"]) (auto simp: Received)
    qed (use Cons.prems in \<open>auto intro!: exI [of _ "[]"]\<close>)
  qed
  from this [of n "[]"] assms(2,3) show ?thesis
    by (fastforce simp: deletes_ok_def)
qed

text \<open>Claim C14. One delivery is all or nothing: it leaves the tables as they were, or as a complete
  run of the body left them, with the submission made and the record completed; and it succeeds
  only when the record is there.\<close>

theorem delivery_all_or_nothing:
  assumes "cs_tx c" and "s_tx (nd_sess n) = NoTx" and "handle X unmarshal c dw msg n = (r, n')"
  shows "(r = Inr () \<longrightarrow> message_recorded X unmarshal c msg (s_db (nd_sess n'))) \<and>
    (s_db (nd_sess n') = s_db (nd_sess n) \<or>
     message_recorded X unmarshal c msg (s_db (nd_sess n')) \<and>
     (\<exists>entry mid req s1 s2 res. s_db s1 = s_db (nd_sess n) \<and> s_db (nd_sess n') = s_db s2 \<and>
        handle_body X c dw entry mid (x_body_sha X (qm_Body msg)) req s1 = (Inr res, s2)))"
  using assms(3)
proof (cases rule: handle_node)
  case (refused e)
  then show ?thesis by simp
next
  case (run en req q s)
  note R = handle_db_recorded [OF run(2) assms(1,2)]
  have rec: "message_recorded X unmarshal c msg (s_db s)"
    if "recorded (s_db s) (cs_consumerName c) (en_MessageID en) (x_body_sha X (qm_Body msg))"
    using that run(1) by (simp add: message_recorded_def message_id_def)
  have "r = Inr () \<longrightarrow> message_recorded X unmarshal c msg (s_db (nd_sess n'))"
    using run(3,5) rec R(3) by (cases q) auto
  moreover have "s_db s = s_db (nd_sess n) \<or> (\<exists>entry mid req s1 s2 res. s_db s1 = s_db (nd_sess n) \<and> s_db s = s_db s2 \<and>
        handle_body X c dw entry mid (x_body_sha X (qm_Body msg)) req s1 = (Inr res, s2))"
    using run(2) assms(1,2) by (cases rule: handle_db_cases) blast+
  ultimately show ?thesis using rec R(2) unfolding run(3) by blast
qed

lemma handle_body_books:
  assumes run: "handle_body X c dw entry mid h req s = (Inr res, t)" and b: "books (s_db s)"
    and new: "lookup_by wr_id (dr_tx_id (hd_submit dw)) (db_wagers (s_db s)) = None"
  shows "books (s_db t)"
proof -
  from run obtain e s1 r2 s2 e' where first: "s_db s1 = s_db s \<or> s_db s1 = put_inbox e (s_db s)"
    and sub: "Submit X (hd_submit dw) (message_input req (hd_correlationID dw)) s1 = (Inr r2, s2)"
    and sv: "s_db t = put_inbox e' (s_db s2)"
    unfolding handle_body_def
    by (auto elim!: bindE_InrE split: option.splits dest!: Inbox_Save_InrE) blast+
  have "books (s_db s2)"
    using first b new by (intro Submit_books [OF sub]) auto
  then show ?thesis using sv by simp
qed

text \<open>The consumer keeps the books: no delivery, redelivery or failed delivery leaves the
  tables unbalanced.\<close>

lemma delivery_keeps_books:
  assumes "cs_tx c" and "s_tx (nd_sess n) = NoTx" and "books (s_db (nd_sess n))"
    and "lookup_by wr_id (dr_tx_id (hd_submit dw)) (db_wagers (s_db (nd_sess n))) = None"
  shows "books (s_db (nd_sess (processMessage X unmarshal c dw msg n)))"
proof -
  obtain r n' where h: "handle X unmarshal c dw msg n = (r, n')" by fastforce
  from h have "books (s_db (nd_sess n'))"
  proof (cases rule: handle_node)
    case (run en req q s)
    from run(2) assms(1,2) have "s_db s = s_db (nd_sess n) \<or> (\<exists>entry s1 s2 res. s_db s1 = s_db (nd_sess n) \<and>
        handle_body X c dw entry (en_MessageID en) (x_body_sha X (qm_Body msg)) req s1 = (Inr res, s2) \<and>
        s_db s = s_db s2)"
      by (cases rule: handle_db_cases) blast+
    then show ?thesis using handle_body_books assms(3,4) run(3) by metis
  qed (use assms(3) in simp)
  with h show ?thesis by (simp add: processMessage_sess)
qed

text \<open>Claim C35. Redelivery is harmless: once the record of a message is completed, delivering it
  again changes no table and no metric of submissions, whatever the database does; and the message
  identifier with another body is refused.\<close>

theorem redelivery_changes_nothing:
  assumes "decode_envelope X unmarshal (qm_Body msg) = Inr en" and "check_envelope en = Inr req"
    and "lookup_by inbox_key (cs_consumerName c, en_MessageID en) (db_inbox (s_db (nd_sess n))) = Some i"
    and "IsCompleted i"
    and "handle X unmarshal c dw msg n = (r, n')"
  shows "s_db (nd_sess n') = s_db (nd_sess n) \<and> nd_metrics n' = nd_metrics n \<and>
    (in_payloadHash i \<noteq> x_body_sha X (qm_Body msg) \<longrightarrow> r \<noteq> Inr ())"
proof -
  obtain q s where q: "FindByConsumerAndMessage (cs_consumerName c) (en_MessageID en) (nd_sess n) = (q, s)"
    by fastforce
  have s: "s_db s = s_db (nd_sess n)" using q unfolding finds_read_one by (rule read_one_db)
  have "q = Inr i \<or> (\<exists>e. q = Inl e \<and> e \<noteq> AppE ErrInboxEntryNotFound)"
    using q find_inbox_not_found find_inbox_InrE assms(3) by (cases q) fastforce+
  with assms q s show ?thesis
    by (auto simp: handle_def bindE_def on_db_def handle_db_def onResult_def split: if_splits)
qed

section \<open>A bet from the queue\<close>

definition sample_wire :: wire_envelope where
  "sample_wire = \<lparr>we_MessageID = ''m-1'', we_Type = ''WagerTransactionRequested'', we_OccurredAt = 9,
     we_Data = \<lparr>wm_ProviderID = ''provider-a'', wm_ExternalTransactionID = ''bet-2'',
       wm_IdempotencyKey = ''provider-a:bet-2'', wm_PlayerID = 2, wm_WalletID = 3,
       wm_RoundID = ''round-1'', wm_GameID = ''game-1'', wm_Kind = ''BET'',
       wm_Money = Some (Inr \<lparr>j_currency = ''BRL'', j_amount = ''10.00''\<rparr>),
       wm_ReferenceExternalTransactionID = None\<rparr>\<rparr>"

definition sample_consumer :: consumer where
  "sample_consumer = NewConsumer ''queue'' ''consumer'' True True"

definition sample_handle_draws :: handle_draws where
  "sample_handle_draws = \<lparr>hd_correlationID = ''c'', hd_inbox_now = 9, hd_completed_now = 9,
     hd_submit = sample_draws, hd_duration = 5\<rparr>"

definition sample_msg :: queue_message where
  "sample_msg = \<lparr>qm_MessageId = ''sqs-1'', qm_Body = ''body'', qm_ReceiptHandle = ''rh-1''\<rparr>"

definition sample_node :: node where
  "sample_node = \<lparr>nd_sess = calm NoTx opened_db, nd_metrics = Metrics_New, nd_deleted = []\<rparr>"

abbreviation "deliver \<equiv> processMessage sample_external (\<lambda>_. Some sample_wire) sample_consumer sample_handle_draws sample_msg"

lemma sample_simps:
  "cs_tx sample_consumer" "s_tx (nd_sess sample_node) = NoTx" "nd_deleted sample_node = []"
  "s_db (nd_sess sample_node) = opened_db"
  by (simp_all add: sample_consumer_def NewConsumer_def sample_node_def)

lemma sample_delivered:
  "nd_deleted (deliver sample_node) = [''rh-1'']"
  "map wl_balance (db_wallets (s_db (nd_sess (deliver sample_node)))) = [4000]"
  "fst (handle sample_external (\<lambda>_. Some sample_wire) sample_consumer sample_handle_draws sample_msg sample_node) = Inr ()"
  by code_simp+

theorem deletes_only_recorded_messages_witness:
  "message_recorded sample_external (\<lambda>_. Some sample_wire) sample_consumer sample_msg
     (s_db (nd_sess (snd (Run sample_external (\<lambda>_. Some sample_wire) sample_consumer
        [Received [(sample_handle_draws, sample_msg)]] sample_node))))"
proof -
  have "''rh-1'' \<in> set (nd_deleted (snd (Run sample_external (\<lambda>_. Some sample_wire) sample_consumer
        [Received [(sample_handle_draws, sample_msg)]] sample_node)))"
    using sample_delivered(1) by simp
  with deletes_only_recorded_messages [OF sample_simps(1-3), of sample_external "\<lambda>_. Some sample_wire"
      "[Received [(sample_handle_draws, sample_msg)]]"]
  show ?thesis by auto
qed

theorem delivery_all_or_nothing_witness:
  "message_recorded sample_external (\<lambda>_. Some sample_wire) sample_consumer sample_msg
     (s_db (nd_sess (snd (handle sample_external (\<lambda>_. Some sample_wire) sample_consumer
        sample_handle_draws sample_msg sample_node))))"
proof -
  obtain r n' where h: "handle sample_external (\<lambda>_. Some sample_wire) sample_consumer
        sample_handle_draws sample_msg sample_node = (r, n')" by fastforce
  with sample_delivered(3) have "r = Inr ()" by simp
  with delivery_all_or_nothing [OF sample_simps(1,2) h] h show ?thesis by simp
qed

lemma delivery_keeps_books_sample: "books (s_db (nd_sess (deliver sample_node)))"
  using delivery_keeps_books [OF sample_simps(1,2), of sample_handle_draws] books_opened
  by (simp add: sample_simps(4) opened_db_eq sample_opening_def sample_handle_draws_def sample_draws_def)

theorem redelivery_changes_nothing_witness:
  "s_db (nd_sess (snd (handle sample_external (\<lambda>_. Some sample_wire) sample_consumer sample_handle_draws
     sample_msg (deliver sample_node)))) = s_db (nd_sess (deliver sample_node))"
proof -
  let ?X = "sample_external" and ?u = "\<lambda>_::string. Some sample_wire"
  obtain en where en: "decode_envelope ?X ?u (qm_Body sample_msg) = Inr en" and mid: "en_MessageID en = ''m-1''"
    and ck: "check_envelope en = Inr (en_Data en)"
  proof -
    have "case decode_envelope ?X ?u (qm_Body sample_msg) of Inl _ \<Rightarrow> False
      | Inr en \<Rightarrow> en_MessageID en = ''m-1'' \<and> (case check_envelope en of Inl _ \<Rightarrow> False | Inr r \<Rightarrow> r = en_Data en)"
      by code_simp
    then show thesis using that by (auto split: sum.splits)
  qed
  have "case lookup_by inbox_key (''consumer'', ''m-1'') (db_inbox (s_db (nd_sess (deliver sample_node)))) of
      None \<Rightarrow> False | Some i \<Rightarrow> IsCompleted i"
    by code_simp
  then obtain i where i: "lookup_by inbox_key (''consumer'', ''m-1'') (db_inbox (s_db (nd_sess (deliver sample_node)))) = Some i"
    "IsCompleted i" by (auto split: option.splits)
  have cn: "cs_consumerName sample_consumer = ''consumer''" by (simp add: sample_consumer_def NewConsumer_def)
  obtain r n' where h: "handle ?X ?u sample_consumer sample_handle_draws sample_msg (deliver sample_node) = (r, n')"
    by fastforce
  from redelivery_changes_nothing [OF en ck _ i(2) h] i(1) show ?thesis by (simp add: h mid cn)
qed

end
