(* ===== verification/Auth.thy ===== *)
theory Auth
  imports Prelude
begin

text \<open>
  \<open>internal/auth/verifier.go\<close>: what a verified access token says of its bearer. Checking the
  signature, issuer and expiry of a token and decoding its JSON claims belong to the OIDC
  library; they are the two parameters of \<open>Verify\<close>.
\<close>

definition InternalServiceRole :: string where
  "InternalServiceRole = ''internal-service''"

datatype auth_error = ErrInvalidToken

record claims =
  cl_ProviderID :: string
  cl_Roles :: "string list"

fun has_role :: "string \<Rightarrow> string list \<Rightarrow> bool" where
  "has_role role [] = False"
| "has_role role (r # rs) = (if r = role then True else has_role role rs)"

definition HasRole :: "claims \<Rightarrow> string \<Rightarrow> bool" where
  "HasRole c role = has_role role (cl_Roles c)"

record raw_claims =
  rc_ProviderID :: string
  rc_RealmAccess_Roles :: "string list"

definition Verify ::
  "(string \<Rightarrow> 'idtoken option) \<Rightarrow> ('idtoken \<Rightarrow> raw_claims option) \<Rightarrow> string \<Rightarrow> auth_error + claims" where
  "Verify oidc_Verify token_Claims rawToken =
     (case oidc_Verify rawToken of
        None \<Rightarrow> Inl ErrInvalidToken
      | Some idToken \<Rightarrow>
          (case token_Claims idToken of
             None \<Rightarrow> Inl ErrInvalidToken
           | Some raw \<Rightarrow> Inr \<lparr>cl_ProviderID = rc_ProviderID raw, cl_Roles = rc_RealmAccess_Roles raw\<rparr>))"

lemma has_role_iff: "has_role role rs \<longleftrightarrow> role \<in> set rs"
  by (induction rs) auto

lemma HasRole_iff: "HasRole c role \<longleftrightarrow> role \<in> set (cl_Roles c)"
  by (simp add: HasRole_def has_role_iff)

text \<open>The zero \<open>Claims\<close> a request without a token has.\<close>

definition no_claims :: claims where
  "no_claims = \<lparr>cl_ProviderID = [], cl_Roles = []\<rparr>"

lemma no_claims_no_role: "\<not> HasRole no_claims role"
  by (simp add: HasRole_iff no_claims_def)

end
