(* ===== verification/Http.thy ===== *)
theory Http
  imports Nested WalletOps Process Auth
begin

text \<open>
  \<open>internal/httpapi\<close>: the HTTP adapter.

  A handler takes the request context, the request and the process, and returns its response
  with the process it leaves behind. \<open>wire\<close> collects what the handlers call of libraries: the
  decoding of a JSON body into the request struct (\<open>encoding/json\<close>, unknown fields refused) and
  \<open>uuid.Parse\<close>. A response body is the struct that is encoded; its time stamps are the times,
  not their RFC 3339 text, and the text of an error response is either a literal of the source
  or the text of an error value, \<open>err.Error()\<close>. The log lines are left out.

  Routing is that of \<open>net/http\<close>: a pattern is a method and a list of segments, of which the
  wildcards bind what they match; the path arrives cleaned and split.
\<close>

section \<open>Requests and responses\<close>

record http_request =
  rq_Method :: string
  rq_Path :: "string list"
  rq_Header :: "string \<Rightarrow> string"
  rq_Query :: "string \<Rightarrow> string"
  rq_Body :: string

record request_context =
  ctx_correlationID :: string
  ctx_claims :: claims
  ctx_PathValue :: "string \<Rightarrow> string"

datatype message = Text string | ErrorText error

record walletResponse =
  wres_ID :: uuid
  wres_PlayerID :: uuid
  wres_Balance :: money
  wres_Version :: i64
  wres_CreatedAt :: time
  wres_UpdatedAt :: time

record reconciliationResponse =
  rres_WalletID :: uuid
  rres_StoredBalance :: money
  rres_CalculatedBalance :: money
  rres_Difference :: money
  rres_Consistent :: bool
  rres_CheckedEntries :: nat

record ledgerEntryResponse =
  lres_ID :: uuid
  lres_WalletID :: uuid
  lres_TransactionID :: uuid
  lres_Direction :: direction
  lres_Amount :: money
  lres_BalanceBefore :: money
  lres_BalanceAfter :: money
  lres_CreatedAt :: time

record wagerTransactionResponse =
  tres_ID :: uuid
  tres_Status :: tx_status
  tres_Kind :: kind
  tres_ProviderID :: string
  tres_ExternalTransactionID :: string
  tres_PlayerID :: uuid
  tres_WalletID :: uuid
  tres_RoundID :: string
  tres_GameID :: string
  tres_Money :: money
  tres_ReferenceExternalTransactionID :: "string option"
  tres_ReferenceTransactionID :: "uuid option"
  tres_FailureCode :: failure_code
  tres_CreatedAt :: time
  tres_UpdatedAt :: time

record submitWagerTransactionResponse =
  sres_TransactionID :: uuid
  sres_Status :: tx_status
  sres_Balance :: money
  sres_IdempotentReplay :: bool
  sres_FailureCode :: failure_code

datatype body =
    errorResponse message
  | healthResponse string "message option"
  | WalletBody walletResponse
  | ReconciliationBody reconciliationResponse
  | LedgerBody "ledgerEntryResponse list"
  | SubmitBody submitWagerTransactionResponse
  | TransactionBody wagerTransactionResponse
  | MetricsBody registry
  | NotFoundBody

record http_response =
  rs_status :: i64
  rs_ContentType :: string
  rs_CorrelationId :: string
  rs_body :: body

type_synonym handler = "request_context \<Rightarrow> http_request \<Rightarrow> node \<Rightarrow> http_response \<times> node"

definition writeJSON :: "i64 \<Rightarrow> body \<Rightarrow> http_response" where
  "writeJSON status b = \<lparr>rs_status = status, rs_ContentType = ''application/json'', rs_CorrelationId = [], rs_body = b\<rparr>"

definition answer :: "i64 \<Rightarrow> body \<Rightarrow> node \<Rightarrow> http_response \<times> node" where
  "answer status b n = (writeJSON status b, n)"

section \<open>Errors\<close>

definition validationErrors :: "error list" where
  "validationErrors =
     [WalletE ErrNegativeInitialBalance, WagerE Wager_ErrInvalidInput, WagerE ErrInvalidKind,
      WagerE Wager_ErrNonPositiveAmount, WagerE ErrLossAmountMustBeZero, WagerE ErrMissingReference,
      WagerE ErrUnexpectedReference, MoneyE ErrInvalidAmount, MoneyE ErrInvalidCurrency,
      MoneyE ErrOverflow, MoneyE ErrCurrencyMismatch]"

fun is_one_of :: "error \<Rightarrow> error list \<Rightarrow> bool" where
  "is_one_of err [] = False"
| "is_one_of err (sentinel # rest) = (if err = sentinel then True else is_one_of err rest)"

definition isValidationError :: "error \<Rightarrow> bool" where
  "isValidationError err = is_one_of err validationErrors"

definition writeError :: "error \<Rightarrow> http_response" where
  "writeError err =
     (if err = AppE ErrWalletNotFound \<or> err = AppE ErrWagerTransactionNotFound \<or> err = AppE ErrLedgerEntryNotFound
      then writeJSON 404 (errorResponse (ErrorText err))
      else if err = AppE ErrWalletAlreadyExists \<or> err = AppE ErrIdempotencyConflict
      then writeJSON 409 (errorResponse (ErrorText err))
      else if isValidationError err then writeJSON 400 (errorResponse (ErrorText err))
      else if (case err of Unavailable _ \<Rightarrow> True | _ \<Rightarrow> False)
      then writeJSON 503 (errorResponse (Text ''service temporarily unavailable''))
      else writeJSON 500 (errorResponse (Text ''internal error'')))"

section \<open>Bodies on the wire\<close>

record wire_create =
  wc_PlayerID :: uuid
  wc_InitialBalance :: "(error + moneyJSON) option"

record wire_submit =
  ws_ExternalTransactionID :: string
  ws_PlayerID :: uuid
  ws_WalletID :: uuid
  ws_RoundID :: string
  ws_GameID :: string
  ws_Kind :: string
  ws_Money :: "(error + moneyJSON) option"
  ws_ReferenceExternalTransactionID :: "string option"

record wire =
  cx_uuid_Parse :: "string \<Rightarrow> uuid option"
  cx_create :: "string \<Rightarrow> wire_create option"
  cx_submit :: "string \<Rightarrow> wire_submit option"

record createWalletRequest =
  cr_PlayerID :: uuid
  cr_InitialBalance :: money

record submitWagerTransactionRequest =
  sq_ExternalTransactionID :: string
  sq_PlayerID :: uuid
  sq_WalletID :: uuid
  sq_RoundID :: string
  sq_GameID :: string
  sq_Kind :: kind
  sq_Money :: money
  sq_ReferenceExternalTransactionID :: "string option"

definition decode_create :: "external \<Rightarrow> wire \<Rightarrow> string \<Rightarrow> createWalletRequest option" where
  "decode_create X W b =
     (case cx_create W b of None \<Rightarrow> None
      | Some w \<Rightarrow> (case wire_money X (wc_InitialBalance w) of Inl _ \<Rightarrow> None
         | Inr m \<Rightarrow> Some \<lparr>cr_PlayerID = wc_PlayerID w, cr_InitialBalance = m\<rparr>))"

definition decode_submit :: "external \<Rightarrow> wire \<Rightarrow> string \<Rightarrow> submitWagerTransactionRequest option" where
  "decode_submit X W b =
     (case cx_submit W b of None \<Rightarrow> None
      | Some w \<Rightarrow> (case wire_money X (ws_Money w) of Inl _ \<Rightarrow> None
         | Inr m \<Rightarrow> Some \<lparr>sq_ExternalTransactionID = ws_ExternalTransactionID w, sq_PlayerID = ws_PlayerID w,
             sq_WalletID = ws_WalletID w, sq_RoundID = ws_RoundID w, sq_GameID = ws_GameID w,
             sq_Kind = kind_of_string (ws_Kind w), sq_Money = m,
             sq_ReferenceExternalTransactionID = ws_ReferenceExternalTransactionID w\<rparr>))"

section \<open>Wallet handlers\<close>

record request_draws =
  qd_minted :: string
  qd_duration :: int
  qd_create :: create_draws
  qd_submit :: draws

record deps =
  dp_Verify :: "string \<Rightarrow> auth_error + claims"
  dp_Ready :: "error option option"
  dp_Metrics :: bool
  dp_MetricsHandler :: bool

definition newWalletResponse :: "wallet \<Rightarrow> walletResponse" where
  "newWalletResponse w = \<lparr>wres_ID = w_id w, wres_PlayerID = w_playerID w, wres_Balance = w_balance w,
     wres_Version = w_version w, wres_CreatedAt = w_createdAt w, wres_UpdatedAt = w_updatedAt w\<rparr>"

definition createWallet :: "external \<Rightarrow> wire \<Rightarrow> deps \<Rightarrow> request_draws \<Rightarrow> handler" where
  "createWallet X W dp rd ctx r n =
     (case decode_create X W (rq_Body r) of
        None \<Rightarrow> answer 400 (errorResponse (Text ''malformed request body'')) n
      | Some req \<Rightarrow>
          if cr_PlayerID req = 0 then answer 400 (errorResponse (Text ''playerId is required'')) n
          else (case on_db (Create X (qd_create rd) \<lparr>cw_PlayerID = cr_PlayerID req,
                  cw_InitialBalance = cr_InitialBalance req, cw_CorrelationID = ctx_correlationID ctx\<rparr>) n of
             (Inl err, n) \<Rightarrow> (writeError err, n)
           | (Inr created, n) \<Rightarrow> answer 201 (WalletBody (newWalletResponse created)) n))"

definition getWallet :: "external \<Rightarrow> wire \<Rightarrow> deps \<Rightarrow> request_draws \<Rightarrow> handler" where
  "getWallet X W dp rd ctx r n =
     (case cx_uuid_Parse W (ctx_PathValue ctx ''walletId'') of
        None \<Rightarrow> answer 400 (errorResponse (Text ''invalid walletId'')) n
      | Some walletID \<Rightarrow>
          (case on_db (WalletGetter_Get X walletID) n of
             (Inl err, n) \<Rightarrow> (writeError err, n)
           | (Inr got, n) \<Rightarrow> answer 200 (WalletBody (newWalletResponse got)) n))"

definition reconcileWallet :: "external \<Rightarrow> wire \<Rightarrow> deps \<Rightarrow> request_draws \<Rightarrow> handler" where
  "reconcileWallet X W dp rd ctx r n =
     (case cx_uuid_Parse W (ctx_PathValue ctx ''walletId'') of
        None \<Rightarrow> answer 400 (errorResponse (Text ''invalid walletId'')) n
      | Some walletID \<Rightarrow>
          (case on_db (Reconcile X walletID) n of
             (Inl err, n) \<Rightarrow> (writeError err, n)
           | (Inr result, n) \<Rightarrow>
               let n = (if dp_Metrics dp
                   then n\<lparr>nd_metrics := ObserveReconciliation (rr_Consistent result)
                     (m_amount (rr_Difference result)) (nd_metrics n)\<rparr> else n) in
               answer 200 (ReconciliationBody \<lparr>rres_WalletID = rr_WalletID result,
                 rres_StoredBalance = rr_StoredBalance result,
                 rres_CalculatedBalance = rr_CalculatedBalance result,
                 rres_Difference = rr_Difference result, rres_Consistent = rr_Consistent result,
                 rres_CheckedEntries = rr_EntriesChecked result\<rparr>) n))"

definition newLedgerEntryResponse :: "ledger_entry \<Rightarrow> ledgerEntryResponse" where
  "newLedgerEntryResponse e = \<lparr>lres_ID = le_id e, lres_WalletID = le_walletID e,
     lres_TransactionID = le_transactionID e, lres_Direction = le_direction e, lres_Amount = le_amount e,
     lres_BalanceBefore = le_balanceBefore e, lres_BalanceAfter = le_balanceAfter e,
     lres_CreatedAt = le_createdAt e\<rparr>"

text \<open>The query parameters of the ledger listing: an absent one is the empty string.\<close>

definition parse_cursor :: "wire \<Rightarrow> string \<Rightarrow> uuid option option" where
  "parse_cursor W raw =
     (if raw \<noteq> [] then (case cx_uuid_Parse W raw of None \<Rightarrow> None | Some c \<Rightarrow> Some (Some c)) else Some None)"

definition parse_limit :: "string \<Rightarrow> i64 option" where
  "parse_limit raw =
     (if raw \<noteq> [] then (case parse_int raw of Inl _ \<Rightarrow> None
        | Inr parsed \<Rightarrow> if sint parsed < 0 then None else Some parsed) else Some 0)"

definition listWalletLedger :: "external \<Rightarrow> wire \<Rightarrow> deps \<Rightarrow> request_draws \<Rightarrow> handler" where
  "listWalletLedger X W dp rd ctx r n =
     (case cx_uuid_Parse W (ctx_PathValue ctx ''walletId'') of
        None \<Rightarrow> answer 400 (errorResponse (Text ''invalid walletId'')) n
      | Some walletID \<Rightarrow>
     (case parse_cursor W (rq_Query r ''cursor'') of
        None \<Rightarrow> answer 400 (errorResponse (Text ''invalid cursor'')) n
      | Some cursor \<Rightarrow>
     (case parse_limit (rq_Query r ''limit'') of
        None \<Rightarrow> answer 400 (errorResponse (Text ''invalid limit'')) n
      | Some limit \<Rightarrow>
     (case on_db (List_ledger X walletID cursor limit) n of
        (Inl err, n) \<Rightarrow> (writeError err, n)
      | (Inr entries, n) \<Rightarrow> answer 200 (LedgerBody (map newLedgerEntryResponse entries)) n))))"

section \<open>Wagering handlers\<close>

definition http_wagerOutcome :: "submit_result \<Rightarrow> string" where
  "http_wagerOutcome result =
     (if sr_IdempotentReplay result then ''replay''
      else to_lower (status_string (tx_status (sr_Transaction result))))"

definition newWagerTransactionResponse :: "transaction \<Rightarrow> wagerTransactionResponse" where
  "newWagerTransactionResponse tx =
     \<lparr>tres_ID = tx_id tx, tres_Status = tx_status tx, tres_Kind = tx_kind tx,
      tres_ProviderID = tx_providerID tx, tres_ExternalTransactionID = tx_externalTransactionID tx,
      tres_PlayerID = tx_playerID tx, tres_WalletID = tx_walletID tx, tres_RoundID = tx_roundID tx,
      tres_GameID = tx_gameID tx, tres_Money = tx_amount tx,
      tres_ReferenceExternalTransactionID = tx_referenceExternalTransactionID tx,
      tres_ReferenceTransactionID = tx_referenceTransactionID tx, tres_FailureCode = tx_failureCode tx,
      tres_CreatedAt = tx_createdAt tx, tres_UpdatedAt = tx_updatedAt tx\<rparr>"

text \<open>The input the request makes: the provider is the authenticated caller.\<close>

definition request_input :: "request_context \<Rightarrow> submitWagerTransactionRequest \<Rightarrow> submit_input" where
  "request_input ctx req =
     \<lparr>si_ProviderID = cl_ProviderID (ctx_claims ctx), si_ExternalTransactionID = sq_ExternalTransactionID req,
      si_PlayerID = sq_PlayerID req, si_WalletID = sq_WalletID req, si_RoundID = sq_RoundID req,
      si_GameID = sq_GameID req, si_Kind = sq_Kind req, si_Amount = sq_Money req,
      si_ReferenceExternalTransactionID = sq_ReferenceExternalTransactionID req,
      si_CorrelationID = ctx_correlationID ctx\<rparr>"

definition submitWagerTransaction :: "external \<Rightarrow> wire \<Rightarrow> deps \<Rightarrow> request_draws \<Rightarrow> handler" where
  "submitWagerTransaction X W dp rd ctx r n =
     (case decode_submit X W (rq_Body r) of
        None \<Rightarrow> answer 400 (errorResponse (Text ''malformed request body'')) n
      | Some req \<Rightarrow>
          (let providerID = cl_ProviderID (ctx_claims ctx); key = rq_Header r ''Idempotency-Key'' in
           if key = [] then answer 400 (errorResponse (Text ''Idempotency-Key header is required'')) n
           else if key \<noteq> providerID @ '':'' @ sq_ExternalTransactionID req
           then answer 400 (errorResponse (Text ''Idempotency-Key does not match providerId:externalTransactionId'')) n
           else (case on_db (Submit X (qd_submit rd) (request_input ctx req)) n of
               (Inl err, n) \<Rightarrow> (writeError err, n)
             | (Inr result, n) \<Rightarrow>
                 let n = (if dp_Metrics dp
                     then n\<lparr>nd_metrics := ObserveWagerSubmission (kind_string (sq_Kind req))
                       (http_wagerOutcome result) (nd_metrics n)\<rparr> else n) in
                 answer 200 (SubmitBody \<lparr>sres_TransactionID = tx_id (sr_Transaction result),
                   sres_Status = tx_status (sr_Transaction result), sres_Balance = sr_Balance result,
                   sres_IdempotentReplay = sr_IdempotentReplay result,
                   sres_FailureCode = tx_failureCode (sr_Transaction result)\<rparr>) n)))"

definition getWagerTransaction :: "external \<Rightarrow> wire \<Rightarrow> deps \<Rightarrow> request_draws \<Rightarrow> handler" where
  "getWagerTransaction X W dp rd ctx r n =
     (case cx_uuid_Parse W (ctx_PathValue ctx ''transactionId'') of
        None \<Rightarrow> answer 400 (errorResponse (Text ''invalid transactionId'')) n
      | Some i \<Rightarrow>
          (case on_db (WagerTransactionGetter_Get X i) n of
             (Inl err, n) \<Rightarrow> (writeError err, n)
           | (Inr tx, n) \<Rightarrow> answer 200 (TransactionBody (newWagerTransactionResponse tx)) n))"

text \<open>\<open>strings.TrimSpace\<close> leaves nothing exactly when the text is a sequence of encodings of white space:
  one byte for the ASCII spaces, two for U+0085 and U+00A0, three for U+1680, U+2000 to U+200A,
  U+2028, U+2029, U+202F, U+205F and U+3000.\<close>

definition space1 :: "nat \<Rightarrow> bool" where
  "space1 a \<longleftrightarrow> a \<in> {9, 10, 11, 12, 13, 32}"

definition space2 :: "nat \<Rightarrow> nat \<Rightarrow> bool" where
  "space2 a b \<longleftrightarrow> a = 194 \<and> b \<in> {133, 160}"

definition space3 :: "nat \<Rightarrow> nat \<Rightarrow> nat \<Rightarrow> bool" where
  "space3 a b c \<longleftrightarrow> a = 225 \<and> b = 154 \<and> c = 128
     \<or> a = 226 \<and> b = 128 \<and> (128 \<le> c \<and> c \<le> 138 \<or> c \<in> {168, 169, 175})
     \<or> a = 226 \<and> b = 129 \<and> c = 159
     \<or> a = 227 \<and> b = 128 \<and> c = 128"

fun all_space :: "nat list \<Rightarrow> bool" where
  "all_space [] = True"
| "all_space [a] = space1 a"
| "all_space [a, b] = (if space1 a then all_space [b] else space2 a b)"
| "all_space (a # b # c # s) =
     (if space1 a then all_space (b # c # s)
      else if space2 a b then all_space (c # s)
      else space3 a b c \<and> all_space s)"

definition blank :: "string \<Rightarrow> bool" where
  "blank s \<longleftrightarrow> all_space (map of_char s)"

definition getWagerTransactionByProvider :: "external \<Rightarrow> wire \<Rightarrow> deps \<Rightarrow> request_draws \<Rightarrow> handler" where
  "getWagerTransactionByProvider X W dp rd ctx r n =
     (let providerID = ctx_PathValue ctx ''providerId'';
          externalTransactionID = ctx_PathValue ctx ''externalTransactionId'';
          claims = ctx_claims ctx in
      if blank providerID \<or> blank externalTransactionID
      then answer 400 (errorResponse (Text ''providerId and externalTransactionId are required'')) n
      else if \<not> HasRole claims InternalServiceRole \<and> cl_ProviderID claims \<noteq> providerID
      then answer 403 (errorResponse (Text ''cannot access another provider's transactions'')) n
      else (case on_db (GetByProvider X providerID externalTransactionID) n of
          (Inl err, n) \<Rightarrow> (writeError err, n)
        | (Inr tx, n) \<Rightarrow> answer 200 (TransactionBody (newWagerTransactionResponse tx)) n))"

section \<open>Health\<close>

definition healthLive :: handler where
  "healthLive ctx r n = answer 200 (healthResponse ''ok'' None) n"

definition healthReady :: "deps \<Rightarrow> handler" where
  "healthReady dp ctx r n =
     (case dp_Ready dp of
        None \<Rightarrow> answer 200 (healthResponse ''ok'' None) n
      | Some (Some err) \<Rightarrow> answer 503 (healthResponse ''unavailable'' (Some (ErrorText err))) n
      | Some None \<Rightarrow> answer 200 (healthResponse ''ok'' None) n)"

section \<open>Authentication\<close>

definition CutPrefix :: "string \<Rightarrow> string \<Rightarrow> string option" where
  "CutPrefix s prefix =
     (if take (length prefix) s = prefix then Some (drop (length prefix) s) else None)"

definition requireAuth :: "deps \<Rightarrow> handler \<Rightarrow> handler" where
  "requireAuth dp next' ctx r n =
     (case CutPrefix (rq_Header r ''Authorization'') ''Bearer '' of
        None \<Rightarrow> answer 401 (errorResponse (Text ''missing bearer token'')) n
      | Some token \<Rightarrow>
          if token = [] then answer 401 (errorResponse (Text ''missing bearer token'')) n
          else (case dp_Verify dp token of
              Inl _ \<Rightarrow> answer 401 (errorResponse (Text ''invalid or expired token'')) n
            | Inr claims \<Rightarrow> next' (ctx\<lparr>ctx_claims := claims\<rparr>) r n))"

definition requireInternalRole :: "deps \<Rightarrow> handler \<Rightarrow> handler" where
  "requireInternalRole dp next' =
     requireAuth dp (\<lambda>ctx r n.
       if \<not> HasRole (ctx_claims ctx) InternalServiceRole
       then answer 403 (errorResponse (Text ''internal-service role required'')) n
       else next' ctx r n)"

section \<open>The server\<close>

datatype segment = Lit string | Wild string

record route =
  rt_method :: string
  rt_segments :: "segment list"
  rt_pattern :: string
  rt_handler :: handler

definition metricsHandler :: handler where
  "metricsHandler ctx r n =
     (\<lparr>rs_status = 200, rs_ContentType = ''text/plain'', rs_CorrelationId = [], rs_body = MetricsBody (nd_metrics n)\<rparr>, n)"

definition NewServer :: "external \<Rightarrow> wire \<Rightarrow> deps \<Rightarrow> request_draws \<Rightarrow> route list" where
  "NewServer X W dp rd =
    [\<lparr>rt_method = ''POST'', rt_segments = [Lit ''wallets''], rt_pattern = ''POST /wallets'',
      rt_handler = requireInternalRole dp (createWallet X W dp rd)\<rparr>,
     \<lparr>rt_method = ''GET'', rt_segments = [Lit ''wallets'', Wild ''walletId''],
      rt_pattern = ''GET /wallets/{walletId}'',
      rt_handler = requireInternalRole dp (getWallet X W dp rd)\<rparr>,
     \<lparr>rt_method = ''GET'', rt_segments = [Lit ''wallets'', Wild ''walletId'', Lit ''ledger''],
      rt_pattern = ''GET /wallets/{walletId}/ledger'',
      rt_handler = requireInternalRole dp (listWalletLedger X W dp rd)\<rparr>,
     \<lparr>rt_method = ''POST'', rt_segments = [Lit ''wallets'', Wild ''walletId'', Lit ''reconciliation''],
      rt_pattern = ''POST /wallets/{walletId}/reconciliation'',
      rt_handler = requireInternalRole dp (reconcileWallet X W dp rd)\<rparr>,
     \<lparr>rt_method = ''POST'', rt_segments = [Lit ''wagering'', Lit ''transactions''],
      rt_pattern = ''POST /wagering/transactions'',
      rt_handler = requireAuth dp (submitWagerTransaction X W dp rd)\<rparr>,
     \<lparr>rt_method = ''GET'', rt_segments = [Lit ''wagering'', Lit ''transactions'', Wild ''transactionId''],
      rt_pattern = ''GET /wagering/transactions/{transactionId}'',
      rt_handler = requireInternalRole dp (getWagerTransaction X W dp rd)\<rparr>,
     \<lparr>rt_method = ''GET'', rt_segments = [Lit ''providers'', Wild ''providerId'', Lit ''wagering'',
        Lit ''transactions'', Wild ''externalTransactionId''],
      rt_pattern = ''GET /providers/{providerId}/wagering/transactions/{externalTransactionId}'',
      rt_handler = requireAuth dp (getWagerTransactionByProvider X W dp rd)\<rparr>,
     \<lparr>rt_method = ''GET'', rt_segments = [Lit ''health'', Lit ''live''], rt_pattern = ''GET /health/live'',
      rt_handler = healthLive\<rparr>,
     \<lparr>rt_method = ''GET'', rt_segments = [Lit ''health'', Lit ''ready''], rt_pattern = ''GET /health/ready'',
      rt_handler = healthReady dp\<rparr>] @
    (if dp_MetricsHandler dp
     then [\<lparr>rt_method = ''GET'', rt_segments = [Lit ''metrics''], rt_pattern = ''GET /metrics'',
       rt_handler = metricsHandler\<rparr>] else [])"

text \<open>\<open>http.ServeMux\<close>: a \<open>GET\<close> pattern also matches \<open>HEAD\<close>; the patterns above do not overlap, so
  the first match is the only one.\<close>

fun match_segments :: "segment list \<Rightarrow> string list \<Rightarrow> (string \<times> string) list option" where
  "match_segments [] [] = Some []"
| "match_segments (Lit l # ps) (s # path) = (if s = l then match_segments ps path else None)"
| "match_segments (Wild w # ps) (s # path) =
     (if s = [] then None else map_option (\<lambda>b. (w, s) # b) (match_segments ps path))"
| "match_segments _ _ = None"

definition method_matches :: "string \<Rightarrow> string \<Rightarrow> bool" where
  "method_matches pat m \<longleftrightarrow> m = pat \<or> pat = ''GET'' \<and> m = ''HEAD''"

fun find_route :: "route list \<Rightarrow> string \<Rightarrow> string list \<Rightarrow> (route \<times> (string \<times> string) list) option" where
  "find_route [] m path = None"
| "find_route (rt # rts) m path =
     (case (if method_matches (rt_method rt) m then match_segments (rt_segments rt) path else None) of
        Some b \<Rightarrow> Some (rt, b)
      | None \<Rightarrow> find_route rts m path)"

definition path_matches :: "route list \<Rightarrow> string list \<Rightarrow> bool" where
  "path_matches rts path \<longleftrightarrow> list_ex (\<lambda>rt. match_segments (rt_segments rt) path \<noteq> None) rts"

definition mux_ServeHTTP :: "route list \<Rightarrow> request_context \<Rightarrow> http_request \<Rightarrow> node \<Rightarrow> http_response \<times> node" where
  "mux_ServeHTTP rts ctx r n =
     (case find_route rts (rq_Method r) (rq_Path r) of
        Some (rt, b) \<Rightarrow>
          rt_handler rt (ctx\<lparr>ctx_PathValue := (\<lambda>name. case map_of b name of None \<Rightarrow> [] | Some v \<Rightarrow> v)\<rparr>) r n
      | None \<Rightarrow>
          (\<lparr>rs_status = (if path_matches rts (rq_Path r) then 405 else 404),
            rs_ContentType = ''text/plain; charset=utf-8'', rs_CorrelationId = [], rs_body = NotFoundBody\<rparr>, n))"

definition ServeHTTP :: "external \<Rightarrow> wire \<Rightarrow> deps \<Rightarrow> request_draws \<Rightarrow> http_request \<Rightarrow> node \<Rightarrow> http_response \<times> node" where
  "ServeHTTP X W dp rd r n =
     (let correlationID = (if rq_Header r ''X-Correlation-Id'' = [] then qd_minted rd
        else rq_Header r ''X-Correlation-Id'');
          rts = NewServer X W dp rd in
      case mux_ServeHTTP rts \<lparr>ctx_correlationID = correlationID, ctx_claims = no_claims,
          ctx_PathValue = (\<lambda>_. [])\<rparr> r n of
        (res, n) \<Rightarrow>
          let pattern = (case find_route rts (rq_Method r) (rq_Path r) of None \<Rightarrow> [] | Some (rt, _) \<Rightarrow> rt_pattern rt) in
          (res\<lparr>rs_CorrelationId := correlationID\<rparr>,
           if dp_Metrics dp
           then n\<lparr>nd_metrics := ObserveRequest (rq_Method r) pattern (rs_status res) (qd_duration rd) (nd_metrics n)\<rparr>
           else n))"

section \<open>Who may do what\<close>

text \<open>The claims of the bearer token a request carries, if the token is accepted.\<close>

definition caller :: "deps \<Rightarrow> http_request \<Rightarrow> claims option" where
  "caller dp r = (case CutPrefix (rq_Header r ''Authorization'') ''Bearer '' of
     None \<Rightarrow> None
   | Some token \<Rightarrow> if token = [] then None else (case dp_Verify dp token of Inl _ \<Rightarrow> None | Inr c \<Rightarrow> Some c))"

definition internal_caller :: "deps \<Rightarrow> http_request \<Rightarrow> bool" where
  "internal_caller dp r \<longleftrightarrow> (case caller dp r of None \<Rightarrow> False | Some c \<Rightarrow> HasRole c InternalServiceRole)"

definition refusal :: "http_response \<Rightarrow> bool" where
  "refusal res \<longleftrightarrow> rs_status res \<in> {401, 403, 404, 405} \<and>
     (rs_body res = NotFoundBody \<or> (\<exists>t. rs_body res = errorResponse (Text t)))"

lemma requireAuth_caller:
  "requireAuth dp h ctx r n = (case caller dp r of
     None \<Rightarrow> (fst (requireAuth dp h ctx r n), n) | Some c \<Rightarrow> h (ctx\<lparr>ctx_claims := c\<rparr>) r n)"
  "caller dp r = None \<Longrightarrow> refusal (fst (requireAuth dp h ctx r n))"
  by (auto simp: requireAuth_def caller_def answer_def writeJSON_def refusal_def split: option.splits sum.splits)

lemma requireAuth_None: "caller dp r = None \<Longrightarrow> snd (requireAuth dp h ctx r n) = n"
  by (auto simp: requireAuth_def caller_def answer_def split: option.splits sum.splits if_splits)

lemma requireAuth_Some: "caller dp r = Some c \<Longrightarrow> requireAuth dp h ctx r n = h (ctx\<lparr>ctx_claims := c\<rparr>) r n"
  by (auto simp: requireAuth_def caller_def split: option.splits sum.splits if_splits)

lemma requireInternalRole_refuses:
  assumes "\<not> internal_caller dp r"
  shows "refusal (fst (requireInternalRole dp h ctx r n))" and "snd (requireInternalRole dp h ctx r n) = n"
proof -
  have "refusal (fst (requireInternalRole dp h ctx r n)) \<and> snd (requireInternalRole dp h ctx r n) = n"
  proof (cases "caller dp r")
    case None
    then show ?thesis
      using requireAuth_caller(2) requireAuth_None by (simp add: requireInternalRole_def)
  next
    case (Some c)
    with assms have "\<not> HasRole c InternalServiceRole" by (simp add: internal_caller_def)
    with Some show ?thesis
      by (simp add: requireInternalRole_def requireAuth_Some answer_def writeJSON_def refusal_def)
  qed
  then show "refusal (fst (requireInternalRole dp h ctx r n))" "snd (requireInternalRole dp h ctx r n) = n" by simp_all
qed

lemma find_route_SomeD:
  "find_route rts m path = Some (rt, b) \<Longrightarrow> rt \<in> set rts \<and> match_segments (rt_segments rt) path = Some b"
  by (induction rts) (auto split: if_splits option.splits)

lemma NewServer_internal:
  assumes "rt \<in> set (NewServer X W dp rd)"
    and "hd (rt_segments rt) = Lit ''wallets'' \<or>
      rt_segments rt = [Lit ''wagering'', Lit ''transactions'', Wild ''transactionId'']"
  shows "\<exists>h. rt_handler rt = requireInternalRole dp h"
  using assms by (auto simp: NewServer_def split: if_splits)

lemma match_hd:
  "match_segments ps (s # path) = Some b \<Longrightarrow> hd ps = Lit s \<or> (\<exists>w. hd ps = Wild w)"
  by (cases "(ps, s # path)" rule: match_segments.cases) (auto split: if_splits)

lemma NewServer_hd: "rt \<in> set (NewServer X W dp rd) \<Longrightarrow> \<exists>l. hd (rt_segments rt) = Lit l"
  by (auto simp: NewServer_def split: if_splits)


section \<open>Providers are kept apart\<close>

text \<open>What a caller of provider \<open>p\<close> may do to the transactions, writing the row \<open>i\<close>: the rows of
  the other providers stay.\<close>

definition foreign_kept :: "string \<Rightarrow> uuid \<Rightarrow> db \<Rightarrow> db \<Rightarrow> bool" where
  "foreign_kept p i d d' \<longleftrightarrow>
     ((\<forall>q\<in>set (db_wagers d). wr_id q = i \<longrightarrow> wr_provider_id q = Some p) \<longrightarrow>
      (\<forall>q\<in>set (db_wagers d'). wr_id q = i \<longrightarrow> wr_provider_id q = Some p) \<and>
      (\<forall>q. wr_provider_id q \<noteq> Some p \<longrightarrow> (q \<in> set (db_wagers d') \<longleftrightarrow> q \<in> set (db_wagers d))))"

lemma upsert_foreign:
  assumes "\<forall>q\<in>set rows. wr_id q = wr_id new \<longrightarrow> wr_provider_id q = Some p" and "wr_provider_id new = Some p"
  shows "\<forall>q\<in>set (upsert wr_id wager_merge new rows). wr_id q = wr_id new \<longrightarrow> wr_provider_id q = Some p"
    and "wr_provider_id q \<noteq> Some p \<Longrightarrow> q \<in> set (upsert wr_id wager_merge new rows) \<longleftrightarrow> q \<in> set rows"
proof -
  have m: "wr_provider_id (wager_merge r new) = wr_provider_id r" for r by (simp add: wager_merge_def)
  show "\<forall>q\<in>set (upsert wr_id wager_merge new rows). wr_id q = wr_id new \<longrightarrow> wr_provider_id q = Some p"
    using assms by (auto simp: upsert_def m)
  show "q \<in> set (upsert wr_id wager_merge new rows) \<longleftrightarrow> q \<in> set rows" if q: "wr_provider_id q \<noteq> Some p"
  proof
    assume "q \<in> set (upsert wr_id wager_merge new rows)"
    then show "q \<in> set rows"
      using assms q by (cases rule: wagers.upsert_rowE) (auto simp: m)
  next
    assume "q \<in> set rows"
    moreover from this assms q have "wr_id q \<noteq> wr_id new" by blast
    ultimately show "q \<in> set (upsert wr_id wager_merge new rows)" by (rule wagers.upsert_kept)
  qed
qed

interpretation foreign: table_law "foreign_kept p i" "\<lambda>q. wr_id q = i \<and> wr_provider_id q = Some p"
  "\<lambda>_. False" "\<lambda>_. True"
proof unfold_locales
  show "foreign_kept p i d (put_wager q d)" if "wr_id q = i \<and> wr_provider_id q = Some p" for d q
    unfolding foreign_kept_def put_fields
  proof (intro impI conjI)
    assume "\<forall>r\<in>set (db_wagers d). wr_id r = i \<longrightarrow> wr_provider_id r = Some p"
    then have own: "\<forall>r\<in>set (db_wagers d). wr_id r = wr_id q \<longrightarrow> wr_provider_id r = Some p"
      using that by simp
    show "\<forall>r\<in>set (upsert wr_id wager_merge q (db_wagers d)). wr_id r = i \<longrightarrow> wr_provider_id r = Some p"
      using upsert_foreign(1) [OF own] that by simp
    show "\<forall>r. wr_provider_id r \<noteq> Some p \<longrightarrow>
        (r \<in> set (upsert wr_id wager_merge q (db_wagers d)) \<longleftrightarrow> r \<in> set (db_wagers d))"
      using upsert_foreign(2) [OF own] that by blast
  qed
  show "foreign_kept p i a c" if "foreign_kept p i a b" "foreign_kept p i b c" for a b c
    using that unfolding foreign_kept_def by blast
qed (simp_all add: foreign_kept_def)

lemma Submit_foreign:
  "changes (foreign_kept (si_ProviderID i) (dr_tx_id dr)) (Submit X dr i)"
proof (rule foreign.Submit_changes)
  fix c tx'
  assume "NewTransaction (dr_tx_id dr) (dr_tx_now dr) (candidate_input i) = Inr c" and "tx_core tx' = tx_core c"
  note new = NewTransaction_Inr [OF this(1)] and core = tx_core_eqD [OF this(2)]
  have "si_ProviderID i \<noteq> []" using new(2) by (auto simp: input_ok_def candidate_input_def)
  with new(1) core show "wr_id (wager_row_of X tx') = dr_tx_id dr \<and>
      wr_provider_id (wager_row_of X tx') = Some (si_ProviderID i)"
    by (simp add: wager_row_of_def nullableString_def candidate_input_def)
qed

lemma GetByProvider_own:
  assumes "on_db (GetByProvider X p e) n = (r, n')"
  shows "s_db (nd_sess n') = s_db (nd_sess n)" and "r = Inr tx \<Longrightarrow> tx_providerID tx = p"
  using assms unfolding GetByProvider_def on_db_def
  by (auto split: prod.splits dest: find_wager_db elim!: find_wager_InrE simp: tx_of_def)

text \<open>The two handlers a provider reaches.\<close>

definition private_ok :: "claims \<Rightarrow> http_response \<Rightarrow> bool" where
  "private_ok c res \<longleftrightarrow> (case rs_body res of
       TransactionBody b \<Rightarrow> tres_ProviderID b = cl_ProviderID c
     | SubmitBody _ \<Rightarrow> True | errorResponse _ \<Rightarrow> True | NotFoundBody \<Rightarrow> True
     | healthResponse _ _ \<Rightarrow> True | MetricsBody _ \<Rightarrow> True | _ \<Rightarrow> False)"

lemma writeError_body: "\<exists>m. rs_body (writeError e) = errorResponse m"
  by (simp add: writeError_def writeJSON_def split: error.split)

lemma getByProvider_private:
  assumes "\<not> HasRole (ctx_claims ctx) InternalServiceRole"
    and "getWagerTransactionByProvider X W dp rd ctx r n = (res, n')"
  shows "private_ok (ctx_claims ctx) res \<and> s_db (nd_sess n') = s_db (nd_sess n)"
proof -
  let ?p = "ctx_PathValue ctx ''providerId''" and ?e = "ctx_PathValue ctx ''externalTransactionId''"
  obtain q n1 where q: "on_db (GetByProvider X ?p ?e) n = (q, n1)" by fastforce
  note own = GetByProvider_own [OF q]
  have err: "private_ok c (writeError e)" for c e
    using writeError_body [of e] by (auto simp: private_ok_def)
  consider (early) t st where "res = writeJSON st (errorResponse (Text t))" "n' = n"
    | (error) e where "q = Inl e" "res = writeError e" "n' = n1"
    | (found) tx where "q = Inr tx" "res = writeJSON 200 (TransactionBody (newWagerTransactionResponse tx))"
        "n' = n1" "cl_ProviderID (ctx_claims ctx) = ?p"
    using assms q
    by (cases q) (auto simp: getWagerTransactionByProvider_def Let_def answer_def split: if_splits)
  then show ?thesis
  proof cases
    case early
    then show ?thesis by (simp add: private_ok_def writeJSON_def)
  next
    case error
    with err own(1) show ?thesis by simp
  next
    case found
    with own show ?thesis by (simp add: private_ok_def writeJSON_def newWagerTransactionResponse_def)
  qed
qed

lemma submit_foreign:
  assumes "submitWagerTransaction X W dp rd ctx r n = (res, n')"
  shows "private_ok (ctx_claims ctx) res"
    and "foreign_kept (cl_ProviderID (ctx_claims ctx)) (dr_tx_id (qd_submit rd)) (s_db (nd_sess n)) (s_db (nd_sess n'))"
proof -
  have refl: "foreign_kept p i d d" for p i d by (simp add: foreign_kept_def)
  have err: "private_ok c (writeError e)" for c e
    using writeError_body [of e] by (auto simp: private_ok_def)
  have "private_ok (ctx_claims ctx) res \<and>
    foreign_kept (cl_ProviderID (ctx_claims ctx)) (dr_tx_id (qd_submit rd)) (s_db (nd_sess n)) (s_db (nd_sess n'))"
  proof (cases "decode_submit X W (rq_Body r)")
    case None
    with assms show ?thesis
      by (auto simp: submitWagerTransaction_def answer_def writeJSON_def private_ok_def refl)
  next
    case (Some req)
    obtain q s where q: "Submit X (qd_submit rd) (request_input ctx req) (nd_sess n) = (q, s)" by fastforce
    have "foreign_kept (cl_ProviderID (ctx_claims ctx)) (dr_tx_id (qd_submit rd)) (s_db (nd_sess n)) (s_db s)"
      using changesD [OF Submit_foreign q] by (simp add: request_input_def)
    with assms Some q err show ?thesis
      by (cases q) (auto simp: submitWagerTransaction_def on_db_def answer_def writeJSON_def private_ok_def refl Let_def
          split: if_splits)
  qed
  then show "private_ok (ctx_claims ctx) res"
    "foreign_kept (cl_ProviderID (ctx_claims ctx)) (dr_tx_id (qd_submit rd)) (s_db (nd_sess n)) (s_db (nd_sess n'))"
    by simp_all
qed

lemma NewServer_handlers:
  "rt \<in> set (NewServer X W dp rd) \<Longrightarrow> (\<exists>h. rt_handler rt = requireInternalRole dp h) \<or>
     rt_handler rt = requireAuth dp (submitWagerTransaction X W dp rd) \<or>
     rt_handler rt = requireAuth dp (getWagerTransactionByProvider X W dp rd) \<or>
     rt_handler rt = healthLive \<or> rt_handler rt = healthReady dp \<or> rt_handler rt = metricsHandler"
  by (auto simp: NewServer_def split: if_splits)

lemma private_route:
  assumes c: "caller dp r = Some c" "\<not> HasRole c InternalServiceRole"
    and rt: "rt \<in> set (NewServer X W dp rd)" and h: "rt_handler rt ctx r n = (rs, n1)"
  shows "private_ok c rs \<and> foreign_kept (cl_ProviderID c) (dr_tx_id (qd_submit rd)) (s_db (nd_sess n)) (s_db (nd_sess n1))"
  using NewServer_handlers [OF rt]
proof (elim disjE exE)
  have ni: "\<not> internal_caller dp r" using c by (simp add: internal_caller_def)
  fix h' assume "rt_handler rt = requireInternalRole dp h'"
  with requireInternalRole_refuses [OF ni, of h' ctx n] h show ?thesis
    by (auto simp: refusal_def private_ok_def foreign_kept_def)
next
  assume "rt_handler rt = requireAuth dp (submitWagerTransaction X W dp rd)"
  with h have "submitWagerTransaction X W dp rd (ctx\<lparr>ctx_claims := c\<rparr>) r n = (rs, n1)"
    by (simp add: requireAuth_Some [OF c(1)])
  from submit_foreign [OF this] show ?thesis by simp
next
  assume "rt_handler rt = requireAuth dp (getWagerTransactionByProvider X W dp rd)"
  with h have "getWagerTransactionByProvider X W dp rd (ctx\<lparr>ctx_claims := c\<rparr>) r n = (rs, n1)"
    by (simp add: requireAuth_Some [OF c(1)])
  from getByProvider_private [OF _ this] c(2) show ?thesis by (simp add: foreign_kept_def)
qed (use h in \<open>auto simp: healthLive_def healthReady_def metricsHandler_def answer_def writeJSON_def
    private_ok_def foreign_kept_def split: option.splits\<close>)

lemma private_mux:
  assumes "caller dp r = Some c" "\<not> HasRole c InternalServiceRole"
    and m: "mux_ServeHTTP (NewServer X W dp rd) ctx r n = (rs, n1)"
  shows "private_ok c rs \<and> foreign_kept (cl_ProviderID c) (dr_tx_id (qd_submit rd)) (s_db (nd_sess n)) (s_db (nd_sess n1))"
proof (cases "find_route (NewServer X W dp rd) (rq_Method r) (rq_Path r)")
  case None
  with m show ?thesis by (auto simp: mux_ServeHTTP_def private_ok_def foreign_kept_def)
next
  case (Some p)
  obtain rt b where p: "p = (rt, b)" by fastforce
  obtain ctx' where "rt_handler rt ctx' r n = (rs, n1)" using m Some p by (auto simp: mux_ServeHTTP_def)
  then show ?thesis
    by (rule private_route [OF assms(1,2) find_route_SomeD [OF Some [unfolded p], THEN conjunct1]])
qed

text \<open>Claim C16. Providers are kept apart: a caller whose token names provider \<open>p\<close> and lacks the
  internal role, whatever it sends to whatever path, is never shown a transaction of another
  provider nor any wallet or ledger, and leaves every transaction of the other providers as it
  was. The identifier drawn for a new transaction is taken to be new.\<close>

theorem providers_are_isolated:
  assumes "caller dp r = Some c" and "\<not> HasRole c InternalServiceRole"
    and "\<forall>q\<in>set (db_wagers (s_db (nd_sess n))). wr_id q \<noteq> dr_tx_id (qd_submit rd)"
    and "ServeHTTP X W dp rd r n = (res, n')"
  shows "private_ok c res \<and>
    (\<forall>q. wr_provider_id q \<noteq> Some (cl_ProviderID c) \<longrightarrow>
       (q \<in> set (db_wagers (s_db (nd_sess n'))) \<longleftrightarrow> q \<in> set (db_wagers (s_db (nd_sess n)))))"
proof -
  obtain rs n1 where m: "mux_ServeHTTP (NewServer X W dp rd) \<lparr>ctx_correlationID = (if rq_Header r ''X-Correlation-Id'' = []
      then qd_minted rd else rq_Header r ''X-Correlation-Id''), ctx_claims = no_claims,
      ctx_PathValue = (\<lambda>_. [])\<rparr> r n = (rs, n1)" by fastforce
  have same: "rs_body res = rs_body rs" "nd_sess n' = nd_sess n1"
    using assms(4) m by (auto simp: ServeHTTP_def Let_def split: if_splits)
  have "private_ok c rs" and
    kept: "foreign_kept (cl_ProviderID c) (dr_tx_id (qd_submit rd)) (s_db (nd_sess n)) (s_db (nd_sess n1))"
    using private_mux [OF assms(1,2) m] by simp_all
  with same(1) have "private_ok c res" by (simp add: private_ok_def)
  moreover have "wr_provider_id q \<noteq> Some (cl_ProviderID c) \<Longrightarrow>
     q \<in> set (db_wagers (s_db (nd_sess n1))) \<longleftrightarrow> q \<in> set (db_wagers (s_db (nd_sess n)))" for q
    using assms(3) kept unfolding foreign_kept_def by blast
  ultimately show ?thesis by (simp add: same(2))
qed

section \<open>Error responses\<close>

definition client_errors :: "error list" where
  "client_errors = [AppE ErrWalletNotFound, AppE ErrWagerTransactionNotFound, AppE ErrLedgerEntryNotFound,
     AppE ErrWalletAlreadyExists, AppE ErrIdempotencyConflict] @ validationErrors"

lemma is_one_of_iff: "is_one_of err es \<longleftrightarrow> err \<in> set es"
  by (induction es) auto

text \<open>Error responses are opaque: the text of an error reaches the client only for the
  sixteen sentinels a client can cause; every other error, in particular every one the database
  driver reports, is answered by one of two fixed texts, 503 when the database was not reached
  and 500 otherwise.\<close>

lemma errors_are_opaque:
  "writeError err \<in>
    (if err \<in> set client_errors
     then {writeJSON st (errorResponse (ErrorText err)) | st. st \<in> {400, 404, 409}}
     else if \<exists>p. err = Unavailable p then {writeJSON 503 (errorResponse (Text ''service temporarily unavailable''))}
     else {writeJSON 500 (errorResponse (Text ''internal error''))})"
  by (cases err) (auto simp: writeError_def client_errors_def isValidationError_def is_one_of_iff validationErrors_def)

section \<open>Requests on the sample tables\<close>

text \<open>A provider submits a transaction of kind \<open>k\<close> on the wallet 77, which does not exist.\<close>

definition sample_wire_submit :: "string \<Rightarrow> string option \<Rightarrow> uuid \<Rightarrow> wire" where
  "sample_wire_submit k ref wid = \<lparr>cx_uuid_Parse = (\<lambda>_. None), cx_create = (\<lambda>_. None),
     cx_submit = (\<lambda>_. Some \<lparr>ws_ExternalTransactionID = ''t-1'', ws_PlayerID = 2, ws_WalletID = wid,
       ws_RoundID = ''round-1'', ws_GameID = ''game-1'', ws_Kind = k,
       ws_Money = Some (Inr \<lparr>j_currency = ''BRL'', j_amount = (if k = ''LOSS'' then ''0.00'' else ''10.00'')\<rparr>),
       ws_ReferenceExternalTransactionID = ref\<rparr>)\<rparr>"

definition sample_deps :: deps where
  "sample_deps = \<lparr>dp_Verify = (\<lambda>t. if t = ''provider'' then Inr \<lparr>cl_ProviderID = ''provider-a'', cl_Roles = []\<rparr>
       else if t = ''internal'' then Inr \<lparr>cl_ProviderID = [], cl_Roles = [InternalServiceRole]\<rparr>
       else Inl ErrInvalidToken), dp_Ready = None, dp_Metrics = True, dp_MetricsHandler = True\<rparr>"

definition sample_request_draws :: request_draws where
  "sample_request_draws = \<lparr>qd_minted = ''minted'', qd_duration = 7, qd_create = sample_create_draws,
     qd_submit = sample_draws\<rparr>"

definition sample_post :: "string \<Rightarrow> string list \<Rightarrow> string \<Rightarrow> http_request" where
  "sample_post m path token = \<lparr>rq_Method = m, rq_Path = path,
     rq_Header = (\<lambda>h. if h = ''Authorization'' then ''Bearer '' @ token
       else if h = ''Idempotency-Key'' then ''provider-a:t-1'' else []),
     rq_Query = (\<lambda>_. []), rq_Body = []\<rparr>"

definition http_node :: node where
  "http_node = \<lparr>nd_sess = calm NoTx opened_db, nd_metrics = Metrics_New, nd_deleted = []\<rparr>"

definition submit_status :: "string \<Rightarrow> string option \<Rightarrow> uuid \<Rightarrow> i64" where
  "submit_status k ref wid = rs_status (fst (ServeHTTP sample_external (sample_wire_submit k ref wid) sample_deps
     sample_request_draws (sample_post ''POST'' [''wagering'', ''transactions''] ''provider'') http_node))"



theorem providers_are_isolated_witness:
  "private_ok \<lparr>cl_ProviderID = ''provider-a'', cl_Roles = []\<rparr>
     (fst (ServeHTTP sample_external (sample_wire_submit ''BET'' None 3) sample_deps sample_request_draws
       (sample_post ''POST'' [''wagering'', ''transactions''] ''provider'') http_node)) \<and>
   submit_status ''BET'' None 3 = 200"
proof
  let ?r = "sample_post ''POST'' [''wagering'', ''transactions''] ''provider''"
  let ?c = "\<lparr>cl_ProviderID = ''provider-a'', cl_Roles = []\<rparr>"
  obtain res n' where run: "ServeHTTP sample_external (sample_wire_submit ''BET'' None 3) sample_deps
      sample_request_draws ?r http_node = (res, n')" by fastforce
  have "caller sample_deps ?r = Some ?c"
    by (simp add: caller_def sample_post_def sample_deps_def CutPrefix_def)
  from providers_are_isolated [OF this _ _ run]
  show "private_ok ?c (fst (ServeHTTP sample_external (sample_wire_submit ''BET'' None 3) sample_deps
      sample_request_draws ?r http_node))"
    unfolding run by (simp add: HasRole_iff http_node_def opened_db_eq sample_opening_def
        sample_request_draws_def sample_draws_def)
  show "submit_status ''BET'' None 3 = 200" by code_simp
qed

end
