(* ===== verification/Publishing.thy ===== *)
theory Publishing
  imports Worker Books
begin

text \<open>
  What a run of the outbox worker does. \<open>attempted\<close> is the entry after one attempt; a run leaves
  the outbox as it was or with the oldest due entry attempted, whatever fails. The loop of
  \<open>registerOutboxWorker\<close> (\<open>cmd/croupier/lifecycle.go\<close>) repeats runs until one finds nothing or
  fails; \<open>drain\<close> is that loop, \<open>None\<close> when it does not end.
\<close>

section \<open>One attempt\<close>

definition attempted ::
  "external \<Rightarrow> (sqs_message \<Rightarrow> error option) \<Rightarrow> string \<Rightarrow> i64 \<Rightarrow> time \<Rightarrow> outbox_entry \<Rightarrow> outbox_entry" where
  "attempted X send q base now e =
     (if Publish X send q e = None then MarkPublished e
      else e\<lparr>oe_retryCount := oe_retryCount e + 1,
             oe_nextSendAt := now + sint (backoffDelay base (oe_retryCount e))\<rparr>)"

lemma attempted_simps [simp]:
  "oe_id (attempted X send q base now e) = oe_id e"
  "oe_createdAt (attempted X send q base now e) = oe_createdAt e"
  "oe_aggregateID (attempted X send q base now e) = oe_aggregateID e"
  by (simp_all add: attempted_def MarkPublished_def)

lemma attempt_eq:
  "oe_status e = StatusPending \<Longrightarrow> attempt X send q base now e = SaveAll [attempted X send q base now e]"
  by (auto simp: attempt_def attempted_def ScheduleRetry_def bindE_def fun_eq_iff simp del: SaveAll.simps
      split: option.splits)

lemma oldest_in: "oldest es = Some e \<Longrightarrow> e \<in> set es"
  by (induction es arbitrary: e) (auto split: option.splits if_splits)

lemma oldest_None: "oldest es = None \<longleftrightarrow> es = []"
  by (cases es) (auto split: option.splits)

lemma oldest_least: "oldest es = Some e \<Longrightarrow> f \<in> set es \<Longrightarrow> oe_createdAt e \<le> oe_createdAt f"
proof (induction es arbitrary: e)
  case (Cons g es)
  show ?case
  proof (cases "oldest es")
    case None
    with Cons.prems show ?thesis by (auto simp: oldest_None)
  next
    case (Some a)
    with Cons.prems Cons.IH [OF Some] show ?thesis
      by (auto split: if_splits intro: order.trans [OF linear [THEN disjE]] dest: order.trans)
  qed
qed simp

definition due :: "time \<Rightarrow> db \<Rightarrow> outbox_entry option" where
  "due now d = oldest (filter (is_due_entry now) (db_outbox d))"

lemma dueD:
  assumes "due now d = Some e"
  shows "e \<in> set (db_outbox d)" "is_due_entry now e" "oe_status e = StatusPending"
  using oldest_in [OF assms [unfolded due_def]] by (auto simp: is_due_entry_def)

lemma scan_entry: "scanOutboxEntry e = Inr e"
  by (simp add: scanOutboxEntry_def EntryFromPersistence_def)

lemma RunOnce_body_InrE:
  assumes "RunOnce_body X send q base now_db now s = (Inr p, t)"
  obtains (none) "s_db t = s_db s" "\<not> p"
    | (one) e where "due now_db (s_db s) = Some e" "s_db t = put_event (attempted X send q base now e) (s_db s)" "p"
proof -
  obtain r s1 where r: "FindDueForUpdate now_db s = (r, s1)" by fastforce
  show thesis
  proof (cases r)
    case (Inl e)
    have "s_db s1 = s_db s" using r unfolding finds_read_one by (rule read_one_db)
    with assms r Inl none show thesis by (auto simp: RunOnce_body_def onResult_def split: if_splits)
  next
    case (Inr e)
    from r [unfolded Inr finds_read_one] have e: "due now_db (s_db s) = Some e" "s_db s1 = s_db s"
      by (auto elim!: read_one_InrE simp: due_def scan_entry)
    have "SaveAll [attempted X send q base now e] s1 = (Inr (), t) \<and> p"
      using assms r Inr attempt_eq [OF dueD(3) [OF e(1)]]
      by (auto simp: RunOnce_body_def onResult_def bindE_def simp del: SaveAll.simps split: prod.splits sum.splits)
    with e one show thesis by (auto elim!: SaveAll_InrE simp del: SaveAll.simps)
  qed
qed

lemma RunOnce_effect:
  assumes "RunOnce X send q base now_db now s = (r, t)" and "s_tx s = NoTx"
  shows "s_db t = s_db s \<or> (\<exists>e. due now_db (s_db s) = Some e \<and>
    s_db t = put_event (attempted X send q base now e) (s_db s))"
  using assms unfolding RunOnce_def
  by (cases rule: WithinTx_cases) (auto elim!: RunOnce_body_InrE)

text \<open>Claim C20. An event is marked as published only when the queue accepted the message that
  carries it, with its identifier as the deduplication key: whatever fails in the database, a run
  turns no entry into a published one without a successful send of exactly that entry.\<close>

theorem published_only_if_sent:
  assumes "s_tx s = NoTx" and "distinct (map oe_id (db_outbox (s_db s)))"
    and "RunOnce X send q base now_db now s = (r, t)"
    and "e' \<in> set (db_outbox (s_db t))" and "oe_status e' = StatusPublished"
  shows "e' \<in> set (db_outbox (s_db s)) \<or>
    (\<exists>e\<in>set (db_outbox (s_db s)). e' = MarkPublished e \<and> send (event_message X q e) = None \<and>
       sm_MessageDeduplicationId (event_message X q e) = x_uuid X (oe_id e'))"
proof (cases "s_db t = s_db s")
  case True
  with assms(4) show ?thesis by simp
next
  case False
  then obtain e where e: "due now_db (s_db s) = Some e"
    "s_db t = put_event (attempted X send q base now e) (s_db s)"
    using RunOnce_effect [OF assms(3,1)] by blast
  note D = dueD [OF e(1)]
  have lk: "lookup_by oe_id (oe_id e) (db_outbox (s_db s)) = Some e"
    using assms(2) D(1) by (rule lookup_by_eqI)
  have "outbox_merge e (attempted X send q base now e) = attempted X send q base now e"
    by (simp add: outbox_merge_def attempted_def MarkPublished_def)
  then have "e' \<in> set (db_outbox (s_db s)) \<or> e' = attempted X send q base now e"
    using assms(4) e(2) outbox.upsert_set [OF assms(2), of "attempted X send q base now e"] lk by auto
  moreover have "send (event_message X q e) = None \<and> e' = MarkPublished e"
    if "e' = attempted X send q base now e"
    using that assms(5) D(3) by (auto simp: attempted_def Publish_def split: if_splits)
  ultimately show ?thesis
    using D(1) by (auto simp: event_message_def MarkPublished_def)
qed

section \<open>A run without failures\<close>

lemma calm_due: "st \<noteq> TxAborted \<Longrightarrow> FindDueForUpdate now (calm st d) =
    (case due now d of None \<Rightarrow> (Inl (AppE ErrOutboxEntryNotFound), calm st d) | Some e \<Rightarrow> (Inr e, calm st d))"
  by (simp add: finds_read_one calm_read_one due_def scan_entry no_rows_as_def split: option.split)

lemma calm_RunOnce:
  "RunOnce X send q base now_db now (calm NoTx d) =
    (case due now_db d of None \<Rightarrow> (Inr False, calm NoTx d)
     | Some e \<Rightarrow> (Inr True, calm NoTx (put_event (attempted X send q base now e) d)))"
proof (cases "due now_db d")
  case None
  have "RunOnce_body X send q base now_db now (calm TxActive d) = (Inr False, calm TxActive d)"
    using None by (simp add: RunOnce_body_def onResult_def calm_due)
  with None show ?thesis by (simp add: RunOnce_def calm_WithinTx_ok)
next
  case (Some e)
  have "RunOnce_body X send q base now_db now (calm TxActive d) =
      (Inr True, calm TxActive (put_event (attempted X send q base now e) d))"
    using Some attempt_eq [OF dueD(3) [OF Some]]
    by (simp add: RunOnce_body_def onResult_def calm_due bindE_def calm_SaveAll del: SaveAll.simps)
  with Some show ?thesis by (simp add: RunOnce_def calm_WithinTx_ok)
qed

section \<open>The drain loop\<close>

partial_function (option) drain ::
  "(nat \<Rightarrow> (sess, error, bool) prog) \<Rightarrow> nat \<Rightarrow> sess \<Rightarrow> sess option" where
  "drain run k s = (case run k s of
      (Inl err, s') \<Rightarrow> Some s'
    | (Inr found, s') \<Rightarrow> if \<not> found then Some s' else drain run (Suc k) s')"

text \<open>The outbox with every due entry attempted.\<close>

definition attempt_all ::
  "external \<Rightarrow> (sqs_message \<Rightarrow> error option) \<Rightarrow> string \<Rightarrow> i64 \<Rightarrow> time \<Rightarrow> time \<Rightarrow> db \<Rightarrow> db" where
  "attempt_all X send q base now_db now d = d\<lparr>db_outbox :=
     map (\<lambda>e. if is_due_entry now_db e then attempted X send q base now e else e) (db_outbox d)\<rparr>"

lemma put_attempted:
  assumes "distinct (map oe_id (db_outbox d))" and "e \<in> set (db_outbox d)"
  shows "put_event (attempted X send q base now e) d =
    d\<lparr>db_outbox := map (\<lambda>r. if r = e then attempted X send q base now e else r) (db_outbox d)\<rparr>"
proof -
  have lk: "lookup_by oe_id (oe_id e) (db_outbox d) = Some e" using assms by (rule lookup_by_eqI)
  have eq: "oe_id r = oe_id e \<longleftrightarrow> r = e" if "r \<in> set (db_outbox d)" for r
    using assms that by (auto simp: distinct_map dest: inj_onD)
  have "outbox_merge e (attempted X send q base now e) = attempted X send q base now e"
    by (simp add: outbox_merge_def attempted_def MarkPublished_def)
  then show ?thesis
    using lk eq by (auto simp: put_event_def upsert_def intro!: map_cong)
qed

text \<open>The delay is positive, so an attempted entry is not due again at the same time.\<close>

definition delay_ok :: "i64 \<Rightarrow> bool" where
  "delay_ok base \<longleftrightarrow> 0 < sint base \<and> sint base < 2 ^ 43"

lemma delay_positive:
  assumes "delay_ok base"
  shows "0 < sint (backoffDelay base n)"
proof -
  have "sint base * 2 ^ doublings n < 2 ^ 43 * 2 ^ doublings n"
    using assms by (intro mult_strict_right_mono) (simp_all add: delay_ok_def)
  also have "(2::int) ^ 43 * 2 ^ doublings n \<le> 2 ^ 43 * 2 ^ 20"
    by (intro mult_left_mono power_increasing) (simp_all add: doublings_le)
  finally have "sint base * 2 ^ doublings n < 2 ^ 43 * 2 ^ 20" .
  moreover have pos: "0 < sint base * 2 ^ doublings n" using assms by (simp add: delay_ok_def)
  ultimately have "fits_i64 (sint base * 2 ^ doublings n)" by (simp add: fits_i64_def)
  with pos show ?thesis by (simp only: backoffDelay_push sint_push_bit_fits)
qed

lemma attempted_not_due:
  assumes "delay_ok base" and "now_db \<le> now"
  shows "\<not> is_due_entry now_db (attempted X send q base now e)"
  using assms delay_positive [OF assms(1), of "oe_retryCount e"]
  by (auto simp: attempted_def is_due_entry_def MarkPublished_def)

lemma attempt_step:
  assumes "distinct (map oe_id (db_outbox d))" and "e \<in> set (db_outbox d)" and "is_due_entry now_db e"
    and "delay_ok base" and "now_db \<le> now"
  shows "attempt_all X send q base now_db now (put_event (attempted X send q base now e) d) =
      attempt_all X send q base now_db now d"
    and "length (filter (is_due_entry now_db) (db_outbox (put_event (attempted X send q base now e) d))) <
      length (filter (is_due_entry now_db) (db_outbox d))"
    and "distinct (map oe_id (db_outbox (put_event (attempted X send q base now e) d)))"
proof -
  note put = put_attempted [OF assms(1,2), of X send q base now]
  note nd = attempted_not_due [OF assms(4,5)]
  let ?f = "\<lambda>r. if r = e then attempted X send q base now e else r"
  show "attempt_all X send q base now_db now (put_event (attempted X send q base now e) d) =
      attempt_all X send q base now_db now d"
    using nd assms(3) by (simp add: attempt_all_def put)
  have "filter (is_due_entry now_db) (map ?f rows) = filter (\<lambda>r. is_due_entry now_db r \<and> r \<noteq> e) rows" for rows
    using nd by (induction rows) auto
  moreover have "length (filter (\<lambda>r. is_due_entry now_db r \<and> r \<noteq> e) rows) < length (filter (is_due_entry now_db) rows)"
    if "e \<in> set rows" for rows
    using that
  proof (induction rows)
    case (Cons r rows)
    have le: "length (filter (\<lambda>r. is_due_entry now_db r \<and> r \<noteq> e) rows) \<le> length (filter (is_due_entry now_db) rows)"
      by (induction rows) auto
    show ?case
    proof (cases "r = e")
      case True
      with assms(3) le show ?thesis by simp
    next
      case False
      with Cons show ?thesis by simp
    qed
  qed simp
  ultimately show "length (filter (is_due_entry now_db) (db_outbox (put_event (attempted X send q base now e) d))) <
      length (filter (is_due_entry now_db) (db_outbox d))"
    using assms(2) by (simp add: put)
  show "distinct (map oe_id (db_outbox (put_event (attempted X send q base now e) d)))"
    using assms(1) by (simp add: outbox.upsert_distinct)
qed


section \<open>Two events of one wallet\<close>

definition sample_event :: "uuid \<Rightarrow> time \<Rightarrow> outbox_entry" where
  "sample_event i at = \<lparr>oe_id = i, oe_aggregateType = ''wallet'', oe_aggregateID = 3,
     oe_eventType = ''WalletBalanceChanged'', oe_version = 1, oe_payload = ''{}'', oe_occurredAt = at,
     oe_correlationID = ''c'', oe_causationID = None, oe_status = StatusPending, oe_retryCount = 0,
     oe_nextSendAt = at, oe_createdAt = at\<rparr>"

definition two_events :: db where
  "two_events = no_tables\<lparr>db_outbox := [sample_event 1 1, sample_event 2 2]\<rparr>"

definition accept :: "sqs_message \<Rightarrow> error option" where
  "accept m = None"

definition throttle :: "sqs_message \<Rightarrow> error option" where
  "throttle m = Some (ExternalE ''throttled'')"


theorem published_only_if_sent_witness:
  "MarkPublished (sample_event 1 1) \<in> set (db_outbox (s_db (snd (RunOnce sample_external accept ''q'' 1000 5 5
      (calm NoTx two_events))))) \<and>
   (\<exists>e\<in>set (db_outbox two_events). MarkPublished (sample_event 1 1) = MarkPublished e \<and>
      accept (event_message sample_external ''q'' e) = None)"
proof -
  let ?e = "MarkPublished (sample_event 1 1)"
  obtain r t where run: "RunOnce sample_external accept ''q'' 1000 5 5 (calm NoTx two_events) = (r, t)" by fastforce
  have "?e \<in> set (db_outbox (s_db (snd (RunOnce sample_external accept ''q'' 1000 5 5 (calm NoTx two_events)))))"
    by code_simp
  then have e: "?e \<in> set (db_outbox (s_db t))" by (simp add: run)
  have "?e \<notin> set (db_outbox two_events)" by code_simp
  moreover have "distinct (map oe_id (db_outbox two_events))" by code_simp
  ultimately show ?thesis
    using published_only_if_sent [OF _ _ run e] e run by (auto simp: MarkPublished_def)
qed


end
