(* ===== verification/Assembly.thy ===== *)
theory Assembly
  imports Metrics Gostd Errors
begin

text \<open>
  \<open>cmd/croupier\<close>, \<open>internal/sqs/client.go\<close> and \<open>internal/postgres/migrate.go\<close>: the configuration
  read from the environment, the options of the SQS client, the migrations at start, the restart
  loop around the background workers, the dead-letter queue poller and the readiness check.

  \<open>env\<close> is \<open>os.Getenv\<close>, which answers the empty string for an unset variable. The calls to AWS,
  to the database pool and to the migration library are parameters that give their outcome. The
  hooks of the process are in \<open>Lifecycle\<close>; the dependency graph itself belongs to Fx.
\<close>

section \<open>Durations\<close>

text \<open>\<open>time.ParseDuration\<close>. \<open>frac f unit scale\<close> is what its floating-point product adds for the
  digits \<open>f\<close> after the point, \<open>uint64(float64(f) * (float64(unit) / scale))\<close>. Strings are the bytes
  of their UTF-8 text.\<close>

definition Nanosecond :: nat where "Nanosecond = 1"
definition Microsecond :: nat where "Microsecond = 1000"
definition Millisecond :: nat where "Millisecond = 1000000"
definition Second :: nat where "Second = 1000000000"
definition Minute :: nat where "Minute = 60000000000"
definition Hour :: nat where "Hour = 3600000000000"

lemmas units_of_time = Nanosecond_def Microsecond_def Millisecond_def Second_def Minute_def Hour_def

definition unitMap :: "string \<Rightarrow> nat option" where
  "unitMap u =
     (if u = ''ns'' then Some Nanosecond
      else if u = ''us'' \<or> u = [char_of (194::nat), char_of (181::nat), CHR ''s'']
         \<or> u = [char_of (206::nat), char_of (188::nat), CHR ''s''] then Some Microsecond
      else if u = ''ms'' then Some Millisecond
      else if u = ''s'' then Some Second
      else if u = ''m'' then Some Minute
      else if u = ''h'' then Some Hour
      else None)"

text \<open>\<open>leadingInt\<close> with its two overflow tests against \<open>1 << 63\<close>.\<close>

fun leadingInt :: "nat \<Rightarrow> string \<Rightarrow> (nat \<times> string) option" where
  "leadingInt x [] = Some (x, [])"
| "leadingInt x (c # s) =
     (if \<not> is_digit c then Some (x, c # s)
      else if x > 2 ^ 63 div 10 then None
      else if x * 10 + digit_val c > 2 ^ 63 then None
      else leadingInt (x * 10 + digit_val c) s)"

text \<open>\<open>leadingFraction\<close>: on overflow the remaining digits are dropped.\<close>

fun leadingFraction :: "nat \<Rightarrow> nat \<Rightarrow> bool \<Rightarrow> string \<Rightarrow> nat \<times> nat \<times> string" where
  "leadingFraction x scale overflow [] = (x, scale, [])"
| "leadingFraction x scale overflow (c # s) =
     (if \<not> is_digit c then (x, scale, c # s)
      else if overflow then leadingFraction x scale True s
      else if x > (2 ^ 63 - 1) div 10 then leadingFraction x scale True s
      else if x * 10 + digit_val c > 2 ^ 63 then leadingFraction x scale True s
      else leadingFraction (x * 10 + digit_val c) (scale * 10) False s)"

definition duration_term ::
  "(nat \<Rightarrow> nat \<Rightarrow> nat \<Rightarrow> nat) \<Rightarrow> string \<Rightarrow> (nat \<times> string) option" where
  "duration_term frac s =
     (case leadingInt 0 s of
        None \<Rightarrow> None
      | Some (v, s1) \<Rightarrow>
          (let pre = (length s1 \<noteq> length s);
               (f, scale, s2, post) = (case s1 of
                   c # r \<Rightarrow> if c = CHR ''.'' then (case leadingFraction 0 1 False r of
                       (f, scale, r') \<Rightarrow> (f, scale, r', length r' \<noteq> length r)) else (0, 1, s1, False)
                 | [] \<Rightarrow> (0, 1, s1, False));
               u = takeWhile (\<lambda>c. c \<noteq> CHR ''.'' \<and> \<not> is_digit c) s2;
               rest = dropWhile (\<lambda>c. c \<noteq> CHR ''.'' \<and> \<not> is_digit c) s2
           in if \<not> pre \<and> \<not> post then None
              else if u = [] then None
              else (case unitMap u of
                  None \<Rightarrow> None
                | Some unit \<Rightarrow>
                    if v > 2 ^ 63 div unit then None
                    else (let v = v * unit + (if f > 0 then frac f unit scale else 0) in
                      if v > 2 ^ 63 then None else Some (v, rest)))))"

fun duration_terms :: "(nat \<Rightarrow> nat \<Rightarrow> nat \<Rightarrow> nat) \<Rightarrow> nat \<Rightarrow> nat \<Rightarrow> string \<Rightarrow> nat option" where
  "duration_terms frac 0 d s = (if s = [] then Some d else None)"
| "duration_terms frac (Suc fuel) d s =
     (if s = [] then Some d
      else if \<not> (hd s = CHR ''.'' \<or> is_digit (hd s)) then None
      else (case duration_term frac s of
          None \<Rightarrow> None
        | Some (v, rest) \<Rightarrow> if d + v > 2 ^ 63 then None else duration_terms frac fuel (d + v) rest))"

definition ParseDuration :: "(nat \<Rightarrow> nat \<Rightarrow> nat \<Rightarrow> nat) \<Rightarrow> string \<Rightarrow> i64 option" where
  "ParseDuration frac s =
     (let neg = (case s of c # _ \<Rightarrow> c = CHR ''-'' | [] \<Rightarrow> False);
          s = (case s of c # r \<Rightarrow> if c = CHR ''-'' \<or> c = CHR ''+'' then r else s | [] \<Rightarrow> [])
      in if s = ''0'' then Some 0
         else if s = [] then None
         else (case duration_terms frac (length s) 0 s of
             None \<Rightarrow> None
           | Some d \<Rightarrow> if neg then Some (- of_nat d)
               else if d > 2 ^ 63 - 1 then None else Some (of_nat d)))"

section \<open>The configuration\<close>

type_synonym env = "string \<Rightarrow> string"

definition getenv :: "env \<Rightarrow> string \<Rightarrow> string \<Rightarrow> string" where
  "getenv env key fallback = (if env key \<noteq> [] then env key else fallback)"

datatype config_error = IntError string string num_error | DurationError string string

definition getenvInt :: "env \<Rightarrow> string \<Rightarrow> i64 \<Rightarrow> config_error + i64" where
  "getenvInt env key fallback =
     (if env key = [] then Inr fallback
      else (case parse_int (env key) of
          Inl e \<Rightarrow> Inl (IntError key (env key) e)
        | Inr v \<Rightarrow> Inr v))"

definition getenvDuration ::
  "(nat \<Rightarrow> nat \<Rightarrow> nat \<Rightarrow> nat) \<Rightarrow> env \<Rightarrow> string \<Rightarrow> i64 \<Rightarrow> config_error + i64" where
  "getenvDuration frac env key fallback =
     (if env key = [] then Inr fallback
      else (case ParseDuration frac (env key) of
          None \<Rightarrow> Inl (DurationError key (env key))
        | Some v \<Rightarrow> Inr v))"

record config =
  cf_PostgresDSN :: string
  cf_SQSEndpoint :: string
  cf_AWSRegion :: string
  cf_WagerTransactionsQueueName :: string
  cf_WagerTransactionsDLQName :: string
  cf_WalletEventsQueueName :: string
  cf_SQSConsumerName :: string
  cf_DLQDepthPollInterval :: i64
  cf_KeycloakIssuerURL :: string
  cf_AppPort :: string
  cf_PendingReferencePollInterval :: i64
  cf_PendingReferenceMaxAttempts :: i64
  cf_PendingReferenceTTL :: i64
  cf_PendingReferenceBackoffBase :: i64
  cf_OutboxPollInterval :: i64
  cf_OutboxBackoffBase :: i64
  cf_ShutdownTimeout :: i64

definition seconds :: "nat \<Rightarrow> i64" where
  "seconds n = of_nat (n * Second)"

definition LoadConfig :: "(nat \<Rightarrow> nat \<Rightarrow> nat \<Rightarrow> nat) \<Rightarrow> env \<Rightarrow> config_error + config" where
  "LoadConfig frac env =
    (let postgresHost = getenv env ''POSTGRES_HOST'' ''localhost'';
         postgresPort = getenv env ''POSTGRES_PORT'' ''5432'';
         postgresUser = getenv env ''POSTGRES_USER'' ''croupier'';
         postgresPassword = getenv env ''POSTGRES_PASSWORD'' ''croupier'';
         postgresDB = getenv env ''POSTGRES_DB'' ''croupier'' in
     bindR (getenvInt env ''PENDING_REFERENCE_MAX_ATTEMPTS'' 10) (\<lambda>pendingReferenceMaxAttempts.
     bindR (getenvDuration frac env ''PENDING_REFERENCE_POLL_INTERVAL'' (seconds 5)) (\<lambda>pendingReferencePollInterval.
     bindR (getenvDuration frac env ''PENDING_REFERENCE_TTL'' (of_nat (24 * Hour))) (\<lambda>pendingReferenceTTL.
     bindR (getenvDuration frac env ''PENDING_REFERENCE_BACKOFF_BASE'' (seconds 5)) (\<lambda>pendingReferenceBackoffBase.
     bindR (getenvDuration frac env ''OUTBOX_POLL_INTERVAL'' (seconds 1)) (\<lambda>outboxPollInterval.
     bindR (getenvDuration frac env ''OUTBOX_BACKOFF_BASE'' (seconds 2)) (\<lambda>outboxBackoffBase.
     bindR (getenvDuration frac env ''SHUTDOWN_TIMEOUT'' (seconds 15)) (\<lambda>shutdownTimeout.
     bindR (getenvDuration frac env ''DLQ_DEPTH_POLL_INTERVAL'' (seconds 30)) (\<lambda>dlqDepthPollInterval.
     Inr \<lparr>cf_PostgresDSN = ''postgres://'' @ postgresUser @ '':'' @ postgresPassword @ ''@'' @ postgresHost @ '':'' @
            postgresPort @ ''/'' @ postgresDB @ ''?sslmode=disable'',
          cf_SQSEndpoint = getenv env ''SQS_ENDPOINT'' ''http://localhost:4566'',
          cf_AWSRegion = getenv env ''AWS_REGION'' ''us-east-1'',
          cf_WagerTransactionsQueueName = getenv env ''WAGER_TRANSACTIONS_QUEUE_NAME'' ''wager-transactions.fifo'',
          cf_WagerTransactionsDLQName = getenv env ''WAGER_TRANSACTIONS_DLQ_NAME'' ''wager-transactions-dlq.fifo'',
          cf_WalletEventsQueueName = getenv env ''WALLET_EVENTS_QUEUE_NAME'' ''wallet-events.fifo'',
          cf_SQSConsumerName = getenv env ''SQS_CONSUMER_NAME'' ''wager-transactions-consumer'',
          cf_DLQDepthPollInterval = dlqDepthPollInterval,
          cf_KeycloakIssuerURL = getenv env ''KEYCLOAK_ISSUER_URL'' ''http://localhost:8080/realms/croupier'',
          cf_AppPort = getenv env ''APP_PORT'' ''8081'',
          cf_PendingReferencePollInterval = pendingReferencePollInterval,
          cf_PendingReferenceMaxAttempts = pendingReferenceMaxAttempts,
          cf_PendingReferenceTTL = pendingReferenceTTL,
          cf_PendingReferenceBackoffBase = pendingReferenceBackoffBase,
          cf_OutboxPollInterval = outboxPollInterval,
          cf_OutboxBackoffBase = outboxBackoffBase,
          cf_ShutdownTimeout = shutdownTimeout\<rparr>)))))))))"

section \<open>The SQS client\<close>

text \<open>What \<open>NewClient\<close> asks of the SDK: the region, static credentials, and the endpoint that
  overrides the SDK's own.\<close>

record client_options =
  co_region :: string
  co_static_credentials :: "(string \<times> string) option"
  co_BaseEndpoint :: "string option"

definition NewClient :: "string \<Rightarrow> string \<Rightarrow> client_options" where
  "NewClient region endpoint =
     \<lparr>co_region = region,
      co_static_credentials = (if endpoint \<noteq> [] then Some (''test'', ''test'') else None),
      co_BaseEndpoint = (if endpoint \<noteq> [] then Some endpoint else None)\<rparr>"

definition provideSQSClient :: "config \<Rightarrow> client_options" where
  "provideSQSClient cfg = NewClient (cf_AWSRegion cfg) (cf_SQSEndpoint cfg)"

definition resolveQueueURL :: "(string \<Rightarrow> error + string) \<Rightarrow> string \<Rightarrow> error + string" where
  "resolveQueueURL GetQueueUrl queueName =
     (case GetQueueUrl queueName of Inl e \<Rightarrow> Inl e | Inr url \<Rightarrow> Inr url)"

section \<open>Start-up\<close>

text \<open>The stages of \<open>ApplyMigrations\<close>, each \<open>None\<close> when it succeeds; \<open>m.Up()\<close> reporting
  \<open>ErrNoChange\<close> is a success.\<close>

datatype up_result = UpDone | ErrNoChange | UpFailed error

datatype migration_error = OpeningDatabase error | CreatingDriver error | CreatingSource error
  | Initializing error | Applying error

definition ApplyMigrations ::
  "error option \<Rightarrow> error option \<Rightarrow> error option \<Rightarrow> error option \<Rightarrow> up_result \<Rightarrow> migration_error option" where
  "ApplyMigrations openDB withInstance newSource newMigrate up =
     (case openDB of Some e \<Rightarrow> Some (OpeningDatabase e) | None \<Rightarrow>
     (case withInstance of Some e \<Rightarrow> Some (CreatingDriver e) | None \<Rightarrow>
     (case newSource of Some e \<Rightarrow> Some (CreatingSource e) | None \<Rightarrow>
     (case newMigrate of Some e \<Rightarrow> Some (Initializing e) | None \<Rightarrow>
     (case up of UpFailed e \<Rightarrow> Some (Applying e) | _ \<Rightarrow> None)))))"

section \<open>Background loops\<close>

text \<open>\<open>registerBackgroundLoop\<close>: what \<open>run\<close> returned each time, and what ended the wait that follows a
  failure. The result is the waits the loop made, and whether it returned.\<close>

datatype run_result = RunNil | RunCanceled | RunFailed error

datatype wake = CtxDone | Elapsed

definition maxBackoff :: i64 where
  "maxBackoff = seconds 30"

fun background_loop :: "i64 \<Rightarrow> (run_result \<times> wake) list \<Rightarrow> i64 list \<times> bool" where
  "background_loop backoff [] = ([], False)"
| "background_loop backoff ((RunFailed err, w) # runs) =
     (case w of
        CtxDone \<Rightarrow> ([backoff], True)
      | Elapsed \<Rightarrow>
          (let next' = backoff * 2;
               next' = (if sint next' > sint maxBackoff then maxBackoff else next');
               (waits, done) = background_loop next' runs
           in (backoff # waits, done)))"
| "background_loop backoff ((_, w) # runs) = ([], True)"

definition registerBackgroundLoop :: "(run_result \<times> wake) list \<Rightarrow> i64 list \<times> bool" where
  "registerBackgroundLoop runs = background_loop (seconds 1) runs"

text \<open>\<open>OnStop\<close> of the hook: the loop is cancelled, and whichever happens first answers.\<close>

datatype stop_event = LoopDone | TimedOut | StopContextDone error

datatype stop_error = DidNotStop | StopErr error

definition loop_OnStop :: "stop_event \<Rightarrow> stop_error option" where
  "loop_OnStop ev = (case ev of LoopDone \<Rightarrow> None | TimedOut \<Rightarrow> Some DidNotStop | StopContextDone e \<Rightarrow> Some (StopErr e))"

section \<open>Probes\<close>

record dlqDepthPoller =
  dq_queueURL :: string
  dq_queue :: string

text \<open>\<open>GetQueueAttributes\<close> answers with the attribute's text; \<open>isFloat\<close> is \<open>strconv.ParseFloat\<close> succeeding.\<close>

datatype poll_error = GetAttributes error | ParsingDepth string

definition poll_depth ::
  "(string \<Rightarrow> error + string) \<Rightarrow> (string \<Rightarrow> bool) \<Rightarrow> dlqDepthPoller \<Rightarrow> registry \<Rightarrow> poll_error option \<times> registry" where
  "poll_depth GetQueueAttributes isFloat p reg =
     (case GetQueueAttributes (dq_queueURL p) of
        Inl e \<Rightarrow> (Some (GetAttributes e), reg)
      | Inr depth \<Rightarrow>
          if \<not> isFloat depth then (Some (ParsingDepth depth), reg)
          else (None, SetDLQDepth (dq_queue p) depth reg))"

datatype ready_error = PostgresErr error | SqsErr error

definition ready_check :: "error option \<Rightarrow> error option \<Rightarrow> ready_error option" where
  "ready_check ping attributes =
     (case ping of Some e \<Rightarrow> Some (PostgresErr e)
      | None \<Rightarrow> (case attributes of Some e \<Rightarrow> Some (SqsErr e) | None \<Rightarrow> None))"

section \<open>The polling workers\<close>

text \<open>The three workers driven by a \<open>time.Ticker\<close>. \<open>time.NewTicker\<close> panics on an interval that is not
  positive, in the goroutine of the loop, which ends the process. The events of the \<open>select\<close> are the
  input; \<open>tick\<close> is what the worker does on one tick, its own errors logged and dropped.\<close>

datatype select_event = Cancelled | Tick

datatype 's loop_end = Panicked | Returned 's | StillPolling 's

fun select_loop :: "('s \<Rightarrow> 's) \<Rightarrow> select_event list \<Rightarrow> 's \<Rightarrow> 's loop_end" where
  "select_loop tick [] s = StillPolling s"
| "select_loop tick (Cancelled # evs) s = Returned s"
| "select_loop tick (Tick # evs) s = select_loop tick evs (tick s)"

definition ticker_loop :: "i64 \<Rightarrow> ('s \<Rightarrow> 's) \<Rightarrow> select_event list \<Rightarrow> 's \<Rightarrow> 's loop_end" where
  "ticker_loop interval tick evs s = (if sint interval \<le> 0 then Panicked else select_loop tick evs s)"

definition registerPendingReferenceResolver ::
  "config \<Rightarrow> ('s \<Rightarrow> 's) \<Rightarrow> select_event list \<Rightarrow> 's \<Rightarrow> 's loop_end" where
  "registerPendingReferenceResolver cfg tick evs s = ticker_loop (cf_PendingReferencePollInterval cfg) tick evs s"

definition registerDLQDepthPoller ::
  "config \<Rightarrow> ('s \<Rightarrow> 's) \<Rightarrow> select_event list \<Rightarrow> 's \<Rightarrow> 's loop_end" where
  "registerDLQDepthPoller cfg tick evs s = ticker_loop (cf_DLQDepthPollInterval cfg) tick evs s"

definition registerOutboxWorker ::
  "config \<Rightarrow> ('s \<Rightarrow> 's) \<Rightarrow> select_event list \<Rightarrow> 's \<Rightarrow> 's loop_end" where
  "registerOutboxWorker cfg tick evs s = ticker_loop (cf_OutboxPollInterval cfg) tick evs s"

section \<open>The process\<close>

text \<open>\<open>main\<close> as its exit status, from what the migrations, the start and the stop of the application
  report; \<open>Start\<close> and \<open>Stop\<close> are Fx.\<close>

definition main_exit ::
  "(nat \<Rightarrow> nat \<Rightarrow> nat \<Rightarrow> nat) \<Rightarrow> env \<Rightarrow> (string \<Rightarrow> migration_error option) \<Rightarrow> (config \<Rightarrow> error option) \<Rightarrow>
   (i64 \<Rightarrow> error option) \<Rightarrow> nat" where
  "main_exit frac env migrate start stop =
     (case LoadConfig frac env of
        Inl e \<Rightarrow> 1
      | Inr cfg \<Rightarrow>
          if migrate (cf_PostgresDSN cfg) \<noteq> None then 1
          else if start cfg \<noteq> None then 1
          else if stop (cf_ShutdownTimeout cfg + seconds 5) \<noteq> None then 1
          else 0)"

section \<open>Lemmas\<close>

subsection \<open>Durations\<close>

text \<open>The fuel of \<open>duration_terms\<close> is enough: every term consumes at least its unit.\<close>

lemma leadingInt_shorter: "leadingInt x s = Some (v, r) \<Longrightarrow> length r \<le> length s"
  by (induction x s rule: leadingInt.induct) (auto split: if_splits)

lemma leadingFraction_shorter: "leadingFraction x k b s = (f, k', r) \<Longrightarrow> length r \<le> length s"
  by (induction x k b s rule: leadingFraction.induct) (auto split: if_splits intro: le_SucI)

lemma duration_term_shorter: "duration_term frac s = Some (v, r) \<Longrightarrow> length r < length s"
proof -
  assume t: "duration_term frac s = Some (v, r)"
  have drop: "length (dropWhile P xs) < length ys" if "takeWhile P xs \<noteq> []" "length xs \<le> length ys"
    for P and xs ys :: string
    using that by (cases xs) (auto intro: le_less_trans [OF length_dropWhile_le] split: if_splits)
  obtain w s1 where l: "leadingInt 0 s = Some (w, s1)"
    using t by (auto simp: duration_term_def split: option.splits)
  from leadingInt_shorter [OF l] have s1: "length s1 \<le> length s" .
  show ?thesis
  proof (cases "s1 \<noteq> [] \<and> hd s1 = CHR ''.''")
    case True
    then obtain q where q: "s1 = CHR ''.'' # q" by (cases s1) auto
    obtain f k r' where f: "leadingFraction 0 1 False q = (f, k, r')" by (metis prod_cases3)
    from leadingFraction_shorter [OF f] s1 q have "length r' \<le> length s" by simp
    with t show ?thesis
      by (auto simp: duration_term_def l q f [simplified] Let_def split: if_splits option.splits intro: drop)
  next
    case False
    then show ?thesis using t s1
      by (cases s1) (auto simp: duration_term_def l Let_def split: if_splits option.splits
          intro: le_less_trans [OF length_dropWhile_le])
  qed
qed

lemma duration_terms_fuel:
  "length s \<le> m \<Longrightarrow> length s \<le> n \<Longrightarrow> duration_terms frac m d s = duration_terms frac n d s"
proof (induction m arbitrary: n d s)
  case 0
  then show ?case by (cases n) simp_all
next
  case (Suc m)
  show ?case
  proof (cases n)
    case 0
    with Suc.prems show ?thesis by simp
  next
    case (Suc n')
    have "length r \<le> m \<and> length r \<le> n'" if "duration_term frac s = Some (v, r)" for v r
      using duration_term_shorter [OF that] Suc.prems Suc by linarith
    then show ?thesis
      by (auto simp: Suc split: option.splits intro!: Suc.IH)
  qed
qed

text \<open>The digits in front of the unit are read exactly, and refused exactly above \<open>2^63\<close>.\<close>

lemma foldl_digits_mono: "x \<le> foldl (\<lambda>n c. 10 * n + digit_val c) x ds"
proof (induction ds arbitrary: x)
  case (Cons d ds)
  have "x \<le> 10 * x + digit_val d" by simp
  also have "\<dots> \<le> foldl (\<lambda>n c. 10 * n + digit_val c) (10 * x + digit_val d) ds" by (rule Cons.IH)
  finally show ?case by simp
qed simp

lemma leadingInt_digits:
  assumes "list_all is_digit ds" "\<not> is_digit c" "x \<le> 2 ^ 63"
  shows "leadingInt x (ds @ c # r) =
    (let v = foldl (\<lambda>n c. 10 * n + digit_val c) x ds in if v \<le> 2 ^ 63 then Some (v, c # r) else None)"
  using assms
proof (induction ds arbitrary: x)
  case (Cons d ds)
  let ?y = "10 * x + digit_val d"
  have up: "?y \<le> foldl (\<lambda>n c. 10 * n + digit_val c) ?y ds" by (rule foldl_digits_mono)
  show ?case
  proof (cases "?y \<le> 2 ^ 63")
    case True
    then have "\<not> x > 2 ^ 63 div 10" by simp
    with True Cons show ?thesis by (simp add: mult.commute)
  next
    case False
    with up Cons.prems show ?thesis by (simp add: mult.commute Let_def)
  qed
qed simp

lemma duration_term_seconds:
  "duration_term frac (format_nat n @ ''s'') = (if n \<le> 2 ^ 63 div Second then Some (n * Second, []) else None)"
proof -
  have l: "leadingInt 0 (format_nat n @ ''s'') = (if n \<le> 2 ^ 63 then Some (n, ''s'') else None)"
    using leadingInt_digits [OF format_nat_digits, of "CHR ''s''" 0 n "[]"] digits_value_format [of n]
    by (simp add: is_digit_def digits_value_def Let_def)
  have s: "takeWhile (\<lambda>c. c \<noteq> CHR ''.'' \<and> \<not> is_digit c) ''s'' = ''s''"
    "dropWhile (\<lambda>c. c \<noteq> CHR ''.'' \<and> \<not> is_digit c) ''s'' = []" by (simp_all add: is_digit_def)
  have u: "unitMap ''s'' = Some Second" by (simp add: unitMap_def)
  have "length (''s''::string) \<noteq> length (format_nat n @ ''s'')" by simp
  with l s u show ?thesis
    by (auto simp: duration_term_def Let_def Second_def)
qed

section \<open>Properties\<close>

text \<open>A duration variable that says \<open>n\<close> whole seconds is read as exactly that duration while it
  fits in the 64 bits of a \<open>time.Duration\<close>, up to 9223372036 seconds; above that the configuration is
  refused, never wrapped around.\<close>

lemma seconds_are_exact:
  assumes "env key = format_nat n @ ''s''"
  shows "getenvDuration frac env key fallback =
    (if n \<le> 9223372036 then Inr (seconds n) else Inl (DurationError key (env key)))"
proof -
  obtain c r where c: "format_nat n = c # r" "is_digit c"
    using format_nat_nonempty [of n] format_nat_digits [of n] by (cases "format_nat n") auto
  then have nosign: "c \<noteq> CHR ''-''" "c \<noteq> CHR ''+''" by auto
  from c have fuel: "length (format_nat n @ ''s'') = Suc (Suc (length r))" by simp
  have "duration_terms frac (length (format_nat n @ ''s'')) 0 (format_nat n @ ''s'') =
    (if n \<le> 9223372036 then Some (n * Second) else None)"
    unfolding fuel duration_terms.simps duration_term_seconds using c by (simp add: Second_def)
  with c nosign have "ParseDuration frac (format_nat n @ ''s'') = (if n \<le> 9223372036 then Some (seconds n) else None)"
    by (simp add: ParseDuration_def Let_def seconds_def Second_def)
  with assms show ?thesis by (simp add: getenvDuration_def)
qed

text \<open>The SQS client of the process always has an overridden endpoint and always signs with the
  placeholder credentials: the configuration puts LocalStack's address in place of an empty
  \<open>SQS_ENDPOINT\<close>, so the case of an empty endpoint that \<open>NewClient\<close> keeps for the real service is
  never reached from the environment.\<close>

lemma sqs_endpoint_is_overridden:
  assumes "LoadConfig frac env = Inr cfg"
  shows "provideSQSClient cfg =
    \<lparr>co_region = cf_AWSRegion cfg, co_static_credentials = Some (''test'', ''test''),
     co_BaseEndpoint = Some (if env ''SQS_ENDPOINT'' = [] then ''http://localhost:4566'' else env ''SQS_ENDPOINT'')\<rparr>"
proof -
  from assms have "cf_SQSEndpoint cfg = getenv env ''SQS_ENDPOINT'' ''http://localhost:4566''"
    by (auto simp: LoadConfig_def Let_def bindR_def split: sum.splits)
  then show ?thesis by (simp add: provideSQSClient_def NewClient_def getenv_def)
qed

lemma sqs_endpoint_is_overridden_witness:
  "\<exists>cfg. LoadConfig (\<lambda>_ _ _. 0) (\<lambda>_. []) = Inr cfg \<and>
     co_BaseEndpoint (provideSQSClient cfg) = Some ''http://localhost:4566''"
proof -
  obtain cfg where "LoadConfig (\<lambda>_ _ _. 0) (\<lambda>_. []) = Inr cfg"
    by (auto simp: LoadConfig_def getenvInt_def getenvDuration_def bindR_def)
  with sqs_endpoint_is_overridden [OF this] show ?thesis by simp
qed

text \<open>A run that failed and whose wait elapsed is restarted; any other ends the loop.\<close>

fun restarted :: "run_result \<times> wake \<Rightarrow> bool" where
  "restarted (RunFailed _, Elapsed) = True"
| "restarted _ = False"

fun waited :: "run_result \<times> wake \<Rightarrow> bool" where
  "waited (RunFailed _, _) = True"
| "waited _ = False"

fun waits_of :: "(run_result \<times> wake) list \<Rightarrow> nat" where
  "waits_of [] = 0"
| "waits_of (run # runs) = (if restarted run then Suc (waits_of runs) else if waited run then 1 else 0)"

lemma seconds_small: "n \<le> 60 \<Longrightarrow> sint (seconds n) = int n * 1000000000"
proof -
  assume n: "n \<le> 60"
  have "seconds n = of_int (int n * 1000000000)" by (simp add: seconds_def Second_def)
  moreover from n have "fits_i64 (int n * 1000000000)" by (simp add: fits_i64_def)
  ultimately show ?thesis by (simp only: sint_of_int_fits)
qed

lemma next_backoff:
  "(let d = seconds (min 30 (2 ^ k)) * 2 in if sint d > sint maxBackoff then maxBackoff else d) =
   seconds (min 30 (2 ^ Suc k))"
proof -
  have d: "seconds (min 30 (2 ^ k)) * 2 = seconds (2 * min 30 (2 ^ k))" by (simp add: seconds_def Second_def)
  have "2 * min 30 (2 ^ k) \<le> (60::nat)" by simp
  then show ?thesis
    unfolding d Let_def maxBackoff_def
    by (auto simp: seconds_small min_def)
qed

text \<open>Claim C39. The waits of a background loop that keeps failing are 1, 2, 4, 8 and 16 seconds and then 30
  seconds for ever: the k-th wait is the smaller of \<open>2^k\<close> and 30 seconds, however long the loop has
  run, with no wrap-around; and the loop returns exactly when a run ends without an error, with the
  cancellation, or the wait after a failure is cut short by the shutdown.\<close>

theorem restart_backoff:
  "registerBackgroundLoop runs =
     (map (\<lambda>k. seconds (min 30 (2 ^ k))) [0..<waits_of runs], list_ex (\<lambda>run. \<not> restarted run) runs)"
proof -
  have "background_loop (seconds (min 30 (2 ^ k))) runs =
    (map (\<lambda>i. seconds (min 30 (2 ^ i))) [k..<k + waits_of runs], list_ex (\<lambda>run. \<not> restarted run) runs)" for k
  proof (induction runs arbitrary: k)
    case (Cons run runs)
    obtain r w where run: "run = (r, w)" by fastforce
    show ?case
    proof (cases r)
      case (RunFailed e)
      show ?thesis
      proof (cases w)
        case Elapsed
        have "[k..<k + Suc m] = k # [Suc k..<Suc k + m]" for m by (simp add: upt_conv_Cons del: upt_Suc)
        with Elapsed Cons.IH [of "Suc k"] RunFailed run show ?thesis
          using next_backoff [of k] by (simp add: Let_def del: power_Suc upt_Suc)
      qed (use RunFailed run in simp)
    qed (use run in simp_all)
  qed simp
  from this [of 0] show ?thesis by (simp add: registerBackgroundLoop_def)
qed

text \<open>What the configuration loads for the outbox worker.\<close>

lemma LoadConfig_OutboxPollInterval:
  assumes "LoadConfig frac env = Inr cfg"
  shows "getenvDuration frac env ''OUTBOX_POLL_INTERVAL'' (seconds 1) = Inr (cf_OutboxPollInterval cfg)"
proof -
  from assms have "\<exists>d. getenvDuration frac env ''OUTBOX_POLL_INTERVAL'' (seconds 1) = Inr d \<and> cf_OutboxPollInterval cfg = d"
    unfolding LoadConfig_def Let_def bindR_Inr_iff by (elim exE conjE) auto
  then show ?thesis by simp
qed

lemma getenv_unset: "env key = [] \<Longrightarrow> getenvInt env key n = Inr n" "env key = [] \<Longrightarrow> getenvDuration frac env key d = Inr d"
  by (simp_all add: getenvInt_def getenvDuration_def)

lemma zero_duration:
  "env key = ''0s'' \<Longrightarrow> getenvDuration frac env key fallback = Inr (seconds 0)"
proof -
  have "format_nat 0 @ ''s'' = ''0s''" by (simp add: format_nat.simps digit_char_0)
  then show "env key = ''0s'' \<Longrightarrow> ?thesis"
    using duration_term_seconds [of frac 0] by (simp add: getenvDuration_def ParseDuration_def seconds_def)
qed

text \<open>A poll interval of zero is a configuration that loads, and the outbox worker started with it
  panics at once, whatever happens later; the same interval unset gives a worker that polls. The
  configuration checks that a duration can be parsed, not that a ticker accepts it.\<close>

lemma zero_interval_panics:
  "(\<exists>cfg. LoadConfig frac (\<lambda>key. if key = ''OUTBOX_POLL_INTERVAL'' then ''0s'' else []) = Inr cfg \<and>
      registerOutboxWorker cfg tick evs s = Panicked) \<and>
   (\<exists>cfg. LoadConfig frac (\<lambda>key. []) = Inr cfg \<and>
      registerOutboxWorker cfg tick [Tick, Tick, Cancelled] s = Returned (tick (tick s)))"
proof -
  let ?zero = "\<lambda>key. if key = ''OUTBOX_POLL_INTERVAL'' then ''0s'' else []"
  have "\<exists>cfg. LoadConfig frac ?zero = Inr cfg"
    unfolding LoadConfig_def Let_def bindR_Inr_iff by (simp add: getenv_unset zero_duration)
  then obtain z where z: "LoadConfig frac ?zero = Inr z" by blast
  have "\<exists>cfg. LoadConfig frac (\<lambda>key. []) = Inr cfg"
    unfolding LoadConfig_def Let_def bindR_Inr_iff by (simp add: getenv_unset)
  then obtain u where u: "LoadConfig frac (\<lambda>key. []) = Inr u" by blast
  have "cf_OutboxPollInterval z = seconds 0"
    using LoadConfig_OutboxPollInterval [OF z] zero_duration [of ?zero "''OUTBOX_POLL_INTERVAL''"] by simp
  then have "registerOutboxWorker z tick evs s = Panicked"
    by (simp add: registerOutboxWorker_def ticker_loop_def seconds_small)
  moreover have "cf_OutboxPollInterval u = seconds 1"
    using LoadConfig_OutboxPollInterval [OF u] by (simp add: getenv_unset)
  then have "registerOutboxWorker u tick [Tick, Tick, Cancelled] s = Returned (tick (tick s))"
    by (simp add: registerOutboxWorker_def ticker_loop_def seconds_small del: One_nat_def)
  ultimately show ?thesis using z u by blast
qed

end
