(* ===== verification/Wiring.thy ===== *)
theory Wiring
  imports Consumer Http Publishing Resolver Assembly
begin

text \<open>
  \<open>cmd/croupier/providers.go\<close>: how the configuration becomes the components. \<open>GetQueueUrl\<close> is the
  call of the SQS client; a provider that fails ends the start of the process. The repositories, the
  transaction manager and the use cases have no state of their own, so their providers have nothing
  to model. The properties follow the default configuration into the retry policy it gives.
\<close>

section \<open>Providers\<close>

definition provideOutboxPublisher :: "(string \<Rightarrow> error + string) \<Rightarrow> config \<Rightarrow> error + string" where
  "provideOutboxPublisher GetQueueUrl cfg = resolveQueueURL GetQueueUrl (cf_WalletEventsQueueName cfg)"

definition provideConsumer :: "(string \<Rightarrow> error + string) \<Rightarrow> config \<Rightarrow> error + consumer" where
  "provideConsumer GetQueueUrl cfg =
     bindR (resolveQueueURL GetQueueUrl (cf_WagerTransactionsQueueName cfg)) (\<lambda>url.
     Inr (NewConsumer url (cf_SQSConsumerName cfg) True True))"

definition providePendingReferenceResolver :: "config \<Rightarrow> resolver" where
  "providePendingReferenceResolver cfg =
     \<lparr>rs_maxAttempts = cf_PendingReferenceMaxAttempts cfg, rs_ttl = cf_PendingReferenceTTL cfg,
      rs_backoffBase = cf_PendingReferenceBackoffBase cfg\<rparr>"

text \<open>The worker the configuration gives, as its \<open>RunOnce\<close>.\<close>

definition provideOutboxWorker ::
  "external \<Rightarrow> (sqs_message \<Rightarrow> error option) \<Rightarrow> string \<Rightarrow> config \<Rightarrow> time \<Rightarrow> time \<Rightarrow> (sess, error, bool) prog" where
  "provideOutboxWorker X send queueURL cfg = RunOnce X send queueURL (cf_OutboxBackoffBase cfg)"

definition provideDLQDepthPoller :: "(string \<Rightarrow> error + string) \<Rightarrow> config \<Rightarrow> error + dlqDepthPoller" where
  "provideDLQDepthPoller GetQueueUrl cfg =
     bindR (resolveQueueURL GetQueueUrl (cf_WagerTransactionsDLQName cfg)) (\<lambda>url.
     Inr \<lparr>dq_queueURL = url, dq_queue = cf_WagerTransactionsDLQName cfg\<rparr>)"

definition wrap_ready :: "ready_error option \<Rightarrow> error option" where
  "wrap_ready r = (case r of None \<Rightarrow> None | Some (PostgresErr e) \<Rightarrow> Some e | Some (SqsErr e) \<Rightarrow> Some e)"

definition provideHTTPServer :: "(string \<Rightarrow> auth_error + claims) \<Rightarrow> error option \<Rightarrow> error option \<Rightarrow> deps" where
  "provideHTTPServer verify ping attributes =
     \<lparr>dp_Verify = verify, dp_Ready = Some (wrap_ready (ready_check ping attributes)), dp_Metrics = True,
      dp_MetricsHandler = True\<rparr>"

section \<open>Properties\<close>

text \<open>The consumer of the process handles a message inside a transaction.\<close>

lemma provideConsumer_tx: "provideConsumer Q cfg = Inr c \<Longrightarrow> cs_tx c \<and> cs_metrics c"
  by (auto simp: provideConsumer_def NewConsumer_def bindR_Inr_iff)

lemma LoadConfig_resolver:
  assumes "LoadConfig frac (\<lambda>_. []) = Inr cfg"
  shows "providePendingReferenceResolver cfg =
    \<lparr>rs_maxAttempts = 10, rs_ttl = of_nat (24 * Hour), rs_backoffBase = seconds 5\<rparr>"
proof -
  from assms have "cf_PendingReferenceMaxAttempts cfg = 10 \<and> cf_PendingReferenceTTL cfg = of_nat (24 * Hour)
    \<and> cf_PendingReferenceBackoffBase cfg = seconds 5"
    unfolding LoadConfig_def Let_def bindR_Inr_iff by (elim exE conjE) (auto simp: getenv_unset)
  then show ?thesis by (simp add: providePendingReferenceResolver_def)
qed

text \<open>The retry window of the default configuration: a parked reversal is given up once it has
  been retried ten times or is a day old, and not before; the ten delays in between, 5 seconds doubled
  nine times, add up to 5115 seconds, so a resolver that keeps up with its schedule gives up by the
  count after less than an hour and a half, long before the configured day.\<close>

lemma default_retry_window:
  "case LoadConfig frac (\<lambda>_. []) of
     Inl _ \<Rightarrow> False
   | Inr cfg \<Rightarrow>
       (let rs = providePendingReferenceResolver cfg in
        is_expired rs now tx attempts = (10 \<le> sint attempts \<or> 86400000000000 \<le> Time_Sub now (tx_createdAt tx)) \<and>
        (\<Sum>k \<leftarrow> [0, 1, 2, 3, 4, 5, 6, 7, 8, 9]. sint (backoffDelay (rs_backoffBase rs) k)) = 5115000000000)"
proof -
  have "\<exists>cfg. LoadConfig frac (\<lambda>_. []) = Inr cfg"
    unfolding LoadConfig_def Let_def bindR_Inr_iff by (simp add: getenv_unset)
  then obtain cfg where cfg: "LoadConfig frac (\<lambda>_. []) = Inr cfg" by blast
  have "seconds 5 = 5000000000" by (simp add: seconds_def Second_def)
  moreover have "(\<Sum>k \<leftarrow> [0, 1, 2, 3, 4, 5, 6, 7, 8, 9]. sint (backoffDelay 5000000000 k)) = 5115000000000"
    by (simp add: backoffDelay_def Let_def push_bit_eq_mult)
  moreover have "sint (of_nat (24 * Hour) :: i64) = 86400000000000" by (simp add: Hour_def)
  ultimately show ?thesis
    by (simp add: cfg LoadConfig_resolver [OF cfg] is_expired_def del: sum_list.Cons list.map)
qed

end
