(* ===== verification/Bank.thy ===== *)
theory Bank
  imports Settlement
begin

text \<open>
  The abstract specification of a submission: a bank that keeps an account per wallet, the recorded
  transaction per provider key, the transactions that have been reversed and the balance after each
  movement. \<open>bank_submit\<close> decides a transaction in one step; \<open>Submit_bank\<close> shows that \<open>Submit\<close>, with its
  queries, constraint checks, nested transactions and ledger, answers and records exactly that on a
  session nothing disturbs, errors included.
\<close>

section \<open>The bank\<close>

record account =
  ac_currency :: string
  ac_balance :: int

record bank =
  bk_account :: "uuid \<Rightarrow> account option"
  bk_wager :: "string \<times> string \<Rightarrow> transaction option"
  bk_reversed :: "uuid set"
  bk_after :: "uuid \<Rightarrow> money option"

datatype verdict =
    Fails error
  | Parks
  | Rejects failure_code
  | Settles
  | Moves int

definition no_wallet_key :: error where
  "no_wallet_key = PgE (ForeignKeyViolation ''wager_transactions_wallet_id_fkey'')"

text \<open>A movement against an account. A debit beyond the balance is a rejection with \<open>code\<close>.\<close>

fun decide_movement :: "bool \<Rightarrow> failure_code \<Rightarrow> account option \<Rightarrow> money \<Rightarrow> verdict" where
  "decide_movement debit code None a = Fails (AppE ErrWalletNotFound)"
| "decide_movement debit code (Some ac) a =
     (if m_currency a \<noteq> ac_currency ac then Fails (MoneyE ErrCurrencyMismatch)
      else if debit
      then (if ac_balance ac < units a then Rejects code else Moves (ac_balance ac - units a))
      else if max_i64 < ac_balance ac + units a then Fails (MoneyE ErrOverflow)
      else Moves (ac_balance ac + units a))"

text \<open>A transaction that is recorded without looking at the account still needs one to exist.\<close>

definition if_account :: "account option \<Rightarrow> verdict \<Rightarrow> verdict" where
  "if_account acc v = (if acc = None then Fails no_wallet_key else v)"

text \<open>The decision on a new transaction: the transaction it reverses, if any, and the verdict.\<close>

definition decide_reversal :: "bank \<Rightarrow> transaction \<Rightarrow> transaction option \<Rightarrow> uuid option \<times> verdict" where
  "decide_reversal b tx referenced =
     (let acc = bk_account b (tx_walletID tx) in
      case referenced of
        None \<Rightarrow> (None, if_account acc Parks)
      | Some ref \<Rightarrow>
          if \<not> reference_ok tx ref then (None, if_account acc (Rejects FailureCodeInvalidReference))
          else (Some (tx_id ref),
            if acc \<noteq> None \<and> tx_id ref \<in> bk_reversed b then Rejects FailureCodeDuplicateReversal
            else decide_movement (tx_kind tx = KindRollback \<and> tx_kind ref \<noteq> KindBet)
              FailureCodeReversalExceedsBalance acc (tx_amount tx)))"

definition decide :: "bank \<Rightarrow> transaction \<Rightarrow> uuid option \<times> verdict" where
  "decide b tx =
     (let acc = bk_account b (tx_walletID tx) in
      case tx_kind tx of
        KindBet \<Rightarrow> (None, decide_movement True FailureCodeInsufficientBalance acc (tx_amount tx))
      | KindWin \<Rightarrow> (None, decide_movement False FailureCodeInsufficientBalance acc (tx_amount tx))
      | KindLoss \<Rightarrow> (None, case acc of None \<Rightarrow> Fails (AppE ErrWalletNotFound)
          | Some ac \<Rightarrow> if m_currency (tx_amount tx) \<noteq> ac_currency ac then Fails (MoneyE ErrCurrencyMismatch)
              else Settles)
      | _ \<Rightarrow> decide_reversal b tx (case tx_referenceExternalTransactionID tx of None \<Rightarrow> None
          | Some e \<Rightarrow> bk_wager b (tx_providerID tx, e)))"

fun verdict_status :: "verdict \<Rightarrow> tx_status" where
  "verdict_status Parks = TxStatusPendingReference"
| "verdict_status (Rejects _) = TxStatusRejected"
| "verdict_status _ = TxStatusProcessed"

fun verdict_code :: "verdict \<Rightarrow> failure_code" where
  "verdict_code (Rejects code) = code"
| "verdict_code _ = []"

definition decided :: "time \<Rightarrow> transaction \<Rightarrow> uuid option \<times> verdict \<Rightarrow> transaction" where
  "decided now tx v = tx\<lparr>tx_status := verdict_status (snd v), tx_referenceTransactionID := fst v,
     tx_failureCode := verdict_code (snd v), tx_updatedAt := now\<rparr>"

definition money_in :: "string \<Rightarrow> int \<Rightarrow> money" where
  "money_in c x = \<lparr>m_currency = c, m_amount = of_int x\<rparr>"

definition fresh_result :: "transaction \<Rightarrow> money \<Rightarrow> submit_result" where
  "fresh_result tx m = \<lparr>sr_Transaction = tx, sr_Balance = m, sr_IdempotentReplay = False\<rparr>"

definition recording :: "transaction \<Rightarrow> bank \<Rightarrow> bank" where
  "recording tx b = b\<lparr>bk_wager := (bk_wager b)((tx_providerID tx, tx_externalTransactionID tx) \<mapsto> tx)\<rparr>"

definition moving :: "transaction \<Rightarrow> string \<Rightarrow> int \<Rightarrow> bank \<Rightarrow> bank" where
  "moving tx c x b = b
     \<lparr>bk_account := (bk_account b)(tx_walletID tx \<mapsto> \<lparr>ac_currency = c, ac_balance = x\<rparr>),
      bk_reversed := bk_reversed b \<union> set_option (tx_referenceTransactionID tx),
      bk_after := (bk_after b)(tx_id tx \<mapsto> money_in c x)\<rparr>"

text \<open>Answering a key that is already recorded.\<close>

definition bank_replay :: "(payload \<Rightarrow> hash) \<Rightarrow> bank \<Rightarrow> transaction \<Rightarrow> transaction \<Rightarrow> error + submit_result" where
  "bank_replay H b old tx =
     (if PayloadHash H old \<noteq> PayloadHash H tx then Inl (AppE ErrIdempotencyConflict)
      else (case bk_after b (tx_id old) of
          Some m \<Rightarrow> Inr \<lparr>sr_Transaction = old, sr_Balance = m, sr_IdempotentReplay = True\<rparr>
        | None \<Rightarrow> (case bk_account b (tx_walletID old) of
            None \<Rightarrow> Inl (AppE ErrWalletNotFound)
          | Some ac \<Rightarrow> Inr \<lparr>sr_Transaction = old, sr_Balance = money_in (ac_currency ac) (ac_balance ac),
              sr_IdempotentReplay = True\<rparr>)))"

text \<open>Recording a decision: the answer and the bank after it.\<close>

definition bank_record :: "time \<Rightarrow> bank \<Rightarrow> transaction \<Rightarrow> uuid option \<times> verdict \<Rightarrow> (error + submit_result) \<times> bank" where
  "bank_record now b tx v =
     (let tx' = decided now tx v in
      case snd v of
        Fails e \<Rightarrow> (Inl e, b)
      | Moves x \<Rightarrow>
          (let c = m_currency (tx_amount tx) in
           (Inr (fresh_result tx' (money_in c x)), moving tx' c x (recording tx' b)))
      | _ \<Rightarrow>
          (case bk_account b (tx_walletID tx) of
             None \<Rightarrow> (Inl no_wallet_key, b)
           | Some ac \<Rightarrow> (Inr (fresh_result tx' (money_in (ac_currency ac) (ac_balance ac))), recording tx' b)))"

definition bank_submit :: "(payload \<Rightarrow> hash) \<Rightarrow> time \<Rightarrow> bank \<Rightarrow> transaction \<Rightarrow> (error + submit_result) \<times> bank" where
  "bank_submit H now b tx =
     (case bk_wager b (tx_providerID tx, tx_externalTransactionID tx) of
        Some old \<Rightarrow> (bank_replay H b old tx, b)
      | None \<Rightarrow> bank_record now b tx (decide b tx))"

section \<open>The bank the tables stand for\<close>

definition keyed :: "string \<times> string \<Rightarrow> wager_row \<Rightarrow> bool" where
  "keyed k r \<longleftrightarrow> wr_provider_id r = Some (fst k) \<and> wr_external_transaction_id r = Some (snd k)"

definition account_of :: "wallet_row \<Rightarrow> account" where
  "account_of w = \<lparr>ac_currency = wl_currency w, ac_balance = sint (wl_balance w)\<rparr>"

definition bank_of :: "db \<Rightarrow> bank" where
  "bank_of d =
     \<lparr>bk_account = (\<lambda>wid. map_option account_of (lookup_by wl_id wid (db_wallets d))),
      bk_wager = (\<lambda>k. map_option tx_of (List.find (keyed k) (db_wagers d))),
      bk_reversed = {ref. \<exists>r\<in>set (db_wagers d). is_reversal_row ref r},
      bk_after = (\<lambda>tid. map_option (\<lambda>rc. \<lparr>m_currency = snd rc, m_amount = lr_balance_after (fst rc)\<rparr>)
        (List.find (\<lambda>rc. lr_transaction_id (fst rc) = tid) (ledger_join d)))\<rparr>"

lemma keyed_pair: "keyed (p, e) = (\<lambda>r. wr_provider_id r = Some p \<and> wr_external_transaction_id r = Some e)"
  by (intro ext) (simp add: keyed_def)

text \<open>The currencies of a bank that the code can read back.\<close>

definition known :: "external \<Rightarrow> bank \<Rightarrow> bool" where
  "known X b \<longleftrightarrow> (\<forall>wid ac. bk_account b wid = Some ac \<longrightarrow> x_iso X (ac_currency ac)) \<and>
     (\<forall>k tx. bk_wager b k = Some tx \<longrightarrow> x_iso X (m_currency (tx_amount tx)))"

lemma knownD:
  assumes "known X (bank_of d)"
  shows "lookup_by wl_id wid (db_wallets d) = Some w \<Longrightarrow> x_iso X (wl_currency w)"
    and "List.find (\<lambda>r. wr_provider_id r = Some p \<and> wr_external_transaction_id r = Some e) (db_wagers d) = Some r \<Longrightarrow>
      x_iso X (wr_currency r)"
proof -
  assume "lookup_by wl_id wid (db_wallets d) = Some w"
  then have "bk_account (bank_of d) wid = Some (account_of w)" by (simp add: bank_of_def)
  with assms have "x_iso X (ac_currency (account_of w))" unfolding known_def by blast
  then show "x_iso X (wl_currency w)" by (simp add: account_of_def)
next
  assume "List.find (\<lambda>r. wr_provider_id r = Some p \<and> wr_external_transaction_id r = Some e) (db_wagers d) = Some r"
  then have "bk_wager (bank_of d) (p, e) = Some (tx_of r)" by (simp add: bank_of_def keyed_pair)
  with assms have "x_iso X (m_currency (tx_amount (tx_of r)))" unfolding known_def by blast
  then show "x_iso X (wr_currency r)" by (simp add: tx_of_def)
qed

text \<open>What a submission needs of the tables and of the values it draws: balanced books, stored
  currencies that can be read back, room in the version counters, and identifiers that are new.\<close>

definition servable :: "external \<Rightarrow> draws \<Rightarrow> string \<Rightarrow> db \<Rightarrow> bool" where
  "servable X dr cid d \<longleftrightarrow> books d \<and>
     (\<forall>w\<in>set (db_wallets d). x_iso X (wl_currency w) \<and> 0 \<le> sint (wl_version w) \<and> sint (wl_version w) < max_i64) \<and>
     (\<forall>q\<in>set (db_wagers d). x_iso X (wr_currency q)) \<and>
     dr_tx_id dr \<noteq> uuid_Nil \<and> dr_tx_id dr \<notin> wr_id ` set (db_wagers d) \<and>
     dr_entry_id dr \<notin> lr_id ` set (db_ledger d) \<and>
     event_ready X (dr_event dr) cid \<and> event_ready X (dr_event2 dr) cid"

lemma servableD:
  assumes "servable X dr cid d"
  shows "books d" "w \<in> set (db_wallets d) \<Longrightarrow> x_iso X (wl_currency w)"
    "w \<in> set (db_wallets d) \<Longrightarrow> 0 \<le> sint (wl_version w) \<and> sint (wl_version w) < max_i64"
    "q \<in> set (db_wagers d) \<Longrightarrow> x_iso X (wr_currency q)"
    "dr_tx_id dr \<noteq> uuid_Nil" "lookup_by wr_id (dr_tx_id dr) (db_wagers d) = None"
    "\<forall>e\<in>set (db_ledger d). lr_id e \<noteq> dr_entry_id dr"
    "\<forall>e\<in>set (db_ledger d). lr_transaction_id e \<noteq> dr_tx_id dr"
    "event_ready X (dr_event dr) cid" "event_ready X (dr_event2 dr) cid"
proof -
  note D = assms [unfolded servable_def]
  show "books d" "dr_tx_id dr \<noteq> uuid_Nil" "event_ready X (dr_event dr) cid" "event_ready X (dr_event2 dr) cid"
    using D by blast+
  show "w \<in> set (db_wallets d) \<Longrightarrow> x_iso X (wl_currency w)"
    "w \<in> set (db_wallets d) \<Longrightarrow> 0 \<le> sint (wl_version w) \<and> sint (wl_version w) < max_i64"
    "q \<in> set (db_wagers d) \<Longrightarrow> x_iso X (wr_currency q)" using D by blast+
  show new: "lookup_by wr_id (dr_tx_id dr) (db_wagers d) = None" using D by (simp add: lookup_by_None_iff)
  show "\<forall>e\<in>set (db_ledger d). lr_id e \<noteq> dr_entry_id dr" using D by (auto simp: image_iff)
  show "\<forall>e\<in>set (db_ledger d). lr_transaction_id e \<noteq> dr_tx_id dr"
  proof (rule ballI, rule notI)
    fix e assume e: "e \<in> set (db_ledger d)" "lr_transaction_id e = dr_tx_id dr"
    then obtain q where "q \<in> processed d" "backs d q e" using booksD(6) [of d] D by blast
    with e lookup_by_NoneD [OF new] show False by (auto simp: backs_def processed_def)
  qed
qed

lemma servable_known:
  assumes "servable X dr cid d"
  shows "known X (bank_of d)"
proof -
  have "x_iso X (ac_currency ac)" if "bk_account (bank_of d) wid = Some ac" for wid ac
  proof -
    from that obtain w where w: "lookup_by wl_id wid (db_wallets d) = Some w" "ac = account_of w"
      by (auto simp: bank_of_def)
    with servableD(2) [OF assms, of w] lookup_by_SomeD [OF w(1)] show ?thesis by (simp add: account_of_def)
  qed
  moreover have "x_iso X (m_currency (tx_amount tx))" if "bk_wager (bank_of d) k = Some tx" for k tx
  proof -
    from that obtain r where r: "List.find (keyed k) (db_wagers d) = Some r" "tx = tx_of r"
      by (auto simp: bank_of_def)
    then have "r \<in> set (db_wagers d)" by (auto dest!: find_Some_iff_first)
    with servableD(4) [OF assms] r(2) show ?thesis by (simp add: tx_of_def)
  qed
  ultimately show ?thesis by (simp add: known_def)
qed

section \<open>How the tables' bank changes\<close>

text \<open>A transaction whose identifier is new becomes the last row.\<close>

lemma put_new_wager:
  "lookup_by wr_id (wr_id q) (db_wagers d) = None \<Longrightarrow> db_wagers (put_wager q d) = db_wagers d @ [q]"
  by (simp add: upsert_def)

lemma find_append: "List.find P (xs @ ys) = (case List.find P xs of None \<Rightarrow> List.find P ys | Some x \<Rightarrow> Some x)"
  by (induction xs) auto

lemma bank_of_put_outbox [simp]: "bank_of (put_outbox es d) = bank_of d"
  by (simp add: bank_of_def ledger_join_def)

lemma bank_of_recording:
  assumes new: "lookup_by wr_id (tx_id tx) (db_wagers d) = None"
    and key: "bk_wager (bank_of d) (tx_providerID tx, tx_externalTransactionID tx) = None"
    and ne: "tx_providerID tx \<noteq> []" "tx_externalTransactionID tx \<noteq> []"
    and live: "tx_status tx \<noteq> TxStatusProcessed \<or> tx_referenceTransactionID tx = None"
  shows "bank_of (put_wager (wager_row_of X tx) d) = recording tx (bank_of d)"
proof -
  let ?q = "wager_row_of X tx"
  note rows = put_new_wager [of ?q d, simplified, OF new]
  have k: "keyed k ?q \<longleftrightarrow> k = (tx_providerID tx, tx_externalTransactionID tx)" for k
    using ne by (cases k) (auto simp: keyed_def wager_row_of_def nullableString_def)
  have "List.find (keyed (tx_providerID tx, tx_externalTransactionID tx)) (db_wagers d) = None"
    using key by (simp add: bank_of_def)
  then have "(\<lambda>k. map_option tx_of (List.find (keyed k) (db_wagers d @ [?q]))) =
      (\<lambda>k. map_option tx_of (List.find (keyed k) (db_wagers d)))((tx_providerID tx, tx_externalTransactionID tx) \<mapsto> tx)"
    by (intro ext) (auto simp: find_append k split: option.split)
  moreover have "\<not> is_reversal_row ref ?q" for ref using live by (auto simp: is_reversal_row_def)
  then have "{ref. \<exists>r\<in>set (db_wagers d @ [?q]). is_reversal_row ref r} = {ref. \<exists>r\<in>set (db_wagers d). is_reversal_row ref r}"
    by auto
  ultimately show ?thesis
    using rows by (simp add: bank_of_def recording_def ledger_join_def)
qed

lemma ledger_join_eq:
  "ledger_join d = List.map_filter (\<lambda>r. map_option (Pair r) (map_option wl_currency
     (lookup_by wl_id (lr_wallet_id r) (db_wallets d)))) (db_ledger d)"
  by (simp add: ledger_join_def option.map_comp comp_def)

lemma ledger_join_booked:
  assumes "lookup_by wl_id (wl_id w') (db_wallets d) = Some w" "lr_wallet_id e = wl_id w'"
  shows "ledger_join (booked q w' e d) = ledger_join d @ [(e, wl_currency w)]"
proof -
  have "map_option wl_currency (lookup_by wl_id i (db_wallets (booked q w' e d))) =
      map_option wl_currency (lookup_by wl_id i (db_wallets d))" for i
    using assms(1) by (simp add: booked_def wallets.lookup_upsert wallet_merge_def)
  then show ?thesis
    using assms by (simp add: ledger_join_eq booked_def List.map_filter_def)
qed

lemma bank_of_moving:
  assumes new: "lookup_by wr_id (tx_id tx) (db_wagers d) = None"
    and key: "bk_wager (bank_of d) (tx_providerID tx, tx_externalTransactionID tx) = None"
    and ne: "tx_providerID tx \<noteq> []" "tx_externalTransactionID tx \<noteq> []"
    and st: "tx_status tx = TxStatusProcessed"
    and ref: "tx_referenceTransactionID tx \<noteq> None \<Longrightarrow> tx_kind tx = KindRefund \<or> tx_kind tx = KindRollback"
    and w: "lookup_by wl_id (tx_walletID tx) (db_wallets d) = Some w" "wl_id w' = tx_walletID tx"
    and e: "lr_transaction_id e = tx_id tx" "lr_wallet_id e = tx_walletID tx" "lr_balance_after e = wl_balance w'"
    and ledger: "\<forall>e\<in>set (db_ledger d). lr_transaction_id e \<noteq> tx_id tx"
  shows "bank_of (booked (wager_row_of X tx) w' e d) =
    moving tx (wl_currency w) (sint (wl_balance w')) (recording tx (bank_of d))"
proof -
  let ?q = "wager_row_of X tx"
  let ?d' = "booked ?q w' e d"
  have rows: "db_wagers ?d' = db_wagers d @ [?q]"
    using put_new_wager [of ?q d, simplified, OF new] by (simp add: booked_def)
  have k: "keyed k ?q \<longleftrightarrow> k = (tx_providerID tx, tx_externalTransactionID tx)" for k
    using ne by (cases k) (auto simp: keyed_def wager_row_of_def nullableString_def)
  have none: "List.find (keyed (tx_providerID tx, tx_externalTransactionID tx)) (db_wagers d) = None"
    using key by (simp add: bank_of_def)
  have wager: "bk_wager (bank_of ?d') = (bk_wager (bank_of d))((tx_providerID tx, tx_externalTransactionID tx) \<mapsto> tx)"
    using none by (intro ext) (auto simp: bank_of_def rows find_append k split: option.split)
  have "is_reversal_row ref ?q \<longleftrightarrow> tx_referenceTransactionID tx = Some ref" for ref
    using st ref by (auto simp: is_reversal_row_def)
  then have reversed: "bk_reversed (bank_of ?d') = bk_reversed (bank_of d) \<union> set_option (tx_referenceTransactionID tx)"
    by (auto simp: bank_of_def rows)
  have account: "bk_account (bank_of ?d') = (bk_account (bank_of d))
      (tx_walletID tx \<mapsto> \<lparr>ac_currency = wl_currency w, ac_balance = sint (wl_balance w')\<rparr>)"
    using w by (intro ext) (simp add: bank_of_def booked_def wallets.lookup_upsert account_of_def wallet_merge_def)
  have join: "ledger_join ?d' = ledger_join d @ [(e, wl_currency w)]"
    using w e by (intro ledger_join_booked) simp_all
  have "lr_transaction_id (fst rc) \<noteq> tx_id tx" if "rc \<in> set (ledger_join d)" for rc
    using that ledger by (auto simp: ledger_join_def List.map_filter_def split: option.splits)
  then have "List.find (\<lambda>rc. lr_transaction_id (fst rc) = tx_id tx) (ledger_join d) = None"
    by (auto simp: find_None_iff)
  then have after: "bk_after (bank_of ?d') = (bk_after (bank_of d))(tx_id tx \<mapsto> money_in (wl_currency w) (sint (wl_balance w')))"
    using e by (intro ext) (auto simp: bank_of_def join find_append money_in_def of_int_sint_eq split: option.split)
  show ?thesis
    by (rule bank.equality) (simp_all add: moving_def recording_def wager reversed account after)
qed

section \<open>Constraints that hold\<close>

definition candidate :: "draws \<Rightarrow> db \<Rightarrow> transaction \<Rightarrow> bool" where
  "candidate dr d tx \<longleftrightarrow> tx_id tx = dr_tx_id dr \<and> provider_tx tx \<and>
     bk_wager (bank_of d) (tx_providerID tx, tx_externalTransactionID tx) = None"

text \<open>The row of a new transaction breaks no constraint, unless its wallet does not exist.\<close>

lemma wager_violation_new:
  assumes s: "servable X dr cid d" and c: "candidate dr d tx" and core: "tx_core tx' = tx_core tx"
    and ref: "\<And>ref. tx_referenceTransactionID tx' = Some ref \<Longrightarrow> lookup_by wr_id ref (db_wagers d) \<noteq> None"
  shows "wager_violation d (wager_row_of X tx') =
    (if lookup_by wl_id (tx_walletID tx) (db_wallets d) = None
     then Some (ForeignKeyViolation ''wager_transactions_wallet_id_fkey'') else None)"
proof -
  note T = tx_core_eqD [OF core]
  have p: "provider_tx tx'" using c tx_core_provider_tx [OF core] by (simp add: candidate_def)
  then have k: "tx_kind tx' \<in> {KindBet, KindWin, KindLoss, KindRefund, KindRollback}"
    by (auto simp: provider_tx_def kind_ok_def split: kind.splits)
  have "bk_wager (bank_of d) (tx_providerID tx', tx_externalTransactionID tx') = None"
    using c by (simp add: candidate_def T)
  then have uniq: "\<not> (\<exists>o'\<in>set (db_wagers d). wr_provider_id o' = wr_provider_id (wager_row_of X tx') \<and>
      wr_external_transaction_id o' = wr_external_transaction_id (wager_row_of X tx'))"
    using p by (auto simp: bank_of_def find_None_iff keyed_def wager_row_of_def nullableString_def provider_tx_def)
  have kind: "\<not> (case wr_kind (wager_row_of X tx') of Kind_other _ \<Rightarrow> True | _ \<Rightarrow> False)"
    "wr_kind (wager_row_of X tx') \<noteq> KindOpening" using k by auto
  have fields: "wr_provider_id (wager_row_of X tx') = Some (tx_providerID tx')"
    "wr_external_transaction_id (wager_row_of X tx') = Some (tx_externalTransactionID tx')"
    "wr_round_id (wager_row_of X tx') = Some (tx_roundID tx')" "wr_game_id (wager_row_of X tx') = Some (tx_gameID tx')"
    "tx_providerID tx' \<noteq> []" "tx_externalTransactionID tx' \<noteq> []" "tx_roundID tx' \<noteq> []" "tx_gameID tx' \<noteq> []"
    using p by (simp_all add: wager_row_of_def nullableString_def provider_tx_def)
  have wid: "wr_wallet_id (wager_row_of X tx') = tx_walletID tx" by (simp add: T)
  show ?thesis
    unfolding wager_violation_def if_not_P [OF kind(1)] wid
    using kind(2) fields uniq ref by (auto split: option.split)
qed

text \<open>The balance and the entry of a movement break none.\<close>

lemma movement_violations:
  assumes s: "servable X dr cid d" and w: "lookup_by wl_id wid (db_wallets d) = Some w"
    and m: "moved (wallet_of w) dir a w'" "0 \<le> units (w_balance w')"
    and e: "entry_ok en" "le_id en = dr_entry_id dr" "le_walletID en = wid" "le_transactionID en = dr_tx_id dr"
  shows "wallet_violation (put_wager q d) (wallet_row_of w') = None"
    and "ledger_violation (put_wallet (wallet_row_of w') (put_wager q d)) (ledger_row_of en) = None"
proof -
  note M = movedD [OF m(1)]
  have wm: "w \<in> set (db_wallets d)" "wl_id w = wid" using lookup_by_SomeD [OF w] by simp_all
  have v: "0 \<le> sint (wl_version w)" "sint (wl_version w) < max_i64" using servableD(3) [OF s wm(1)] by simp_all
  then have "fits_i64 (sint (wl_version w) + 1)" by (simp add: fits_i64_def)
  then have "sint (wl_version w + 1) = sint (wl_version w) + 1"
    using sint_of_int_fits [of "sint (wl_version w) + 1"] by simp
  moreover have "w_version w' = wl_version w + 1" using M(3) by (simp add: wallet_of_def)
  moreover have "w_id w' = wid" using M(1) wm by (simp add: wallet_of_def)
  ultimately show "wallet_violation (put_wager q d) (wallet_row_of w') = None"
    using m(2) w v by (simp add: wallet_violation_def wallet_row_of_def)
  have "lookup_by wl_id wid (db_wallets (put_wallet (wallet_row_of w') (put_wager q d))) \<noteq> None"
    using w by (simp add: wallets.lookup_upsert)
  with e servableD(7,8) [OF s]
  show "ledger_violation (put_wallet (wallet_row_of w') (put_wager q d)) (ledger_row_of en) = None"
    unfolding ledger_violation_def ledger_row_of_def
    by (cases "le_direction en") (auto simp: entry_ok_def)
qed

section \<open>Runs on a calm session\<close>

text \<open>\<open>records m st d rb\<close>: on a calm session \<open>m\<close> answers and leaves behind what \<open>rb\<close> says.\<close>

definition records ::
  "(sess, error, submit_result) prog \<Rightarrow> tx_state \<Rightarrow> db \<Rightarrow> (error + submit_result) \<times> bank \<Rightarrow> bool" where
  "records m st d rb \<longleftrightarrow> (\<exists>d'. m (calm st d) = (fst rb, calm st d') \<and> bank_of d' = snd rb)"

lemma recordsI: "m (calm st d) = (fst rb, calm st d') \<Longrightarrow> bank_of d' = snd rb \<Longrightarrow> records m st d rb"
  by (auto simp: records_def)

lemma records_WithinTx:
  assumes "records m TxActive d rb" "\<And>e. fst rb = Inl e \<Longrightarrow> snd rb = bank_of d"
  shows "records (WithinTx m) NoTx d rb"
proof -
  from assms(1) obtain d' where d': "m (calm TxActive d) = (fst rb, calm TxActive d')" "bank_of d' = snd rb"
    by (auto simp: records_def)
  show ?thesis
  proof (cases "fst rb")
    case (Inl e)
    with d' assms(2) show ?thesis
      by (intro recordsI [where d' = d]) (simp_all add: calm_WithinTx_fail)
  next
    case (Inr x)
    with d' show ?thesis
      by (intro recordsI [where d' = d']) (simp_all add: calm_WithinTx_ok)
  qed
qed

text \<open>The candidate while it is being processed: its reference may have been resolved.\<close>

definition in_process :: "uuid option \<Rightarrow> transaction \<Rightarrow> transaction \<Rightarrow> bool" where
  "in_process rid tx0 tx \<longleftrightarrow> tx_status tx0 = TxStatusPending \<and> tx_failureCode tx0 = [] \<and>
     tx_referenceTransactionID tx0 = None \<and>
     (\<exists>n. tx = tx0\<lparr>tx_referenceTransactionID := rid, tx_updatedAt := n\<rparr>)"

lemma in_process_marks:
  assumes "in_process rid tx0 tx"
  shows "MarkProcessed now tx = Inr (decided now tx0 (rid, Settles))"
    and "decided now tx0 (rid, Moves x) = decided now tx0 (rid, Settles)"
    and "MarkRejected code now tx = Inr (decided now tx0 (rid, Rejects code))"
    and "rid = None \<Longrightarrow> MarkPendingReference now tx = Inr (decided now tx0 (rid, Parks))"
  using assms
  by (auto simp: in_process_def decided_def MarkProcessed_def MarkRejected_def MarkPendingReference_def)

lemma in_process_fields:
  assumes "in_process rid tx0 tx"
  shows "tx_id tx = tx_id tx0" "tx_kind tx = tx_kind tx0" "tx_walletID tx = tx_walletID tx0"
    "tx_amount tx = tx_amount tx0" "tx_providerID tx = tx_providerID tx0" "tx_core tx = tx_core tx0"
    "tx_referenceExternalTransactionID tx = tx_referenceExternalTransactionID tx0"
    "tx_status tx = TxStatusPending"
  using assms by (auto simp: in_process_def tx_core_def)

lemma decided_fields [simp]:
  "tx_id (decided now tx v) = tx_id tx" "tx_kind (decided now tx v) = tx_kind tx"
  "tx_walletID (decided now tx v) = tx_walletID tx" "tx_amount (decided now tx v) = tx_amount tx"
  "tx_providerID (decided now tx v) = tx_providerID tx"
  "tx_externalTransactionID (decided now tx v) = tx_externalTransactionID tx"
  "tx_core (decided now tx v) = tx_core tx" "tx_status (decided now tx v) = verdict_status (snd v)"
  "tx_referenceTransactionID (decided now tx v) = fst v"
  by (simp_all add: decided_def tx_core_def)

text \<open>What all runs below share: the tables can serve the candidate, whose reference is a stored
  transaction that only a reversal has.\<close>

definition serving :: "external \<Rightarrow> draws \<Rightarrow> string \<Rightarrow> db \<Rightarrow> uuid option \<Rightarrow> transaction \<Rightarrow> bool" where
  "serving X dr cid d rid tx0 \<longleftrightarrow> servable X dr cid d \<and> candidate dr d tx0 \<and>
     (\<forall>ref. rid = Some ref \<longrightarrow> lookup_by wr_id ref (db_wagers d) \<noteq> None \<and>
        (tx_kind tx0 = KindRefund \<or> tx_kind tx0 = KindRollback))"

lemma servingD:
  assumes "serving X dr cid d rid tx0"
  shows "servable X dr cid d" "candidate dr d tx0" "tx_id tx0 = dr_tx_id dr" "provider_tx tx0"
    "bk_wager (bank_of d) (tx_providerID tx0, tx_externalTransactionID tx0) = None"
    "tx_providerID tx0 \<noteq> []" "tx_externalTransactionID tx0 \<noteq> []" "tx_walletID tx0 \<noteq> uuid_Nil"
    "tx_id tx0 \<noteq> uuid_Nil" "lookup_by wr_id (tx_id tx0) (db_wagers d) = None"
    and "rid = Some ref \<Longrightarrow> lookup_by wr_id ref (db_wagers d) \<noteq> None"
    and "rid \<noteq> None \<Longrightarrow> tx_kind tx0 = KindRefund \<or> tx_kind tx0 = KindRollback"
proof -
  show s: "servable X dr cid d" and c: "candidate dr d tx0"
    and "rid = Some ref \<Longrightarrow> lookup_by wr_id ref (db_wagers d) \<noteq> None"
    and "rid \<noteq> None \<Longrightarrow> tx_kind tx0 = KindRefund \<or> tx_kind tx0 = KindRollback"
    using assms unfolding serving_def by blast+
  show "tx_id tx0 = dr_tx_id dr" "provider_tx tx0"
    "bk_wager (bank_of d) (tx_providerID tx0, tx_externalTransactionID tx0) = None"
    using c by (simp_all add: candidate_def)
  then show "tx_providerID tx0 \<noteq> []" "tx_externalTransactionID tx0 \<noteq> []" "tx_walletID tx0 \<noteq> uuid_Nil"
    "tx_id tx0 \<noteq> uuid_Nil" "lookup_by wr_id (tx_id tx0) (db_wagers d) = None"
    using servableD(5,6) [OF s] by (simp_all add: provider_tx_def)
qed

lemma serving_violation:
  assumes "serving X dr cid d rid tx0"
  shows "wager_violation d (wager_row_of X (decided now tx0 (rid, v))) =
    (if lookup_by wl_id (tx_walletID tx0) (db_wallets d) = None
     then Some (ForeignKeyViolation ''wager_transactions_wallet_id_fkey'') else None)"
  using servingD [OF assms] by (intro wager_violation_new) simp_all

lemma Wager_Save_violation:
  "st \<noteq> TxAborted \<Longrightarrow> wager_violation d (wager_row_of X tx) = Some (ForeignKeyViolation c) \<Longrightarrow>
     Wager_Save X tx (calm st d) = (Inl (PgE (ForeignKeyViolation c)), if st = NoTx then calm st d else calm TxAborted d)"
  by (simp add: Wager_Save_def onResult_def calm_query insert_eqs wrapTransientErr_def SafeToRetry_def)

lemma account_None: "lookup_by wl_id wid (db_wallets d) = None \<Longrightarrow> bk_account (bank_of d) wid = None"
  by (simp add: bank_of_def)

lemma account_Some:
  "lookup_by wl_id wid (db_wallets d) = Some w \<Longrightarrow> bk_account (bank_of d) wid = Some (account_of w)"
  by (simp add: bank_of_def)

lemma balance_in: "w_balance (wallet_of w) = money_in (ac_currency (account_of w)) (ac_balance (account_of w))"
  by (simp add: wallet_of_def money_in_def account_of_def of_int_sint_eq)

text \<open>A verdict that moves nothing: the transaction, its event, and the balance as it is.\<close>

fun still :: "verdict \<Rightarrow> bool" where
  "still (Fails _) = False"
| "still (Moves _) = False"
| "still _ = True"

lemma bank_record_still:
  "still v \<Longrightarrow> bank_record now b tx (rid, v) =
    (case bk_account b (tx_walletID tx) of
       None \<Rightarrow> (Inl no_wallet_key, b)
     | Some ac \<Rightarrow> (Inr (fresh_result (decided now tx (rid, v)) (money_in (ac_currency ac) (ac_balance ac))),
         recording (decided now tx (rid, v)) b))"
  by (cases v) (simp_all add: bank_record_def Let_def split: option.split)

lemma saveWithEvent_records:
  assumes s: "serving X dr cid d rid tx0" and v: "still v"
    and settles: "v = Settles \<Longrightarrow> rid = None"
  shows "records (saveWithEvent X (decided (dr_mark_now dr) tx0 (rid, v)) ev) NoTx d
    (bank_record (dr_mark_now dr) (bank_of d) tx0 (rid, v))"
proof (cases "lookup_by wl_id (tx_walletID tx0) (db_wallets d)")
  case None
  let ?tx = "decided (dr_mark_now dr) tx0 (rid, v)"
  have "wager_violation d (wager_row_of X ?tx) = Some (ForeignKeyViolation ''wager_transactions_wallet_id_fkey'')"
    using serving_violation [OF s] None by simp
  then have "bindE (Wager_Save X ?tx) (\<lambda>_. SaveAll [ev]) (calm TxActive d) =
      (Inl no_wallet_key, calm TxAborted d)"
    by (simp add: calm_bindE Wager_Save_violation no_wallet_key_def del: SaveAll.simps)
  then have "saveWithEvent X ?tx ev (calm NoTx d) = (Inl no_wallet_key, calm NoTx d)"
    by (simp add: saveWithEvent_def calm_bindE calm_WithinTx_fail del: SaveAll.simps)
  moreover have "bank_record (dr_mark_now dr) (bank_of d) tx0 (rid, v) = (Inl no_wallet_key, bank_of d)"
    using v None by (simp add: bank_record_still account_None)
  ultimately show ?thesis by (intro recordsI [where d' = d]) simp_all
next
  case (Some w)
  let ?tx = "decided (dr_mark_now dr) tx0 (rid, v)"
  let ?d' = "put_outbox [ev] (put_wager (wager_row_of X ?tx) d)"
  note S = servingD [OF s]
  have "wager_violation d (wager_row_of X ?tx) = None" using serving_violation [OF s] Some by simp
  then have "bindE (Wager_Save X ?tx) (\<lambda>_. SaveAll [ev]) (calm TxActive d) = (Inr (), calm TxActive ?d')"
    by (simp add: calm_bindE calm_Wager_Save calm_SaveAll del: SaveAll.simps)
  then have tx: "WithinTx (bindE (Wager_Save X ?tx) (\<lambda>_. SaveAll [ev])) (calm NoTx d) = (Inr (), calm NoTx ?d')"
    by (rule calm_WithinTx_ok)
  have "x_iso X (wl_currency w)" using servableD(2) [OF S(1)] lookup_by_SomeD [OF Some] by blast
  then have "saveWithEvent X ?tx ev (calm NoTx d) = (Inr (fresh_result ?tx (w_balance (wallet_of w))), calm NoTx ?d')"
    using tx Some by (simp add: saveWithEvent_def calm_bindE calm_FindByID scanWallet_eq fresh_result_def del: SaveAll.simps)
  moreover have "bank_of ?d' = recording ?tx (bank_of d)"
    using v settles S(5-7,10) unfolding bank_of_put_outbox
    by (intro bank_of_recording) (cases v; simp)+
  moreover have "bank_record (dr_mark_now dr) (bank_of d) tx0 (rid, v) =
      (Inr (fresh_result ?tx (w_balance (wallet_of w))), recording ?tx (bank_of d))"
    using v account_Some [OF Some] by (simp add: bank_record_still balance_in)
  ultimately show ?thesis by (intro recordsI [where d' = ?d']) simp_all
qed

subsection \<open>Inside the transaction of a movement\<close>

lemma rejectInTx_records:
  assumes s: "serving X dr cid d rid tx0" and p: "in_process rid tx0 tx"
    and w: "lookup_by wl_id (tx_walletID tx0) (db_wallets d) = Some w"
  shows "records (rejectInTx X dr tx code (wallet_of w) cid) TxActive d
    (bank_record (dr_mark_now dr) (bank_of d) tx0 (rid, Rejects code))"
proof -
  let ?tx = "decided (dr_mark_now dr) tx0 (rid, Rejects code)"
  note S = servingD [OF s]
  obtain ev where ev: "newWagerTransactionRejectedEvent X (dr_event dr) ?tx cid = Inr ev"
    using events_built(2) [OF servableD(9) [OF S(1)], of ?tx] S(9) by auto
  let ?d' = "put_outbox [ev] (put_wager (wager_row_of X ?tx) d)"
  have "wager_violation d (wager_row_of X ?tx) = None" using serving_violation [OF s] w by simp
  then have "rejectInTx X dr tx code (wallet_of w) cid (calm TxActive d) =
      (Inr (fresh_result ?tx (w_balance (wallet_of w))), calm TxActive ?d')"
    using ev by (simp add: rejectInTx_def calm_bindE in_process_marks(3) [OF p] calm_Wager_Save calm_SaveAll
        fresh_result_def del: SaveAll.simps)
  moreover have "bank_of ?d' = recording ?tx (bank_of d)"
    using S(5-7,10) unfolding bank_of_put_outbox by (intro bank_of_recording) simp_all
  ultimately show ?thesis
    by (intro recordsI [where d' = ?d']) (simp_all add: bank_record_still account_Some [OF w] balance_in)
qed

lemma move_wallet_decides:
  assumes "0 \<le> sint (wl_balance w)" and "0 < units a" and "dir = (if debit then DirectionDebit else DirectionCredit)"
  shows "case decide_movement debit code (Some (account_of w)) a of
      Fails e \<Rightarrow> move_wallet dir (wallet_of w) a = Inl e \<and> e \<noteq> WalletE ErrInsufficientBalance
    | Rejects c \<Rightarrow> c = code \<and> move_wallet dir (wallet_of w) a = Inl (WalletE ErrInsufficientBalance)
    | Moves x \<Rightarrow> (\<exists>w'. move_wallet dir (wallet_of w) a = Inr w' \<and> w_balance w' = money_in (m_currency a) x \<and>
        units (w_balance w') = x \<and> 0 \<le> x \<and> wl_currency w = m_currency a)
    | _ \<Rightarrow> False"
proof (cases debit)
  case True
  have fits: "fits_i64 (sint (wl_balance w) - units a)" if "\<not> sint (wl_balance w) < units a"
    using assms(1,2) that sint_bounds [of "wl_balance w"] by (simp add: fits_i64_def)
  have "Wallet_Debit (wallet_of w) a =
     (if m_currency a \<noteq> wl_currency w then Inl (MoneyE ErrCurrencyMismatch)
      else if sint (wl_balance w) < units a then Inl (WalletE ErrInsufficientBalance)
      else Inr ((wallet_of w)\<lparr>w_balance := \<lparr>m_currency = wl_currency w, m_amount = of_int (sint (wl_balance w) - units a)\<rparr>,
                  w_version := w_version (wallet_of w) + 1\<rparr>))"
    using Wallet_Debit_eq [of "wallet_of w" a] assms by simp
  with True assms fits show ?thesis
    by (auto simp: move_wallet_def account_of_def money_in_def sint_of_int_fits simp del: of_int_diff)
next
  case False
  have fits: "fits_i64 (sint (wl_balance w) + units a)" if "\<not> max_i64 < sint (wl_balance w) + units a"
    using assms(1,2) that by (simp add: fits_i64_def)
  have "Wallet_Credit (wallet_of w) a =
     (if wl_currency w \<noteq> m_currency a then Inl (MoneyE ErrCurrencyMismatch)
      else if max_i64 < sint (wl_balance w) + units a then Inl (MoneyE ErrOverflow)
      else Inr ((wallet_of w)\<lparr>w_balance := \<lparr>m_currency = wl_currency w, m_amount = of_int (sint (wl_balance w) + units a)\<rparr>,
                  w_version := w_version (wallet_of w) + 1\<rparr>))"
    using Wallet_Credit_exact [of "wallet_of w" a] assms by simp
  with False assms fits show ?thesis
    by (auto simp: move_wallet_def account_of_def money_in_def sint_of_int_fits simp del: of_int_add)
qed

lemma moveInTx_moves:
  assumes s: "serving X dr cid d rid tx0" and p: "in_process rid tx0 tx"
    and w: "lookup_by wl_id (tx_walletID tx0) (db_wallets d) = Some w"
    and dir: "dir = (if debit then DirectionDebit else DirectionCredit)"
    and mv: "move_wallet dir (wallet_of w) (tx_amount tx0) = Inr w'" and cur: "wl_currency w = m_currency (tx_amount tx0)"
    and w': "w_balance w' = money_in (m_currency (tx_amount tx0)) x" "units (w_balance w') = x" "0 \<le> x"
  shows "records (moveInTx X dr tx dir (wallet_of w) cid) TxActive d
    (bank_record (dr_mark_now dr) (bank_of d) tx0 (rid, Moves x))"
proof -
  note S = servingD [OF s] and F = in_process_fields [OF p]
  have wm: "w \<in> set (db_wallets d)" "wl_id w = tx_walletID tx0" using lookup_by_SomeD [OF w] by simp_all
  have nn: "0 \<le> sint (wl_balance w)" using books_balance_nonneg [OF servableD(1) [OF S(1)] wm(1)] .
  have kd: "dir = DirectionDebit \<or> dir = DirectionCredit" using dir by simp
  note M = move_wallet_Inr [OF mv kd] and MD = movedD [OF move_wallet_Inr [OF mv kd]]
  have wid: "w_id w' = tx_walletID tx0" using MD(1) wm by simp
  let ?in = "\<lparr>nle_WalletID = w_id w', nle_TransactionID = tx_id tx, nle_Direction = dir, nle_Amount = tx_amount tx0,
     nle_BalanceBefore = w_balance (wallet_of w), nle_BalanceAfter = w_balance w'\<rparr>"
  have "\<exists>en. NewLedgerEntry (dr_entry_id dr) (dr_entry_now dr) ?in = Inr en"
    using mv nn S(8,9) wid F(1) dir debit.entry_accepted [of "wallet_of w" "tx_amount tx0" w' "tx_id tx"]
      credit.entry_accepted [of "wallet_of w" "tx_amount tx0" w' "tx_id tx"]
    by (auto simp: move_wallet_def split: if_splits)
  then obtain en where en: "NewLedgerEntry (dr_entry_id dr) (dr_entry_now dr) ?in = Inr en" ..
  note E = NewLedgerEntry_Inr(1,2) [OF en]
  let ?tx = "decided (dr_mark_now dr) tx0 (rid, Moves x)"
  obtain ev1 where ev1: "newWagerTransactionProcessedEvent X (dr_event dr) ?tx cid = Inr ev1"
    using events_built(1) [OF servableD(9) [OF S(1)], of ?tx] S(9) by auto
  obtain ev2 where ev2: "newWalletBalanceChangedEvent X (dr_event2 dr) w' en cid (Some (x_uuid X (oe_id ev1))) = Inr ev2"
    using events_built(4) [OF servableD(10) [OF S(1)], of w'] S(8) wid by auto
  let ?q = "wager_row_of X ?tx" and ?d1 = "booked (wager_row_of X ?tx) (wallet_row_of w') (ledger_row_of en) d"
  have viol: "wager_violation d ?q = None" using serving_violation [OF s] w by simp
  note V = movement_violations [OF S(1) w M, of en ?q]
  have v: "wallet_violation (put_wager ?q d) (wallet_row_of w') = None"
    "ledger_violation (put_wallet (wallet_row_of w') (put_wager ?q d)) (ledger_row_of en) = None"
    using V w'(2,3) E S(3) wid F(1) by simp_all
  have run: "moveInTx X dr tx dir (wallet_of w) cid (calm TxActive d) =
      (Inr (fresh_result ?tx (w_balance w')), calm TxActive (put_outbox [ev1, ev2] ?d1))"
    unfolding moveInTx_def Let_def move_wallet_def [symmetric]
    using mv en ev1 ev2 viol v
    by (simp add: F(4) calm_bindE in_process_marks(1,2) [OF p]
        calm_Wager_Save calm_Wallet_Save calm_SaveLedgerEntry calm_SaveAll booked_def fresh_result_def
        del: SaveAll.simps)
  have "bank_of ?d1 = moving ?tx (wl_currency w) (sint (wl_balance (wallet_row_of w'))) (recording ?tx (bank_of d))"
    using S(3,5-7,10,12) w wid E(2) F(1) servableD(8) [OF S(1)]
    by (intro bank_of_moving) (auto simp: ledger_row_of_def)
  then have "bank_of (put_outbox [ev1, ev2] ?d1) = moving ?tx (m_currency (tx_amount tx0)) x (recording ?tx (bank_of d))"
    unfolding bank_of_put_outbox using cur w' by simp
  with run w'(1) show ?thesis
    by (intro recordsI [where d' = "put_outbox [ev1, ev2] ?d1"]) (simp_all add: bank_record_def Let_def)
qed

lemma moveInTx_records:
  assumes s: "serving X dr cid d rid tx0" and p: "in_process rid tx0 tx"
    and w: "lookup_by wl_id (tx_walletID tx0) (db_wallets d) = Some w"
    and pos: "0 < units (tx_amount tx0)" and dir: "dir = (if debit then DirectionDebit else DirectionCredit)"
  shows "records (moveInTx X dr tx dir (wallet_of w) cid) TxActive d
    (bank_record (dr_mark_now dr) (bank_of d) tx0 (rid, decide_movement debit
      (if tx_kind tx0 \<noteq> KindBet then FailureCodeReversalExceedsBalance else FailureCodeInsufficientBalance)
      (Some (account_of w)) (tx_amount tx0)))"
proof -
  let ?code = "if tx_kind tx0 \<noteq> KindBet then FailureCodeReversalExceedsBalance else FailureCodeInsufficientBalance"
  let ?v = "decide_movement debit ?code (Some (account_of w)) (tx_amount tx0)"
  note S = servingD [OF s] and F = in_process_fields [OF p]
  have wm: "w \<in> set (db_wallets d)" "wl_id w = tx_walletID tx0" using lookup_by_SomeD [OF w] by simp_all
  have nn: "0 \<le> sint (wl_balance w)" using books_balance_nonneg [OF servableD(1) [OF S(1)] wm(1)] .
  note dec = move_wallet_decides [OF nn pos dir, of ?code]
  show ?thesis
  proof (cases ?v)
    case (Fails e)
    with dec have "move_wallet dir (wallet_of w) (tx_amount tx0) = Inl e" "e \<noteq> WalletE ErrInsufficientBalance" by simp_all
    then have "moveInTx X dr tx dir (wallet_of w) cid (calm TxActive d) = (Inl e, calm TxActive d)"
      unfolding moveInTx_def Let_def move_wallet_def [symmetric] by (simp add: F)
    with Fails show ?thesis by (intro recordsI [where d' = d]) (simp_all add: bank_record_def)
  next
    case (Rejects c)
    with dec have c: "c = ?code" "move_wallet dir (wallet_of w) (tx_amount tx0) = Inl (WalletE ErrInsufficientBalance)"
      by simp_all
    then have "moveInTx X dr tx dir (wallet_of w) cid = rejectInTx X dr tx ?code (wallet_of w) cid"
      unfolding moveInTx_def Let_def move_wallet_def [symmetric] by (simp add: F)
    with Rejects c(1) rejectInTx_records [OF s p w] show ?thesis by simp
  next
    case (Moves x)
    with dec obtain w' where "move_wallet dir (wallet_of w) (tx_amount tx0) = Inr w'"
      "w_balance w' = money_in (m_currency (tx_amount tx0)) x" "units (w_balance w') = x" "0 \<le> x"
      "wl_currency w = m_currency (tx_amount tx0)" by auto
    with moveInTx_moves [OF s p w dir] Moves show ?thesis by simp
  qed (use dec in simp_all)
qed

lemma processInTx_records:
  assumes s: "serving X dr cid d rid tx0" and p: "in_process rid tx0 tx"
    and pos: "0 < units (tx_amount tx0)" and dir: "dir = (if debit then DirectionDebit else DirectionCredit)"
    and ref: "if tx_kind tx0 = KindRefund \<or> tx_kind tx0 = KindRollback
      then \<exists>ref. referenced = Some ref \<and> rid = Some (tx_id ref) else rid = None"
  shows "records (processInTx X dr tx referenced dir cid) TxActive d
    (bank_record (dr_mark_now dr) (bank_of d) tx0 (rid,
      if bk_account (bank_of d) (tx_walletID tx0) \<noteq> None \<and> (\<exists>r. rid = Some r \<and> r \<in> bk_reversed (bank_of d))
      then Rejects FailureCodeDuplicateReversal
      else decide_movement debit
        (if tx_kind tx0 \<noteq> KindBet then FailureCodeReversalExceedsBalance else FailureCodeInsufficientBalance)
        (bk_account (bank_of d) (tx_walletID tx0)) (tx_amount tx0)))"
proof (cases "lookup_by wl_id (tx_walletID tx0) (db_wallets d)")
  case None
  then show ?thesis
    by (intro recordsI [where d' = d])
      (simp_all add: processInTx_def calm_bindE calm_FindByID in_process_fields [OF p] account_None bank_record_def)
next
  case (Some w)
  note S = servingD [OF s] and F = in_process_fields [OF p]
  have "x_iso X (wl_currency w)" using servableD(2) [OF S(1)] lookup_by_SomeD [OF Some] by blast
  then have find: "Wallet_FindByID X (tx_walletID tx) (calm TxActive d) = (Inr (wallet_of w), calm TxActive d)"
    using Some by (simp add: calm_FindByID scanWallet_eq F)
  note acc = account_Some [OF Some]
  show ?thesis
  proof (cases "tx_kind tx0 = KindRefund \<or> tx_kind tx0 = KindRollback")
    case False
    with find have "processInTx X dr tx referenced dir cid (calm TxActive d) = moveInTx X dr tx dir (wallet_of w) cid (calm TxActive d)"
      by (simp add: processInTx_def calm_bindE F)
    with moveInTx_records [OF s p Some pos dir] False ref acc show ?thesis by (simp add: records_def)
  next
    case True
    with ref obtain rf where rf: "referenced = Some rf" "rid = Some (tx_id rf)" by auto
    show ?thesis
    proof (cases "List.find (is_reversal_row (tx_id rf)) (db_wagers d)")
      case None
      then have "tx_id rf \<notin> bk_reversed (bank_of d)" by (simp add: bank_of_def find_None_iff)
      moreover have "processInTx X dr tx referenced dir cid (calm TxActive d) = moveInTx X dr tx dir (wallet_of w) cid (calm TxActive d)"
        using find True rf None by (simp add: processInTx_def calm_bindE calm_onResult calm_FindReversal F)
      ultimately show ?thesis
        using moveInTx_records [OF s p Some pos dir] rf acc by (simp add: records_def)
    next
      case dup: (Some r)
      then have r: "r \<in> set (db_wagers d)" "is_reversal_row (tx_id rf) r" by (auto dest!: find_Some_iff_first)
      then have "tx_id rf \<in> bk_reversed (bank_of d)" by (auto simp: bank_of_def)
      moreover have "processInTx X dr tx referenced dir cid (calm TxActive d) =
          rejectInTx X dr tx FailureCodeDuplicateReversal (wallet_of w) cid (calm TxActive d)"
        using find True rf dup servableD(4) [OF S(1) r(1)]
        by (simp add: processInTx_def calm_bindE calm_onResult calm_FindReversal scanWagerTransaction_eq F)
      ultimately show ?thesis
        using rejectInTx_records [OF s p Some] rf acc by (simp add: records_def)
    qed
  qed
qed

lemma bank_record_if_account:
  "still v \<Longrightarrow> bank_record now b tx (rid, if_account (bk_account b (tx_walletID tx)) v) = bank_record now b tx (rid, v)"
  by (auto simp: if_account_def bank_record_still) (simp add: bank_record_def)

lemma bank_record_Inl: "fst (bank_record now b tx v) = Inl e \<Longrightarrow> snd (bank_record now b tx v) = b"
  by (auto simp: bank_record_def Let_def split: verdict.splits option.splits)

subsection \<open>Outside a transaction\<close>

lemma reject_records:
  assumes s: "serving X dr cid d None tx0" and p: "in_process None tx0 tx0"
  shows "records (reject X dr tx0 code cid) NoTx d (bank_record (dr_mark_now dr) (bank_of d) tx0 (None, Rejects code))"
proof -
  let ?tx = "decided (dr_mark_now dr) tx0 (None, Rejects code)"
  obtain ev where "newWagerTransactionRejectedEvent X (dr_event dr) ?tx cid = Inr ev"
    using events_built(2) [OF servableD(9) [OF servingD(1) [OF s]], of ?tx] servingD(9) [OF s] by auto
  then have "reject X dr tx0 code cid (calm NoTx d) = saveWithEvent X ?tx ev (calm NoTx d)"
    by (simp add: reject_def calm_bindE in_process_marks(3) [OF p])
  with saveWithEvent_records [OF s, of "Rejects code" ev] show ?thesis by (simp add: records_def)
qed

lemma park_records:
  assumes s: "serving X dr cid d None tx0" and p: "in_process None tx0 tx0"
  shows "records (parkPendingReference X dr tx0 cid) NoTx d (bank_record (dr_mark_now dr) (bank_of d) tx0 (None, Parks))"
proof -
  let ?tx = "decided (dr_mark_now dr) tx0 (None, Parks)"
  obtain ev where "newWagerTransactionPendingReferenceEvent X (dr_event dr) ?tx cid = Inr ev"
    using events_built(3) [OF servableD(9) [OF servingD(1) [OF s]], of ?tx] servingD(9) [OF s] by auto
  then have "parkPendingReference X dr tx0 cid (calm NoTx d) = saveWithEvent X ?tx ev (calm NoTx d)"
    by (simp add: parkPendingReference_def Let_def calm_bindE in_process_marks(4) [OF p] in_process_fields [OF p])
  with saveWithEvent_records [OF s, of Parks ev] show ?thesis by (simp add: records_def)
qed

lemma finish_records:
  assumes s: "serving X dr cid d None tx0" and p: "in_process None tx0 tx0"
  shows "records (finishWithoutMovement X dr tx0 cid) NoTx d (bank_record (dr_mark_now dr) (bank_of d) tx0 (None,
    case bk_account (bank_of d) (tx_walletID tx0) of None \<Rightarrow> Fails (AppE ErrWalletNotFound)
    | Some ac \<Rightarrow> if m_currency (tx_amount tx0) \<noteq> ac_currency ac then Fails (MoneyE ErrCurrencyMismatch) else Settles))"
proof (cases "lookup_by wl_id (tx_walletID tx0) (db_wallets d)")
  case None
  then show ?thesis
    by (intro recordsI [where d' = d])
      (simp_all add: finishWithoutMovement_def calm_bindE calm_FindByID account_None bank_record_def)
next
  case (Some w)
  note S = servingD [OF s] and acc = account_Some [OF Some]
  have "x_iso X (wl_currency w)" using servableD(2) [OF S(1)] lookup_by_SomeD [OF Some] by blast
  then have find: "Wallet_FindByID X (tx_walletID tx0) (calm NoTx d) = (Inr (wallet_of w), calm NoTx d)"
    using Some by (simp add: calm_FindByID scanWallet_eq)
  show ?thesis
  proof (cases "m_currency (tx_amount tx0) = wl_currency w")
    case False
    with find acc show ?thesis
      by (intro recordsI [where d' = d])
        (simp_all add: finishWithoutMovement_def calm_bindE bank_record_def account_of_def)
  next
    case True
    let ?tx = "decided (dr_mark_now dr) tx0 (None, Settles)"
    obtain ev where "newWagerTransactionProcessedEvent X (dr_event dr) ?tx cid = Inr ev"
      using events_built(1) [OF servableD(9) [OF S(1)], of ?tx] S(9) by auto
    then have "finishWithoutMovement X dr tx0 cid (calm NoTx d) = saveWithEvent X ?tx ev (calm NoTx d)"
      using find True by (simp add: finishWithoutMovement_def calm_bindE in_process_marks(1) [OF p])
    with saveWithEvent_records [OF s, of Settles ev] acc True show ?thesis
      by (simp add: records_def account_of_def)
  qed
qed

section \<open>Processing a candidate\<close>

lemma kind_ok_pos:
  "provider_tx tx \<Longrightarrow> tx_kind tx \<noteq> KindLoss \<Longrightarrow> 0 < units (tx_amount tx)"
  "provider_tx tx \<Longrightarrow> tx_kind tx \<in> {KindBet, KindWin, KindLoss, KindRefund, KindRollback}"
  "provider_tx tx \<Longrightarrow> tx_kind tx = KindRefund \<or> tx_kind tx = KindRollback \<Longrightarrow>
     \<exists>e. tx_referenceExternalTransactionID tx = Some e"
  by (auto simp: provider_tx_def kind_ok_def split: kind.splits)

lemma movementDirection_debit:
  assumes "reference_ok tx ref"
  shows "movementDirection (tx_kind tx) (Some ref) =
    Inr (if tx_kind tx = KindRollback \<and> tx_kind ref \<noteq> KindBet then DirectionDebit else DirectionCredit)"
  using assms
  by (auto simp: reference_ok_def referenceableKind_def movementDirection_def split: kind.splits)

lemma process_first:
  assumes s: "serving X dr cid d None tx" and p: "in_process None tx tx"
    and k: "tx_kind tx = KindBet \<or> tx_kind tx = KindWin \<or> tx_kind tx = KindLoss"
  shows "records (process_tx X dr tx cid) NoTx d (bank_record (dr_mark_now dr) (bank_of d) tx (decide (bank_of d) tx))"
proof (cases "tx_kind tx = KindLoss")
  case True
  then have "process_tx X dr tx cid = finishWithoutMovement X dr tx cid"
    by (simp add: process_tx_def processMovement_def)
  with finish_records [OF s p] True show ?thesis by (simp add: decide_def Let_def)
next
  case False
  let ?debit = "tx_kind tx = KindBet"
  let ?dir = "if ?debit then DirectionDebit else DirectionCredit"
  have md: "movementDirection (tx_kind tx) None = Inr ?dir" using k False by (auto simp: movementDirection_def)
  have run: "process_tx X dr tx cid (calm NoTx d) = WithinTx (processInTx X dr tx None ?dir cid) (calm NoTx d)"
    using k False md by (auto simp: process_tx_def processMovement_def calm_bindE)
  have "records (processInTx X dr tx None ?dir cid) TxActive d
    (bank_record (dr_mark_now dr) (bank_of d) tx (None, decide_movement ?debit
        (if tx_kind tx \<noteq> KindBet then FailureCodeReversalExceedsBalance else FailureCodeInsufficientBalance)
        (bk_account (bank_of d) (tx_walletID tx)) (tx_amount tx)))"
    using processInTx_records [OF s p kind_ok_pos(1) [OF servingD(4) [OF s] False], of ?dir ?debit None] k by auto
  moreover have "decide_movement False c acc a = decide_movement False c' acc a" for c c' acc a by (cases acc) simp_all
  then have "(None, decide_movement ?debit
        (if tx_kind tx \<noteq> KindBet then FailureCodeReversalExceedsBalance else FailureCodeInsufficientBalance)
        (bk_account (bank_of d) (tx_walletID tx)) (tx_amount tx)) = decide (bank_of d) tx"
    using k False by (auto simp: decide_def Let_def)
  ultimately have "records (processInTx X dr tx None ?dir cid) TxActive d
    (bank_record (dr_mark_now dr) (bank_of d) tx (decide (bank_of d) tx))" by simp
  then have "records (WithinTx (processInTx X dr tx None ?dir cid)) NoTx d
    (bank_record (dr_mark_now dr) (bank_of d) tx (decide (bank_of d) tx))"
    by (rule records_WithinTx) (rule bank_record_Inl)
  with run show ?thesis by (simp add: records_def)
qed

lemma process_valid_reversal:
  assumes s: "serving X dr cid d None tx" and p: "in_process None tx tx"
    and k: "tx_kind tx = KindRefund \<or> tx_kind tx = KindRollback"
    and r: "r \<in> set (db_wagers d)" "reference_ok tx (tx_of r)"
    and run: "process_tx X dr tx cid (calm NoTx d) = processReferenced X dr tx cid (Inr (tx_of r)) (calm NoTx d)"
    and dec: "decide (bank_of d) tx = decide_reversal (bank_of d) tx (Some (tx_of r))"
  shows "records (process_tx X dr tx cid) NoTx d (bank_record (dr_mark_now dr) (bank_of d) tx (decide (bank_of d) tx))"
proof -
  let ?ref = "tx_of r"
  let ?tx = "tx\<lparr>tx_referenceTransactionID := Some (tx_id ?ref), tx_updatedAt := dr_resolve_now dr\<rparr>"
  let ?debit = "tx_kind tx = KindRollback \<and> tx_kind ?ref \<noteq> KindBet"
  let ?dir = "if ?debit then DirectionDebit else DirectionCredit"
  have rv: "ResolveReference (dr_resolve_now dr) (tx_id ?ref) tx = Inr ?tx"
    using p by (simp add: ResolveReference_def in_process_def)
  have p': "in_process (Some (tx_id ?ref)) tx ?tx" using p by (auto simp: in_process_def)
  have "lookup_by wr_id (tx_id ?ref) (db_wagers d) \<noteq> None"
    using r(1) by (auto simp: lookup_by_None_iff tx_of_def)
  then have s': "serving X dr cid d (Some (tx_id ?ref)) tx" using s k by (auto simp: serving_def)
  have run': "process_tx X dr tx cid (calm NoTx d) = WithinTx (processInTx X dr ?tx (Some ?ref) ?dir cid) (calm NoTx d)"
    using run k r(2) rv ValidateReference_eq [of tx ?ref] movementDirection_debit [OF r(2)]
    by (auto simp: processReferenced_def calm_bindE processMovement_def)
  have "records (processInTx X dr ?tx (Some ?ref) ?dir cid) TxActive d
    (bank_record (dr_mark_now dr) (bank_of d) tx (decide (bank_of d) tx))"
    using processInTx_records [OF s' p' kind_ok_pos(1) [OF servingD(4) [OF s]], of ?dir ?debit "Some ?ref"] k r(2) dec
    by (auto simp: decide_reversal_def Let_def)
  then have "records (WithinTx (processInTx X dr ?tx (Some ?ref) ?dir cid)) NoTx d
    (bank_record (dr_mark_now dr) (bank_of d) tx (decide (bank_of d) tx))"
    by (rule records_WithinTx) (rule bank_record_Inl)
  with run' show ?thesis by (simp add: records_def)
qed

lemma process_reversal:
  assumes s: "serving X dr cid d None tx" and p: "in_process None tx tx"
    and k: "tx_kind tx = KindRefund \<or> tx_kind tx = KindRollback"
  shows "records (process_tx X dr tx cid) NoTx d (bank_record (dr_mark_now dr) (bank_of d) tx (decide (bank_of d) tx))"
proof -
  note S = servingD [OF s]
  obtain e where e: "tx_referenceExternalTransactionID tx = Some e" using kind_ok_pos(3) [OF S(4) k] ..
  let ?row = "List.find (\<lambda>r. wr_provider_id r = Some (tx_providerID tx) \<and> wr_external_transaction_id r = Some e) (db_wagers d)"
  have bw: "bk_wager (bank_of d) (tx_providerID tx, e) = map_option tx_of ?row"
    by (simp add: bank_of_def keyed_pair)
  have dec: "decide (bank_of d) tx = decide_reversal (bank_of d) tx (map_option tx_of ?row)"
    using k e bw by (auto simp: decide_def Let_def)
  show ?thesis
  proof (cases ?row)
    case None
    with k e have "process_tx X dr tx cid (calm NoTx d) = parkPendingReference X dr tx cid (calm NoTx d)"
      by (auto simp: process_tx_def calm_onResult calm_find_wager processReferenced_def)
    with park_records [OF s p] None dec show ?thesis
      by (simp add: records_def decide_reversal_def bank_record_if_account)
  next
    case (Some r)
    let ?ref = "tx_of r"
    from Some have r: "r \<in> set (db_wagers d)" by (auto dest!: find_Some_iff_first)
    have run: "process_tx X dr tx cid (calm NoTx d) = processReferenced X dr tx cid (Inr ?ref) (calm NoTx d)"
      using k e Some servableD(4) [OF S(1) r]
      by (auto simp: process_tx_def calm_onResult calm_find_wager scanWagerTransaction_eq)
    show ?thesis
    proof (cases "reference_ok tx ?ref")
      case False
      then have "\<exists>err. ValidateReference tx ?ref = Inl err"
        using ValidateReference_eq [of tx ?ref] by (cases "ValidateReference tx ?ref") auto
      with run have "process_tx X dr tx cid (calm NoTx d) = reject X dr tx FailureCodeInvalidReference cid (calm NoTx d)"
        by (auto simp: processReferenced_def)
      with reject_records [OF s p] Some dec False show ?thesis
        by (simp add: records_def decide_reversal_def bank_record_if_account)
    next
      case True
      with process_valid_reversal [OF s p k r True run] Some dec show ?thesis by simp
    qed
  qed
qed

lemma process_records:
  assumes s: "serving X dr cid d None tx" and p: "in_process None tx tx"
  shows "records (process_tx X dr tx cid) NoTx d (bank_record (dr_mark_now dr) (bank_of d) tx (decide (bank_of d) tx))"
  using process_first [OF s p] process_reversal [OF s p] kind_ok_pos(2) [OF servingD(4) [OF s]] by blast

section \<open>Submitting\<close>

lemma replay_bank:
  assumes s: "known X (bank_of d)"
  shows "replay X old tx (calm NoTx d) = (bank_replay (x_sha X) (bank_of d) old tx, calm NoTx d)"
proof (cases "PayloadHash (x_sha X) old = PayloadHash (x_sha X) tx")
  case False
  then show ?thesis by (simp add: replay_def bank_replay_def)
next
  case True
  show ?thesis
  proof (cases "List.find (\<lambda>rc. lr_transaction_id (fst rc) = tx_id old) (ledger_join d)")
    case (Some rc)
    then have "rc \<in> set (ledger_join d)" by (auto dest!: find_Some_iff_first)
    then have "\<exists>i w. lookup_by wl_id i (db_wallets d) = Some w \<and> snd rc = wl_currency w"
      by (auto simp: ledger_join_def List.map_filter_def split: option.splits) blast
    then have "scanLedgerEntry X rc = Inr (entry_of (snd rc) (fst rc))"
      using knownD(1) [OF s] scanLedgerEntry_eq [of X "fst rc" "snd rc"] by auto
    with True Some show ?thesis
      by (simp add: replay_def bank_replay_def calm_bindE balanceAtProcessing_def calm_onResult calm_find_entry
          bank_of_def entry_of_def)
  next
    case None
    show ?thesis
    proof (cases "lookup_by wl_id (tx_walletID old) (db_wallets d)")
      case w: (Some w)
      with knownD(1) [OF s w] True None show ?thesis
        by (simp add: replay_def bank_replay_def calm_bindE balanceAtProcessing_def calm_onResult calm_find_entry
            bank_of_def calm_FindByID scanWallet_eq balance_in)
    qed (use True None in \<open>simp add: replay_def bank_replay_def calm_bindE balanceAtProcessing_def calm_onResult
        calm_find_entry bank_of_def calm_FindByID\<close>)
  qed
qed

text \<open>A key that is recorded is answered without a write, whatever else the tables hold.\<close>

lemma Submit_recorded:
  assumes "known X (bank_of d)" and tx: "NewTransaction (dr_tx_id dr) (dr_tx_now dr) (candidate_input input) = Inr tx"
    and old: "bk_wager (bank_of d) (si_ProviderID input, si_ExternalTransactionID input) = Some old"
  shows "Submit X dr input (calm NoTx d) = (bank_replay (x_sha X) (bank_of d) old tx, calm NoTx d)"
proof -
  from old obtain r where r: "List.find (\<lambda>r. wr_provider_id r = Some (si_ProviderID input) \<and>
      wr_external_transaction_id r = Some (si_ExternalTransactionID input)) (db_wagers d) = Some r" "old = tx_of r"
    by (auto simp: bank_of_def keyed_pair)
  with knownD(2) [OF assms(1) r(1)] tx show ?thesis
    by (simp add: Submit_def calm_bindE calm_onResult calm_find_wager scanWagerTransaction_eq replay_bank [OF assms(1)])
qed

lemma decide_movement_error: "decide_movement b c acc a = Fails e \<Longrightarrow> e \<noteq> AppE ErrWagerTransactionAlreadyExists"
  by (cases acc) (auto split: if_splits)

lemma bank_record_error:
  "fst (bank_record now b tx (decide b tx)) = Inl e \<Longrightarrow> e \<noteq> AppE ErrWagerTransactionAlreadyExists"
  using decide_movement_error
  by (auto simp: bank_record_def decide_def decide_reversal_def Let_def no_wallet_key_def if_account_def
      split: verdict.splits option.splits kind.splits if_splits)

lemma Submit_records:
  assumes s: "servable X dr (si_CorrelationID input) d"
    and tx: "NewTransaction (dr_tx_id dr) (dr_tx_now dr) (candidate_input input) = Inr tx"
  shows "records (Submit X dr input) NoTx d (bank_submit (x_sha X) (dr_mark_now dr) (bank_of d) tx)"
proof -
  note T = NewTransaction_Inr(1) [OF tx]
  have key: "tx_providerID tx = si_ProviderID input" "tx_externalTransactionID tx = si_ExternalTransactionID input"
    by (simp_all add: T candidate_input_def)
  let ?row = "List.find (\<lambda>r. wr_provider_id r = Some (si_ProviderID input) \<and>
    wr_external_transaction_id r = Some (si_ExternalTransactionID input)) (db_wagers d)"
  have bw: "bk_wager (bank_of d) (tx_providerID tx, tx_externalTransactionID tx) = map_option tx_of ?row"
    by (simp add: bank_of_def keyed_pair key)
  show ?thesis
  proof (cases ?row)
    case (Some r)
    with Submit_recorded [OF servable_known [OF s] tx, of "tx_of r"] bw key show ?thesis
      by (intro recordsI [where d' = d]) (simp_all add: bank_submit_def)
  next
    case None
    then have c: "candidate dr d tx"
      using NewTransaction_provider_tx [OF tx] bw T by (simp add: candidate_def)
    then have "serving X dr (si_CorrelationID input) d None tx" using s by (simp add: serving_def)
    moreover have "in_process None tx tx" by (auto simp: in_process_def T intro: exI [of _ "tx_updatedAt tx"])
    ultimately have "records (process_tx X dr tx (si_CorrelationID input)) NoTx d
      (bank_record (dr_mark_now dr) (bank_of d) tx (decide (bank_of d) tx))" by (rule process_records)
    then obtain d' where d': "process_tx X dr tx (si_CorrelationID input) (calm NoTx d) =
        (fst (bank_record (dr_mark_now dr) (bank_of d) tx (decide (bank_of d) tx)), calm NoTx d')"
      "bank_of d' = snd (bank_record (dr_mark_now dr) (bank_of d) tx (decide (bank_of d) tx))"
      by (auto simp: records_def)
    have "Submit X dr input (calm NoTx d) =
        (fst (bank_record (dr_mark_now dr) (bank_of d) tx (decide (bank_of d) tx)), calm NoTx d')"
      using None tx d'(1) bank_record_error [of "dr_mark_now dr" "bank_of d" tx]
      by (cases "fst (bank_record (dr_mark_now dr) (bank_of d) tx (decide (bank_of d) tx))")
        (simp_all add: Submit_def calm_bindE calm_onResult calm_find_wager)
    with d'(2) bw None show ?thesis
      by (intro recordsI [where d' = d']) (simp_all add: bank_submit_def)
  qed
qed

end
