(* ===== verification/Banking.thy ===== *)
theory Banking
  imports Bank
begin

text \<open>
  What follows from the refinement of \<open>Bank\<close>: a submission is decided as the bank says, resubmitting
  it changes nothing and gives the first answer again, and a well-formed one is always decided.
\<close>

section \<open>Properties of the bank\<close>

lemma known_recording: "known X b \<Longrightarrow> x_iso X (m_currency (tx_amount tx)) \<Longrightarrow> known X (recording tx b)"
  by (auto simp: known_def recording_def)

lemma known_moving: "known X b \<Longrightarrow> x_iso X c \<Longrightarrow> known X (moving tx c x b)"
  by (auto simp: known_def moving_def)

lemma bank_record_known:
  assumes "known X b" "x_iso X (m_currency (tx_amount tx))"
  shows "known X (snd (bank_record now b tx v))"
  using assms
  by (auto simp: bank_record_def Let_def known_recording known_moving split: verdict.splits option.splits)

lemma bank_submit_known:
  "known X b \<Longrightarrow> x_iso X (m_currency (tx_amount tx)) \<Longrightarrow> known X (snd (bank_submit H now b tx))"
  by (auto simp: bank_submit_def intro: bank_record_known split: option.split)

lemma decided_hash: "PayloadHash H (decided now tx v) = PayloadHash H tx"
  by (rule tx_core_hash) simp

text \<open>Submitting the same content under the same key again, at once.\<close>

lemma bank_submit_again:
  assumes first: "bank_submit H now b tx = (Inr r, b')" and fresh: "bk_after b (tx_id tx) = None"
    and same: "tx_providerID tx' = tx_providerID tx" "tx_externalTransactionID tx' = tx_externalTransactionID tx"
      "hash_input tx' = hash_input tx"
  shows "bk_wager b' (tx_providerID tx, tx_externalTransactionID tx) = Some (sr_Transaction r) \<and>
    bank_replay H b' (sr_Transaction r) tx' = Inr (r\<lparr>sr_IdempotentReplay := True\<rparr>)"
proof -
  have hash: "PayloadHash H tx' = PayloadHash H tx" using same by (simp add: PayloadHash_def)
  show ?thesis
  proof (cases "bk_wager b (tx_providerID tx, tx_externalTransactionID tx)")
    case (Some old)
    with first hash show ?thesis
      by (auto simp: bank_submit_def bank_replay_def split: if_splits option.splits)
  next
    case None
    then have "bank_record now b tx (decide b tx) = (Inr r, b')" using first by (simp add: bank_submit_def)
    moreover obtain rid v where v: "decide b tx = (rid, v)" by fastforce
    ultimately show ?thesis
      using fresh hash
      by (cases v) (auto simp: bank_record_def Let_def bank_replay_def decided_hash fresh_result_def recording_def
          moving_def split: option.splits)
  qed
qed

section \<open>The submission is the bank's\<close>

lemma calm_inj: "calm st d = calm st d' \<longleftrightarrow> d = d'"
  by (simp add: calm_def)

text \<open>Claim C6. \<open>Submit\<close> implements the bank: on tables that can serve it, it answers what the bank answers,
  the error of every refused case included, and leaves tables whose bank is the one the specification
  asks for: the same accounts, recorded transactions, reversals and balances after a movement.\<close>

theorem Submit_refines_bank:
  assumes "servable X dr (si_CorrelationID input) d"
  shows "case Submit X dr input (calm NoTx d) of (r, s) \<Rightarrow>
    s_tx s = NoTx \<and> (r, bank_of (s_db s)) =
      (case NewTransaction (dr_tx_id dr) (dr_tx_now dr) (candidate_input input) of
         Inl e \<Rightarrow> (Inl e, bank_of d)
       | Inr tx \<Rightarrow> bank_submit (x_sha X) (dr_mark_now dr) (bank_of d) tx)"
proof (cases "NewTransaction (dr_tx_id dr) (dr_tx_now dr) (candidate_input input)")
  case (Inl e)
  then show ?thesis by (simp add: Submit_def calm_bindE)
next
  case (Inr tx)
  from Submit_records [OF assms Inr] Inr show ?thesis by (auto simp: records_def)
qed

text \<open>Claim C7. Resubmitting an accepted submission, with any correlation id and whatever the second call
  draws, changes no table and gives the first answer again, the transaction, its outcome and the
  balance observed when it was processed, marked as a replay.\<close>

theorem resubmission_replays:
  assumes "servable X dr (si_CorrelationID input) d" and "x_iso X (m_currency (si_Amount input))"
    and "Submit X dr input (calm NoTx d) = (Inr res, calm NoTx d')"
  shows "Submit X dr' (input\<lparr>si_CorrelationID := cid\<rparr>) (calm NoTx d') =
    (Inr (res\<lparr>sr_IdempotentReplay := True\<rparr>), calm NoTx d')"
proof -
  let ?input = "input\<lparr>si_CorrelationID := cid\<rparr>"
  obtain tx where tx: "NewTransaction (dr_tx_id dr) (dr_tx_now dr) (candidate_input input) = Inr tx"
    using assms(3) by (cases "NewTransaction (dr_tx_id dr) (dr_tx_now dr) (candidate_input input)")
      (auto simp: Submit_def calm_bindE)
  have "\<exists>tx'. NewTransaction (dr_tx_id dr') (dr_tx_now dr') (candidate_input ?input) = Inr tx'"
    using tx NewTransaction_ok_iff [of "dr_tx_id dr" "dr_tx_now dr" "candidate_input input"]
      NewTransaction_ok_iff [of "dr_tx_id dr'" "dr_tx_now dr'" "candidate_input ?input"]
    by (auto simp: candidate_input_def)
  then obtain tx' where tx': "NewTransaction (dr_tx_id dr') (dr_tx_now dr') (candidate_input ?input) = Inr tx'" ..
  note T = NewTransaction_Inr(1) [OF tx] and T' = NewTransaction_Inr(1) [OF tx']
  have key: "tx_providerID tx = si_ProviderID input" "tx_externalTransactionID tx = si_ExternalTransactionID input"
    "m_currency (tx_amount tx) = m_currency (si_Amount input)" "tx_id tx = dr_tx_id dr"
    by (simp_all add: T candidate_input_def)
  have same: "tx_providerID tx' = tx_providerID tx" "tx_externalTransactionID tx' = tx_externalTransactionID tx"
    "hash_input tx' = hash_input tx"
    by (simp_all add: T T' candidate_input_def hash_input_def)
  from Submit_records [OF assms(1) tx] assms(3)
  have b: "bank_submit (x_sha X) (dr_mark_now dr) (bank_of d) tx = (Inr res, bank_of d')"
    by (auto simp: records_def prod_eq_iff calm_inj)
  have "lr_transaction_id (fst rc) \<noteq> tx_id tx" if "rc \<in> set (ledger_join d)" for rc
    using that servableD(8) [OF assms(1)] key(4) by (auto simp: ledger_join_def List.map_filter_def split: option.splits)
  then have "bk_after (bank_of d) (tx_id tx) = None" by (auto simp: bank_of_def find_None_iff)
  from bank_submit_again [OF b this same]
  have again: "bk_wager (bank_of d') (si_ProviderID ?input, si_ExternalTransactionID ?input) = Some (sr_Transaction res)"
    "bank_replay (x_sha X) (bank_of d') (sr_Transaction res) tx' = Inr (res\<lparr>sr_IdempotentReplay := True\<rparr>)"
    by (simp_all add: key)
  have "known X (bank_of d')"
    using bank_submit_known [OF servable_known [OF assms(1)], of tx "x_sha X" "dr_mark_now dr"] b assms(2) key(3) by simp
  from Submit_recorded [OF this tx' again(1)] again(2) show ?thesis by simp
qed

lemma Submit_decided:
  assumes "servable X dr (si_CorrelationID input) d" and "input_ok (candidate_input input)"
    and "bk_wager (bank_of d) (si_ProviderID input, si_ExternalTransactionID input) = None"
    and "bk_account (bank_of d) (si_WalletID input) = Some ac" and "ac_currency ac = m_currency (si_Amount input)"
    and "ac_balance ac + units (si_Amount input) \<le> max_i64"
  shows "\<exists>res d'. Submit X dr input (calm NoTx d) = (Inr res, calm NoTx d') \<and>
    tx_status (sr_Transaction res) \<in> {TxStatusProcessed, TxStatusRejected, TxStatusPendingReference} \<and>
    bk_wager (bank_of d') (si_ProviderID input, si_ExternalTransactionID input) = Some (sr_Transaction res)"
proof -
  obtain tx where tx: "NewTransaction (dr_tx_id dr) (dr_tx_now dr) (candidate_input input) = Inr tx"
    using assms(2) NewTransaction_ok_iff by blast
  have T: "tx_providerID tx = si_ProviderID input" "tx_externalTransactionID tx = si_ExternalTransactionID input"
    "tx_walletID tx = si_WalletID input" "tx_amount tx = si_Amount input" and p: "provider_tx tx"
    using NewTransaction_Inr(1) [OF tx] NewTransaction_provider_tx [OF tx] by (simp_all add: candidate_input_def)
  obtain rid v where v: "decide (bank_of d) tx = (rid, v)" by fastforce
  have mv: "\<exists>x c. decide_movement debit code (Some ac) (si_Amount input) \<in> {Rejects c, Moves x}" for debit code
    using assms(5,6) by auto
  have "\<nexists>e. v = Fails e"
    using v kind_ok_pos(2) [OF p] assms(4,5) mv T
    by (auto simp: decide_def decide_reversal_def Let_def if_account_def split: option.splits if_splits)
      (metis insertE singletonD verdict.distinct(3,7))+
  then have "\<exists>r b'. bank_submit (x_sha X) (dr_mark_now dr) (bank_of d) tx = (Inr (fresh_result (decided (dr_mark_now dr) tx (rid, v)) r), b')
      \<and> bk_wager b' (si_ProviderID input, si_ExternalTransactionID input) = Some (decided (dr_mark_now dr) tx (rid, v))"
    using assms(3,4) v T by (cases v) (auto simp: bank_submit_def bank_record_def Let_def recording_def moving_def)
  with Submit_records [OF assms(1) tx] show ?thesis
    by (cases v) (auto simp: records_def fresh_result_def)
qed

text \<open>Claim C8. A well-formed submission under a new key is always decided when its wallet exists in its
  currency and has room for the amount: it comes back processed, rejected or parked, never with an
  error, and is recorded.\<close>

theorem submission_is_decided:
  assumes "servable X dr (si_CorrelationID input) d" and "input_ok (candidate_input input)"
    and "bk_wager (bank_of d) (si_ProviderID input, si_ExternalTransactionID input) = None"
    and "bk_account (bank_of d) (si_WalletID input) = Some ac" and "ac_currency ac = m_currency (si_Amount input)"
    and "ac_balance ac + units (si_Amount input) \<le> max_i64"
  shows "\<exists>res d'. Submit X dr input (calm NoTx d) = (Inr res, calm NoTx d') \<and>
    tx_status (sr_Transaction res) \<in> {TxStatusProcessed, TxStatusRejected, TxStatusPendingReference} \<and>
    bk_wager (bank_of d') (si_ProviderID input, si_ExternalTransactionID input) = Some (sr_Transaction res)"
  by (rule Submit_decided [OF assms])

section \<open>Witnesses\<close>

lemma servable_bet: "servable sample_external sample_draws ''c'' bet_db"
  using books_bet
  by (simp add: servable_def bet_db_eq sample_draws_def sample_draw_def event_ready_def sample_external_def
      sample_opening_def wager_row_of_def sample_bet_def sample_entry_def wallet_row_of_def sample_wallet_def)

theorem Submit_refines_bank_witness:
  "fst (Submit sample_external sample_draws (sample_input KindBet ''bet-2'' 9000 None) (calm NoTx bet_db)) =
     fst (bank_submit (x_sha sample_external) 9 (bank_of bet_db)
       ((sample_bet TxStatusPending)\<lparr>tx_id := 20, tx_externalTransactionID := ''bet-2'',
          tx_amount := \<lparr>m_currency = ''BRL'', m_amount = 9000\<rparr>, tx_createdAt := 9, tx_updatedAt := 9\<rparr>))"
proof -
  let ?i = "sample_input KindBet ''bet-2'' 9000 None"
  have "NewTransaction (dr_tx_id sample_draws) (dr_tx_now sample_draws) (candidate_input ?i) =
      Inr ((sample_bet TxStatusPending)\<lparr>tx_id := 20, tx_externalTransactionID := ''bet-2'',
          tx_amount := \<lparr>m_currency = ''BRL'', m_amount = 9000\<rparr>, tx_createdAt := 9, tx_updatedAt := 9\<rparr>)"
    by (simp add: NewTransaction_def candidate_input_def sample_input_def sample_draws_def sample_bet_def Money_IsPositive_def)
  moreover have "servable sample_external sample_draws (si_CorrelationID ?i) bet_db"
    using servable_bet by (simp add: sample_input_def)
  note Submit_refines_bank [OF this]
  ultimately show ?thesis by (auto simp: sample_draws_def split: prod.splits) (metis fst_conv)
qed

lemma sample_decided:
  defines "i \<equiv> sample_input KindBet ''bet-2'' 1000 None"
  shows "input_ok (candidate_input i)" "bk_wager (bank_of bet_db) (si_ProviderID i, si_ExternalTransactionID i) = None"
    "bk_account (bank_of bet_db) (si_WalletID i) = Some \<lparr>ac_currency = ''BRL'', ac_balance = 2000\<rparr>"
    "m_currency (si_Amount i) = ''BRL''" "units (si_Amount i) = 1000" "si_CorrelationID i = ''c''"
  by (simp_all add: i_def input_ok_def candidate_input_def sample_input_def kind_ok_def bank_of_def bet_db_eq keyed_def
      sample_opening_def wager_row_of_def sample_bet_def nullableString_def sample_wallet_def wallet_row_of_def account_of_def)

theorem submission_is_decided_witness:
  "\<exists>res d'. Submit sample_external sample_draws (sample_input KindBet ''bet-2'' 1000 None) (calm NoTx bet_db) = (Inr res, calm NoTx d')"
  using submission_is_decided [of sample_external sample_draws "sample_input KindBet ''bet-2'' 1000 None" bet_db
      "\<lparr>ac_currency = ''BRL'', ac_balance = 2000\<rparr>"] servable_bet sample_decided
  by auto

theorem resubmission_replays_witness:
  "\<exists>res d'. Submit sample_external sample_draws (sample_input KindBet ''bet-2'' 1000 None) (calm NoTx bet_db) = (Inr res, calm NoTx d') \<and>
     Submit sample_external sample_draws ((sample_input KindBet ''bet-2'' 1000 None)\<lparr>si_CorrelationID := ''again''\<rparr>)
       (calm NoTx d') = (Inr (res\<lparr>sr_IdempotentReplay := True\<rparr>), calm NoTx d')"
proof -
  let ?i = "sample_input KindBet ''bet-2'' 1000 None"
  obtain res d' where first: "Submit sample_external sample_draws ?i (calm NoTx bet_db) = (Inr res, calm NoTx d')"
    using Submit_decided [of sample_external sample_draws ?i bet_db "\<lparr>ac_currency = ''BRL'', ac_balance = 2000\<rparr>"]
      servable_bet sample_decided by auto
  have "servable sample_external sample_draws (si_CorrelationID ?i) bet_db" using servable_bet sample_decided(6) by simp
  moreover have "x_iso sample_external (m_currency (si_Amount ?i))" using sample_decided(4) by (simp add: sample_external_def)
  ultimately show ?thesis using resubmission_replays [OF _ _ first] first by blast
qed

end
