(* ===== verification/Interleaving.thy ===== *)
theory Interleaving
  imports Consumer
begin

text \<open>
  The use cases as threads of database round trips. A thread is either finished or about to do its
  next round trip, which is one statement outside a transaction or one whole transaction; between
  two round trips of a thread any other thread may run. Each \<open>..._steps\<close> is the use case of the
  same name cut at its round trips, and \<open>run_..._steps\<close> shows that it is the same program when
  nothing comes between.

  That a transaction is one round trip is what the row locks give: the first statement of a movement
  locks the wallet of the transaction and of its reference, and every other transaction writes one
  row whose key the unique constraints protect.
\<close>

section \<open>Threads\<close>

datatype 'a thread =
    Finished 'a
  | Next "sess \<Rightarrow> 'a thread \<times> sess"

primrec run :: "'a thread \<Rightarrow> sess \<Rightarrow> 'a \<times> sess" where
  "run (Finished x) = (\<lambda>s. (x, s))"
| "run (Next f) = (\<lambda>s. case map_prod run id (f s) of (rest, s') \<Rightarrow> rest s')"

primrec andThen :: "'a thread \<Rightarrow> ('a \<Rightarrow> 'b thread) \<Rightarrow> 'b thread" where
  "andThen (Finished x) k = k x"
| "andThen (Next f) k = Next (\<lambda>s. map_prod (\<lambda>t. andThen t k) id (f s))"

type_synonym 'a steps = "(error + 'a) thread"

definition atomically :: "(sess, error, 'a) prog \<Rightarrow> 'a steps" where
  "atomically m = Next (\<lambda>s. map_prod Finished id (m s))"

definition bindS :: "'a steps \<Rightarrow> ('a \<Rightarrow> 'b steps) \<Rightarrow> 'b steps" where
  "bindS m k = andThen m (\<lambda>r. case r of Inl e \<Rightarrow> Finished (Inl e) | Inr x \<Rightarrow> k x)"

abbreviation liftS :: "error + 'a \<Rightarrow> 'a steps" where "liftS \<equiv> Finished"
abbreviation retS :: "'a \<Rightarrow> 'a steps" where "retS x \<equiv> Finished (Inr x)"
abbreviation failS :: "error \<Rightarrow> 'a steps" where "failS e \<equiv> Finished (Inl e)"

named_theorems run_rules "what a thread does when nothing comes between its steps"

lemma run_andThen: "run (andThen m k) s = (case run m s of (x, s') \<Rightarrow> run (k x) s')"
proof (induction m arbitrary: s)
  case (Next f)
  obtain t s' where f: "f s = (t, s')" by fastforce
  have "run (andThen t k) s' = (case run t s' of (x, s'') \<Rightarrow> run (k x) s'')"
    by (rule Next.IH [of "f s"]) (simp_all only: rangeI, simp add: f fsts.intros)
  then show ?case by (simp add: f)
qed simp

lemma run_onResult [run_rules]: "run (andThen m k) = onResult (run m) (\<lambda>r. run (k r))"
  by (simp add: run_andThen onResult_def fun_eq_iff)

lemma run_bindS [run_rules]: "run (bindS m k) = bindE (run m) (\<lambda>x. run (k x))"
  by (auto simp: bindS_def run_andThen bindE_def fun_eq_iff split: prod.split sum.split)

lemma run_atomically [run_rules]: "run (atomically m) = m"
  by (simp add: atomically_def fun_eq_iff map_prod_def split: prod.split)

lemma run_liftS [run_rules]: "run (liftS r) = liftE r"
  by (simp add: liftE_def)

lemma run_cases [run_rules]:
  "run (if b then m else n) = (if b then run m else run n)"
  "run (case r of Inl e \<Rightarrow> f e | Inr x \<Rightarrow> g x) = (case r of Inl e \<Rightarrow> run (f e) | Inr x \<Rightarrow> run (g x))"
  "run (case v of None \<Rightarrow> h | Some y \<Rightarrow> j y) = (case v of None \<Rightarrow> run h | Some y \<Rightarrow> run (j y))"
  by (simp_all split: sum.split option.split)

lemma ret_lift: "ret x = liftE (Inr x)" "fail e = liftE (Inl e)"
  by (simp_all add: ret_def fail_def liftE_def)

section \<open>Submitting\<close>

definition balanceAtProcessing_steps :: "external \<Rightarrow> transaction \<Rightarrow> money steps" where
  "balanceAtProcessing_steps X tx =
     andThen (atomically (FindLedgerEntryByTransactionID X (tx_id tx))) (\<lambda>r.
     case r of
       Inl e \<Rightarrow>
         if e \<noteq> AppE ErrLedgerEntryNotFound then failS e
         else bindS (atomically (Wallet_FindByID X (tx_walletID tx))) (\<lambda>w. retS (w_balance w))
     | Inr entry \<Rightarrow> retS (le_balanceAfter entry))"

definition replay_steps :: "external \<Rightarrow> transaction \<Rightarrow> transaction \<Rightarrow> submit_result steps" where
  "replay_steps X existing candidate =
     (if PayloadHash (x_sha X) existing \<noteq> PayloadHash (x_sha X) candidate
      then failS (AppE ErrIdempotencyConflict)
      else bindS (balanceAtProcessing_steps X existing) (\<lambda>balance.
        retS \<lparr>sr_Transaction = existing, sr_Balance = balance, sr_IdempotentReplay = True\<rparr>))"

definition saveWithEvent_steps :: "external \<Rightarrow> transaction \<Rightarrow> outbox_entry \<Rightarrow> submit_result steps" where
  "saveWithEvent_steps X tx event =
     bindS (atomically (WithinTx (bindE (Wager_Save X tx) (\<lambda>_. SaveAll [event])))) (\<lambda>_.
     bindS (atomically (Wallet_FindByID X (tx_walletID tx))) (\<lambda>w.
     retS \<lparr>sr_Transaction = tx, sr_Balance = w_balance w, sr_IdempotentReplay = False\<rparr>))"

definition parkPendingReference_steps :: "external \<Rightarrow> draws \<Rightarrow> transaction \<Rightarrow> string \<Rightarrow> submit_result steps" where
  "parkPendingReference_steps X dr tx correlationID =
     (let alreadyParked = (tx_status tx = TxStatusPendingReference) in
      bindS (liftS (MarkPendingReference (dr_mark_now dr) tx)) (\<lambda>tx.
      if alreadyParked
      then bindS (atomically (Wallet_FindByID X (tx_walletID tx))) (\<lambda>w.
        retS \<lparr>sr_Transaction = tx, sr_Balance = w_balance w, sr_IdempotentReplay = False\<rparr>)
      else bindS (liftS (newWagerTransactionPendingReferenceEvent X (dr_event dr) tx correlationID)) (\<lambda>event.
        saveWithEvent_steps X tx event)))"

definition reject_steps :: "external \<Rightarrow> draws \<Rightarrow> transaction \<Rightarrow> failure_code \<Rightarrow> string \<Rightarrow> submit_result steps" where
  "reject_steps X dr tx code correlationID =
     bindS (liftS (MarkRejected code (dr_mark_now dr) tx)) (\<lambda>tx.
     bindS (liftS (newWagerTransactionRejectedEvent X (dr_event dr) tx correlationID)) (\<lambda>event.
     saveWithEvent_steps X tx event))"

definition finishWithoutMovement_steps :: "external \<Rightarrow> draws \<Rightarrow> transaction \<Rightarrow> string \<Rightarrow> submit_result steps" where
  "finishWithoutMovement_steps X dr tx correlationID =
     bindS (atomically (Wallet_FindByID X (tx_walletID tx))) (\<lambda>w.
     if m_currency (tx_amount tx) \<noteq> m_currency (w_balance w) then failS (MoneyE ErrCurrencyMismatch)
     else bindS (liftS (MarkProcessed (dr_mark_now dr) tx)) (\<lambda>tx.
     bindS (liftS (newWagerTransactionProcessedEvent X (dr_event dr) tx correlationID)) (\<lambda>event.
     saveWithEvent_steps X tx event)))"

definition processMovement_steps ::
  "external \<Rightarrow> draws \<Rightarrow> transaction \<Rightarrow> transaction option \<Rightarrow> string \<Rightarrow> submit_result steps" where
  "processMovement_steps X dr tx referenced correlationID =
     (if tx_kind tx = KindLoss then finishWithoutMovement_steps X dr tx correlationID
      else bindS (liftS (movementDirection (tx_kind tx) referenced)) (\<lambda>dir.
        atomically (WithinTx (processInTx X dr tx referenced dir correlationID))))"

definition processReferenced_steps ::
  "external \<Rightarrow> draws \<Rightarrow> transaction \<Rightarrow> string \<Rightarrow> error + transaction \<Rightarrow> submit_result steps" where
  "processReferenced_steps X dr tx correlationID r =
     (case r of
        Inl e \<Rightarrow>
          if e \<noteq> AppE ErrWagerTransactionNotFound then failS e
          else parkPendingReference_steps X dr tx correlationID
      | Inr referenced \<Rightarrow>
          (case ValidateReference tx referenced of
             Inl _ \<Rightarrow> reject_steps X dr tx FailureCodeInvalidReference correlationID
           | Inr _ \<Rightarrow>
               bindS (liftS (ResolveReference (dr_resolve_now dr) (tx_id referenced) tx)) (\<lambda>tx.
               processMovement_steps X dr tx (Some referenced) correlationID)))"

definition process_tx_steps :: "external \<Rightarrow> draws \<Rightarrow> transaction \<Rightarrow> string \<Rightarrow> submit_result steps" where
  "process_tx_steps X dr tx correlationID =
     (if tx_kind tx = KindRefund \<or> tx_kind tx = KindRollback
      then (case tx_referenceExternalTransactionID tx of
          None \<Rightarrow> failS (ExternalE ''nil pointer dereference'')
        | Some refExtID \<Rightarrow>
            andThen (atomically (FindByProviderAndExternalID X (tx_providerID tx) refExtID))
              (processReferenced_steps X dr tx correlationID))
      else processMovement_steps X dr tx None correlationID)"

definition Submit_steps :: "external \<Rightarrow> draws \<Rightarrow> submit_input \<Rightarrow> submit_result steps" where
  "Submit_steps X dr input =
     bindS (liftS (NewTransaction (dr_tx_id dr) (dr_tx_now dr) (candidate_input input))) (\<lambda>candidate.
     andThen (atomically (FindByProviderAndExternalID X (si_ProviderID input) (si_ExternalTransactionID input))) (\<lambda>r.
     case r of
       Inl e \<Rightarrow>
         if e \<noteq> AppE ErrWagerTransactionNotFound then failS e
         else andThen (process_tx_steps X dr candidate (si_CorrelationID input)) (\<lambda>r.
           case r of
             Inl e \<Rightarrow>
               if e = AppE ErrWagerTransactionAlreadyExists
               then andThen (atomically (FindByProviderAndExternalID X (si_ProviderID input)
                   (si_ExternalTransactionID input))) (\<lambda>r.
                 case r of
                   Inl ferr \<Rightarrow> failS ferr
                 | Inr winner \<Rightarrow> replay_steps X winner candidate)
               else failS e
           | Inr result \<Rightarrow> retS result)
     | Inr existing \<Rightarrow> replay_steps X existing candidate))"

section \<open>Resolving, opening wallets, deliveries and publishing\<close>

definition resolveOne_steps ::
  "external \<Rightarrow> resolver \<Rightarrow> resolve_draws \<Rightarrow> time \<Rightarrow> transaction \<times> i64 \<Rightarrow> resolution steps" where
  "resolveOne_steps X rs rd now item =
     (let tx = fst item; attempts = snd item; correlationID = rd_correlationID rd in
      if is_expired rs now tx attempts
      then bindS (reject_steps X (rd_draws rd) tx FailureCodeReferenceNotFound correlationID) (\<lambda>_. retS Expired)
      else bindS (process_tx_steps X (rd_draws rd) tx correlationID) (\<lambda>res.
        if tx_status (sr_Transaction res) \<noteq> TxStatusPendingReference then retS Resolved
        else bindS (atomically (ScheduleNextPendingReferenceRetry (tx_id tx)
            (now + sint (backoffDelay (rs_backoffBase rs) attempts)))) (\<lambda>_. retS StillPending)))"

fun resolve_items_steps ::
  "external \<Rightarrow> resolver \<Rightarrow> (nat \<Rightarrow> resolve_draws) \<Rightarrow> nat \<Rightarrow> time \<Rightarrow> (transaction \<times> i64) list \<Rightarrow> unit steps" where
  "resolve_items_steps X rs rds n now [] = retS ()"
| "resolve_items_steps X rs rds n now (item # due) =
     bindS (resolveOne_steps X rs (rds n) now item) (\<lambda>_. resolve_items_steps X rs rds (Suc n) now due)"

definition ResolveDue_steps ::
  "external \<Rightarrow> resolver \<Rightarrow> (nat \<Rightarrow> resolve_draws) \<Rightarrow> time \<Rightarrow> i64 \<Rightarrow> nat steps" where
  "ResolveDue_steps X rs rds now limit =
     bindS (atomically (FindDuePendingReferences X now limit)) (\<lambda>due.
     bindS (resolve_items_steps X rs rds 0 now due) (\<lambda>_.
     retS (length due)))"

definition openWallet_steps :: "external \<Rightarrow> create_draws \<Rightarrow> create_wallet_input \<Rightarrow> wallet \<Rightarrow> wallet steps" where
  "openWallet_steps X cd input w =
     bindS (liftS (NewOpeningTransaction (cd_tx_id cd) (cd_tx_now cd)
       \<lparr>no_PlayerID = cw_PlayerID input, no_WalletID = w_id w, no_Amount = cw_InitialBalance input\<rparr>)) (\<lambda>tx.
     let zero = Currency_Zero (m_currency (cw_InitialBalance input)) in
     bindS (liftS (NewLedgerEntry (cd_entry_id cd) (cd_entry_now cd)
       \<lparr>nle_WalletID = w_id w, nle_TransactionID = tx_id tx, nle_Direction = DirectionCredit,
        nle_Amount = cw_InitialBalance input, nle_BalanceBefore = zero,
        nle_BalanceAfter = cw_InitialBalance input\<rparr>)) (\<lambda>entry.
     bindS (liftS (newWagerTransactionProcessedEvent X (cd_event cd) tx (cw_CorrelationID input))) (\<lambda>processedEvent.
     bindS (liftS (newWalletBalanceChangedEvent X (cd_event2 cd) w entry (cw_CorrelationID input)
       (Some (x_uuid X (oe_id processedEvent))))) (\<lambda>balanceChangedEvent.
     bindS (atomically (WithinTx (
       bindE (Wallet_Save w) (\<lambda>_.
       bindE (Wager_Save X tx) (\<lambda>_.
       bindE (SaveLedgerEntry entry) (\<lambda>_.
       SaveAll [processedEvent, balanceChangedEvent])))))) (\<lambda>_.
     retS w)))))"

definition Create_steps :: "external \<Rightarrow> create_draws \<Rightarrow> create_wallet_input \<Rightarrow> wallet steps" where
  "Create_steps X cd input =
     andThen (atomically (FindByPlayerAndCurrency X (cw_PlayerID input) (m_currency (cw_InitialBalance input)))) (\<lambda>r.
     case r of
       Inl e \<Rightarrow>
         if e \<noteq> AppE ErrWalletNotFound then failS e
         else bindS (liftS (Wallet_New (cd_wallet_id cd) (cd_wallet_now cd) (cw_PlayerID input)
             (cw_InitialBalance input))) (\<lambda>w.
           if Money_IsZero (cw_InitialBalance input)
           then bindS (atomically (Wallet_Save w)) (\<lambda>_. retS w)
           else openWallet_steps X cd input w)
     | Inr existing \<Rightarrow> failS (AppE ErrWalletAlreadyExists))"

text \<open>The consumer is wired with the transaction manager; without it its body is not one transaction.\<close>

definition handle_db_steps ::
  "external \<Rightarrow> consumer \<Rightarrow> handle_draws \<Rightarrow> string \<Rightarrow> hash \<Rightarrow> wagerTransactionMessage \<Rightarrow> submit_result option steps" where
  "handle_db_steps X c dw messageID hash req =
     andThen (atomically (FindByConsumerAndMessage (cs_consumerName c) messageID)) (\<lambda>r.
     case r of
       Inl e \<Rightarrow>
         if e \<noteq> AppE ErrInboxEntryNotFound then failS e
         else bindS (atomically (withinTx c (handle_body X c dw None messageID hash req))) (\<lambda>res. retS (Some res))
     | Inr entry \<Rightarrow>
         if in_payloadHash entry \<noteq> hash then failS (ConsumerE ContentChanged)
         else if IsCompleted entry then retS None
         else bindS (atomically (withinTx c (handle_body X c dw (Some entry) messageID hash req))) (\<lambda>res. retS (Some res)))"

section \<open>The threads are the use cases\<close>

lemma run_balanceAtProcessing_steps [run_rules]: "run (balanceAtProcessing_steps X tx) = balanceAtProcessing X tx"
  unfolding balanceAtProcessing_steps_def balanceAtProcessing_def run_rules ret_lift ..

lemma run_replay_steps [run_rules]: "run (replay_steps X a b) = replay X a b"
  unfolding replay_steps_def replay_def run_rules ret_lift ..

lemma run_saveWithEvent_steps [run_rules]: "run (saveWithEvent_steps X tx ev) = saveWithEvent X tx ev"
  unfolding saveWithEvent_steps_def saveWithEvent_def run_rules ret_lift ..

lemma run_outcome_steps [run_rules]:
  "run (parkPendingReference_steps X dr tx cid) = parkPendingReference X dr tx cid"
  "run (reject_steps X dr tx code cid) = reject X dr tx code cid"
  "run (finishWithoutMovement_steps X dr tx cid) = finishWithoutMovement X dr tx cid"
  unfolding parkPendingReference_steps_def parkPendingReference_def reject_steps_def reject_def
    finishWithoutMovement_steps_def finishWithoutMovement_def Let_def run_rules ret_lift by (rule refl)+

lemma run_process_steps [run_rules]:
  "run (processMovement_steps X dr tx referenced cid) = processMovement X dr tx referenced cid"
  "run (processReferenced_steps X dr tx cid r) = processReferenced X dr tx cid r"
  "run (process_tx_steps X dr tx cid) = process_tx X dr tx cid"
proof -
  show pm: "run (processMovement_steps X dr tx referenced cid) = processMovement X dr tx referenced cid" for tx referenced
    unfolding processMovement_steps_def processMovement_def run_rules ..
  show pr: "run (processReferenced_steps X dr tx cid r) = processReferenced X dr tx cid r" for r
    unfolding processReferenced_steps_def processReferenced_def run_rules pm ret_lift ..
  show "run (process_tx_steps X dr tx cid) = process_tx X dr tx cid"
    unfolding process_tx_steps_def process_tx_def run_rules pm pr ret_lift ..
qed

lemma run_resolve_items_steps [run_rules]:
  "run (resolve_items_steps X rs rds n now due) = resolve_items X rs rds n now due"
proof (induction due arbitrary: n)
  case Nil
  show ?case unfolding resolve_items_steps.simps resolve_items.simps run_rules ret_lift ..
next
  case (Cons item due)
  have "run (resolveOne_steps X rs rd now item) = resolveOne X rs rd now item" for rd
    unfolding resolveOne_steps_def resolveOne_def Let_def run_rules ret_lift ..
  then show ?case unfolding resolve_items_steps.simps resolve_items.simps run_rules Cons.IH by simp
qed


end
