(* ===== verification/Effects.thy ===== *)
theory Effects
  imports Resolving Consumer
begin

text \<open>
  What a submission does to the tables, in one formula. \<open>settlement X dr tx d d'\<close>: the transaction \<open>tx\<close>
  has been written in an outcome together with the event that tells it, and with a movement the ledger
  entry, the wallet and the event that tells the new balance. \<open>settles\<close> says that every run of a program
  leaves the tables alone or does exactly one settlement, nothing in between.

  \<open>announced\<close> is what the outbox is for: every stored transaction has the event of its outcome in the
  outbox, and every ledger entry the event of its balance, with their content.
\<close>

section \<open>Events that tell an outcome\<close>

definition tells :: "external \<Rightarrow> transaction \<Rightarrow> outbox_entry \<Rightarrow> bool" where
  "tells X tx ev \<longleftrightarrow> oe_aggregateType ev = ''WagerTransaction'' \<and> oe_aggregateID ev = tx_id tx \<and>
     (case tx_status tx of
        TxStatusProcessed \<Rightarrow> oe_eventType ev = ''WagerTransactionProcessed'' \<and>
          oe_payload ev = x_json X (WagerTransactionProcessedData (tx_id tx) (tx_kind tx) (tx_amount tx))
      | TxStatusRejected \<Rightarrow> oe_eventType ev = ''WagerTransactionRejected'' \<and>
          oe_payload ev = x_json X (WagerTransactionRejectedData (tx_id tx) (tx_kind tx) (tx_failureCode tx))
      | TxStatusPendingReference \<Rightarrow> oe_eventType ev = ''WagerTransactionPendingReference'' \<and>
          oe_payload ev = x_json X (WagerTransactionPendingReferenceData (tx_id tx)
            (stringOrEmpty (tx_referenceExternalTransactionID tx)))
      | _ \<Rightarrow> False)"

definition tells_balance :: "external \<Rightarrow> ledger_row \<Rightarrow> outbox_entry \<Rightarrow> bool" where
  "tells_balance X l ev \<longleftrightarrow> oe_aggregateType ev = ''Wallet'' \<and> oe_aggregateID ev = lr_wallet_id l \<and>
     oe_eventType ev = ''WalletBalanceChanged'' \<and>
     (\<exists>entry version. ledger_row_of entry = l \<and>
        oe_payload ev = x_json X (WalletBalanceChangedData (le_walletID entry) (le_transactionID entry)
          (le_direction entry) (le_amount entry) (le_balanceBefore entry) (le_balanceAfter entry) version))"

lemma built_tells:
  "newWagerTransactionProcessedEvent X d tx cid = Inr ev \<Longrightarrow> tx_status tx = TxStatusProcessed \<Longrightarrow> tells X tx ev"
  "newWagerTransactionRejectedEvent X d tx cid = Inr ev \<Longrightarrow> tx_status tx = TxStatusRejected \<Longrightarrow> tells X tx ev"
  "newWagerTransactionPendingReferenceEvent X d tx cid = Inr ev \<Longrightarrow> tx_status tx = TxStatusPendingReference \<Longrightarrow>
     tells X tx ev"
  by (auto simp: event_defs tells_def stringOrEmpty_def Let_def dest!: NewEntry_Inr)

lemma built_id:
  "newWagerTransactionProcessedEvent X d tx cid = Inr ev \<Longrightarrow> oe_id ev = ed_id d"
  "newWagerTransactionRejectedEvent X d tx cid = Inr ev \<Longrightarrow> oe_id ev = ed_id d"
  "newWagerTransactionPendingReferenceEvent X d tx cid = Inr ev \<Longrightarrow> oe_id ev = ed_id d"
  "newWalletBalanceChangedEvent X d w entry cid cause = Inr ev \<Longrightarrow> oe_id ev = ed_id d"
  by (auto simp: event_defs Let_def dest!: NewEntry_Inr)

lemma built_tells_balance:
  "newWalletBalanceChangedEvent X d w entry cid cause = Inr ev \<Longrightarrow> le_walletID entry = w_id w \<Longrightarrow>
     tells_balance X (ledger_row_of entry) ev"
  by (auto simp: event_defs tells_balance_def ledger_row_of_def dest!: NewEntry_Inr) metis

lemma tells_stored:
  assumes "tx_core (tx_of q) = tx_core tx" and "wr_status q = tx_status tx" and "stringOrEmpty (wr_failure_code q) = tx_failureCode tx"
  shows "tells X (tx_of q) ev = tells X tx ev"
proof -
  have "tx_status (tx_of q) = tx_status tx" "tx_failureCode (tx_of q) = tx_failureCode tx"
    using assms(2,3) by (simp_all add: tx_of_def)
  then show ?thesis using tx_core_eqD [OF assms(1)] by (simp add: tells_def split: tx_status.split)
qed

section \<open>The outbox is complete\<close>

definition announced :: "external \<Rightarrow> db \<Rightarrow> bool" where
  "announced X d \<longleftrightarrow>
     (\<forall>q\<in>set (db_wagers d). \<exists>ev\<in>set (db_outbox d). tells X (tx_of q) ev) \<and>
     (\<forall>l\<in>set (db_ledger d). \<exists>ev\<in>set (db_outbox d). tells_balance X l ev)"

definition event_absent :: "uuid \<Rightarrow> db \<Rightarrow> bool" where
  "event_absent i d \<longleftrightarrow> lookup_by oe_id i (db_outbox d) = None"

lemma event_absent_put [simp]:
  "event_absent i (put_wager q d) = event_absent i d" "event_absent i (put_wallet w d) = event_absent i d"
  "event_absent i (add_ledger l d) = event_absent i d" "event_absent i (put_inbox x d) = event_absent i d"
  "event_absent i (put_event e d) \<longleftrightarrow> i \<noteq> oe_id e \<and> event_absent i d"
  by (simp_all add: event_absent_def outbox.lookup_upsert)

lemma put_new_events:
  "event_absent (oe_id e) d \<Longrightarrow> db_outbox (put_event e d) = db_outbox d @ [e]"
  by (simp add: event_absent_def upsert_def)

lemma announced_cong:
  "db_wagers d' = db_wagers d \<Longrightarrow> db_ledger d' = db_ledger d \<Longrightarrow> db_outbox d' = db_outbox d \<Longrightarrow> announced X d' = announced X d"
  by (simp add: announced_def)

lemma announced_written:
  assumes "announced X d" and "distinct (map wr_id (db_wagers d))" and "writable d (wager_row_of X tx)"
    and "tells X tx ev" and "set (db_outbox d) \<union> {ev} \<subseteq> set es"
  shows "\<forall>q\<in>set (db_wagers (put_wager (wager_row_of X tx) d)). \<exists>ev\<in>set es. tells X (tx_of q) ev"
proof -
  let ?q = "written d (wager_row_of X tx)"
  have "wr_failure_code ?q = wr_failure_code (wager_row_of X tx)"
    by (simp add: written_def wager_merge_def split: option.split)
  then have "stringOrEmpty (wr_failure_code ?q) = tx_failureCode tx"
    by (simp add: wager_row_of_def stringOrEmpty_def)
  moreover have "tx_core (tx_of ?q) = tx_core tx"
    using written_core [OF assms(3)] by (simp add: tx_core_def tx_of_def wager_row_of_def)
  moreover have "wr_status ?q = tx_status tx" using written_simps(2) [OF assms(3)] by (simp add: wager_row_of_def)
  ultimately have "tells X (tx_of ?q) ev" using tells_stored assms(4) by blast
  with assms(1,5) show ?thesis unfolding put_wager_set [OF assms(2)] by (auto simp: announced_def; blast)
qed

section \<open>One settlement\<close>

definition saved :: "external \<Rightarrow> draws \<Rightarrow> transaction \<Rightarrow> db \<Rightarrow> db \<Rightarrow> bool" where
  "saved X dr tx d d' \<longleftrightarrow> (\<exists>tx' ev. tx_core tx' = tx_core tx \<and> tells X tx' ev \<and> oe_id ev = ed_id (dr_event dr) \<and>
     d' = put_event ev (put_wager (wager_row_of X tx') d))"

definition moved_money :: "external \<Rightarrow> draws \<Rightarrow> transaction \<Rightarrow> db \<Rightarrow> db \<Rightarrow> bool" where
  "moved_money X dr tx d d' \<longleftrightarrow> (\<exists>tx' ev ev' w l. tx_core tx' = tx_core tx \<and> tells X tx' ev \<and> tells_balance X l ev' \<and>
     oe_id ev = ed_id (dr_event dr) \<and> oe_id ev' = ed_id (dr_event2 dr) \<and>
     lookup_by wl_id (wl_id w) (db_wallets d) \<noteq> None \<and>
     d' = put_event ev' (put_event ev (booked (wager_row_of X tx') w l d)))"

definition settlement :: "external \<Rightarrow> draws \<Rightarrow> transaction \<Rightarrow> db \<Rightarrow> db \<Rightarrow> bool" where
  "settlement X dr tx d d' \<longleftrightarrow> saved X dr tx d d' \<or> moved_money X dr tx d d'"

definition fresh_events :: "draws \<Rightarrow> db \<Rightarrow> bool" where
  "fresh_events dr d \<longleftrightarrow> event_absent (ed_id (dr_event dr)) d \<and> event_absent (ed_id (dr_event2 dr)) d \<and>
     ed_id (dr_event dr) \<noteq> ed_id (dr_event2 dr)"

definition no_new_wallet :: "db \<Rightarrow> db \<Rightarrow> bool" where
  "no_new_wallet d d' \<longleftrightarrow>
     (\<forall>w. lookup_by wl_id w (db_wallets d) = None \<longrightarrow> lookup_by wl_id w (db_wallets d') = None)"

definition events_from :: "draws \<Rightarrow> db \<Rightarrow> db \<Rightarrow> bool" where
  "events_from dr d d' \<longleftrightarrow>
     (\<forall>i. i \<noteq> ed_id (dr_event dr) \<longrightarrow> i \<noteq> ed_id (dr_event2 dr) \<longrightarrow> event_absent i d \<longrightarrow> event_absent i d')"

lemma booked_fields [simp]:
  "db_wallets (booked q w l d) = upsert wl_id wallet_merge w (db_wallets d)"
  "db_wagers (booked q w l d) = upsert wr_id wager_merge q (db_wagers d)"
  "db_ledger (booked q w l d) = db_ledger d @ [l]" "db_outbox (booked q w l d) = db_outbox d"
  "event_absent i (booked q w l d) = event_absent i d"
  by (simp_all add: booked_def)

lemma settlement_core:
  assumes "settlement X dr tx d d'" and "tx_core tx = tx_core tx0"
  shows "settlement X dr tx0 d d'"
  using assms by (simp add: settlement_def saved_def moved_money_def)

lemma settlement_frame:
  assumes "settlement X dr tx d d'"
  shows "others_kept (tx_id tx) d d'" and "no_new_wallet d d'" and "events_from dr d d'"
proof -
  from assms consider
      tx' ev where "tx_core tx' = tx_core tx" "oe_id ev = ed_id (dr_event dr)"
        "d' = put_event ev (put_wager (wager_row_of X tx') d)"
    | tx' ev ev' w l where "tx_core tx' = tx_core tx" "oe_id ev = ed_id (dr_event dr)" "oe_id ev' = ed_id (dr_event2 dr)"
        "lookup_by wl_id (wl_id w) (db_wallets d) \<noteq> None"
        "d' = put_event ev' (put_event ev (booked (wager_row_of X tx') w l d))"
    unfolding settlement_def saved_def moved_money_def by blast
  then have "others_kept (tx_id tx) d d' \<and> no_new_wallet d d' \<and> events_from dr d d'"
  proof cases
    case (1 tx' ev)
    from tx_core_eqD(1) [OF 1(1)] 1(2,3) show ?thesis
      by (simp add: others_kept_def no_new_wallet_def events_from_def wagers.lookup_upsert wager_row_of_def)
  next
    case (2 tx' ev ev' w l)
    from tx_core_eqD(1) [OF 2(1)] 2(2-5) show ?thesis
      by (auto simp: others_kept_def no_new_wallet_def events_from_def wagers.lookup_upsert wallets.lookup_upsert
          wager_row_of_def)
  qed
  then show "others_kept (tx_id tx) d d'" and "no_new_wallet d d'" and "events_from dr d d'" by simp_all
qed

lemma settlement_announced:
  assumes s: "settlement X dr tx d d'" and a: "announced X d" and k: "distinct (map wr_id (db_wagers d))"
    and w: "writable d (wager_row_of X tx)" and f: "fresh_events dr d"
  shows "announced X d'"
proof -
  have wr: "writable d (wager_row_of X tx')" if "tx_core tx' = tx_core tx" for tx'
    using w writable_core [OF that] by simp
  from s consider "saved X dr tx d d'" | "moved_money X dr tx d d'" by (auto simp: settlement_def)
  then show ?thesis
  proof cases
    case 1
    then obtain tx' ev where S: "tx_core tx' = tx_core tx" "tells X tx' ev" "oe_id ev = ed_id (dr_event dr)"
      "d' = put_event ev (put_wager (wager_row_of X tx') d)" by (auto simp: saved_def)
    have es: "db_outbox d' = db_outbox d @ [ev]"
      using put_new_events [of ev "put_wager (wager_row_of X tx') d"] f S(3,4) by (simp add: fresh_events_def)
    have "\<forall>q\<in>set (db_wagers d'). \<exists>e\<in>set (db_outbox d @ [ev]). tells X (tx_of q) e"
      using announced_written [OF a k wr [OF S(1)] S(2), of "db_outbox d @ [ev]"] S(4) by simp
    with a es S(4) show ?thesis by (auto simp: announced_def)
  next
    case 2
    then obtain tx' ev ev' v l where S: "tx_core tx' = tx_core tx" "tells X tx' ev" "tells_balance X l ev'"
      "oe_id ev = ed_id (dr_event dr)" "oe_id ev' = ed_id (dr_event2 dr)"
      "d' = put_event ev' (put_event ev (booked (wager_row_of X tx') v l d))" by (auto simp: moved_money_def)
    have es: "db_outbox d' = db_outbox d @ [ev, ev']"
      using put_new_events [of ev "booked (wager_row_of X tx') v l d"]
        put_new_events [of ev' "put_event ev (booked (wager_row_of X tx') v l d)"] f S(4-6)
      by (simp add: fresh_events_def not_sym)
    have "\<forall>q\<in>set (db_wagers d'). \<exists>e\<in>set (db_outbox d @ [ev, ev']). tells X (tx_of q) e"
      using announced_written [OF a k wr [OF S(1)] S(2), of "db_outbox d @ [ev, ev']"] S(6) by (auto simp: booked_def)
    with a es S(3,6) show ?thesis by (auto simp: announced_def)
  qed
qed

section \<open>Every run is at most one settlement\<close>

definition reads :: "(sess, error, 'a) prog \<Rightarrow> bool" where
  "reads m \<longleftrightarrow> (\<forall>s r t. m s = (r, t) \<longrightarrow> s_db t = s_db s)"

definition settles :: "external \<Rightarrow> draws \<Rightarrow> transaction \<Rightarrow> (sess, error, 'a) prog \<Rightarrow> bool" where
  "settles X dr tx m \<longleftrightarrow> (\<forall>s r t. m s = (r, t) \<longrightarrow> settled s r \<longrightarrow>
     s_db t = s_db s \<or> settlement X dr tx (s_db s) (s_db t))"

named_theorems reads_rules "programs that only read"
named_theorems settles_rules "programs that settle at most one transaction"

lemma readsI: "(\<And>s r t. m s = (r, t) \<Longrightarrow> s_db t = s_db s) \<Longrightarrow> reads m"
  by (auto simp: reads_def)

lemma readsD: "reads m \<Longrightarrow> m s = (r, t) \<Longrightarrow> s_db t = s_db s"
  by (auto simp: reads_def)

lemma settlesI:
  "(\<And>s r t. m s = (r, t) \<Longrightarrow> settled s r \<Longrightarrow> s_db t = s_db s \<or> settlement X dr tx (s_db s) (s_db t)) \<Longrightarrow>
   settles X dr tx m"
  by (auto simp: settles_def)

lemma settlesD:
  "settles X dr tx m \<Longrightarrow> m s = (r, t) \<Longrightarrow> settled s r \<Longrightarrow> s_db t = s_db s \<or> settlement X dr tx (s_db s) (s_db t)"
  by (auto simp: settles_def)

lemma reads_basic [reads_rules]: "reads (fail e)" "reads (ret x)" "reads (liftE q)"
  by (simp_all add: reads_def)

lemma reads_finds [reads_rules]:
  "reads (Wallet_FindByID X wid)" "reads (FindByPlayerAndCurrency X pid c)"
  "reads (FindLedgerEntryByTransactionID X tid)" "reads (FindByProviderAndExternalID X p e)"
  "reads (FindByConsumerAndMessage cn m)"
  unfolding reads_def finds_read_one using read_one_db by blast+

lemma reads_bindE [reads_rules]: "reads m \<Longrightarrow> (\<And>x. reads (k x)) \<Longrightarrow> reads (bindE m k)"
  by (rule readsI) (fastforce simp: bindE_def dest: readsD split: prod.splits sum.splits)

lemma settles_reads: "reads m \<Longrightarrow> settles X dr tx m"
  by (rule settlesI) (simp add: readsD)

lemmas settles_done [settles_rules] = reads_basic [THEN settles_reads]

lemma settles_read [settles_rules]:
  assumes "reads m" and "outside m" and "\<And>x. settles X dr tx (k x)"
  shows "settles X dr tx (bindE m k)"
proof (rule settlesI)
  fix s r t assume run: "bindE m k s = (r, t)" and s: "settled s r"
  obtain q s1 where q: "m s = (q, s1)" by fastforce
  have s1: "s_db s1 = s_db s" "s_tx s = NoTx \<Longrightarrow> s_tx s1 = NoTx"
    using readsD [OF assms(1) q] outsideD [OF assms(2) q] by simp_all
  show "s_db t = s_db s \<or> settlement X dr tx (s_db s) (s_db t)"
  proof (cases q)
    case (Inr x)
    with run q have "k x s1 = (r, t)" by (simp add: bindE_def)
    moreover have "settled s1 r" using s s1(2) by (auto simp: settled_def)
    ultimately show ?thesis using settlesD [OF assms(3)] s1(1) by fastforce
  qed (use run q s1 in \<open>simp add: bindE_def\<close>)
qed

lemma settles_onResult [settles_rules]:
  assumes "reads m" and "outside m" and "\<And>x. settles X dr tx (k x)"
  shows "settles X dr tx (onResult m k)"
proof (rule settlesI)
  fix s r t assume run: "onResult m k s = (r, t)" and s: "settled s r"
  obtain q s1 where q: "m s = (q, s1)" by fastforce
  have s1: "s_db s1 = s_db s" "s_tx s = NoTx \<Longrightarrow> s_tx s1 = NoTx"
    using readsD [OF assms(1) q] outsideD [OF assms(2) q] by simp_all
  from run q have "k q s1 = (r, t)" by (simp add: onResult_def)
  moreover have "settled s1 r" using s s1(2) by (auto simp: settled_def)
  ultimately show "s_db t = s_db s \<or> settlement X dr tx (s_db s) (s_db t)"
    using settlesD [OF assms(3)] s1(1) by fastforce
qed

lemma settles_lift [settles_rules]:
  "(\<And>x. r = Inr x \<Longrightarrow> settles X dr tx (k x)) \<Longrightarrow> settles X dr tx (bindE (liftE r) k)"
  by (rule settlesI) (auto simp: bindE_def split: sum.splits dest: settlesD)

lemma settles_cases [settles_rules]:
  "(b \<Longrightarrow> settles X dr tx m) \<Longrightarrow> (\<not> b \<Longrightarrow> settles X dr tx n) \<Longrightarrow> settles X dr tx (if b then m else n)"
  "(\<And>e. r = Inl e \<Longrightarrow> settles X dr tx (f e)) \<Longrightarrow> (\<And>x. r = Inr x \<Longrightarrow> settles X dr tx (g x)) \<Longrightarrow>
     settles X dr tx (case r of Inl e \<Rightarrow> f e | Inr x \<Rightarrow> g x)"
  "settles X dr tx h \<Longrightarrow> (\<And>y. settles X dr tx (j y)) \<Longrightarrow> settles X dr tx (case v of None \<Rightarrow> h | Some y \<Rightarrow> j y)"
  by (auto split: sum.split option.split)

section \<open>The submission\<close>

text \<open>A transaction with the same content counts as the same.\<close>

lemma saved_settles:
  assumes "tx_core tx' = tx_core tx" and "tells X tx' ev" and "oe_id ev = ed_id (dr_event dr)"
  shows "settles X dr tx (saveWithEvent X tx' ev)"
proof (rule settlesI)
  fix s r t assume "saveWithEvent X tx' ev s = (r, t)" "settled s r"
  from saveWithEvent_db [OF this] assms
  show "s_db t = s_db s \<or> settlement X dr tx (s_db s) (s_db t)"
    by (auto simp: settlement_def saved_def)
qed

lemma rejectInTx_settlement:
  assumes "rejectInTx X dr tx' code w cid s = (Inr res, t)" and "tx_core tx' = tx_core tx"
  shows "settlement X dr tx (s_db s) (s_db t)"
  using assms(1)
proof (rule rejectInTx_InrE)
  fix tx2 ev
  assume m: "MarkRejected code (dr_mark_now dr) tx' = Inr tx2"
    and e: "newWagerTransactionRejectedEvent X (dr_event dr) tx2 cid = Inr ev"
    and t: "s_db t = put_outbox [ev] (put_wager (wager_row_of X tx2) (s_db s))"
  have "tx_core tx2 = tx_core tx" using rejected.mark_core [OF m] assms(2) by simp
  moreover have "tells X tx2 ev" using built_tells(2) [OF e] rejected.mark_target [OF m] by simp
  ultimately show ?thesis using t built_id(2) [OF e] by (auto simp: settlement_def saved_def)
qed

lemma moveInTx_settlement:
  assumes "moveInTx X dr tx' dir (wallet_of w) cid s = (Inr res, t)" and "tx_core tx' = tx_core tx"
    and w: "lookup_by wl_id i (db_wallets (s_db s)) = Some w"
  shows "settlement X dr tx (s_db s) (s_db t)"
  using assms(1)
proof (rule moveInTx_InrE)
  assume "rejectInTx X dr tx' (if tx_kind tx' \<noteq> KindBet then FailureCodeReversalExceedsBalance
         else FailureCodeInsufficientBalance) (wallet_of w) cid s = (Inr res, t)"
  then show ?thesis using assms(2) by (rule rejectInTx_settlement)
next
  fix w' entry tx2 ev1 ev2
  assume mv: "move_wallet dir (wallet_of w) (tx_amount tx') = Inr w'"
    and en: "NewLedgerEntry (dr_entry_id dr) (dr_entry_now dr)
      \<lparr>nle_WalletID = w_id w', nle_TransactionID = tx_id tx', nle_Direction = dir, nle_Amount = tx_amount tx',
       nle_BalanceBefore = w_balance (wallet_of w), nle_BalanceAfter = w_balance w'\<rparr> = Inr entry"
    and m: "MarkProcessed (dr_mark_now dr) tx' = Inr tx2"
    and e1: "newWagerTransactionProcessedEvent X (dr_event dr) tx2 cid = Inr ev1"
    and e2: "newWalletBalanceChangedEvent X (dr_event2 dr) w' entry cid (Some (x_uuid X (oe_id ev1))) = Inr ev2"
    and t: "s_db t = put_outbox [ev1, ev2] (booked (wager_row_of X tx2) (wallet_row_of w') (ledger_row_of entry) (s_db s))"
  have "w_id w' = w_id (wallet_of w)"
    using mv by (auto simp: move_wallet_def split: if_splits dest!: Wallet_Debit_Inr Wallet_Credit_Inr movedD(1))
  then have known: "lookup_by wl_id (wl_id (wallet_row_of w')) (db_wallets (s_db s)) \<noteq> None"
    using w lookup_by_SomeD [OF w] by (simp add: wallet_of_def wallet_row_of_def)
  have core: "tx_core tx2 = tx_core tx" using processed.mark_core [OF m] assms(2) by simp
  have tell: "tells X tx2 ev1" using built_tells(1) [OF e1] processed.mark_target [OF m] by simp
  have bal: "tells_balance X (ledger_row_of entry) ev2"
    using built_tells_balance [OF e2] NewLedgerEntry_Inr(2) [OF en] by simp
  have ids: "oe_id ev1 = ed_id (dr_event dr)" "oe_id ev2 = ed_id (dr_event2 dr)"
    using built_id(1) [OF e1] built_id(4) [OF e2] by simp_all
  have "moved_money X dr tx (s_db s) (s_db t)"
    unfolding moved_money_def t using core tell bal ids known by (intro exI conjI) simp_all
  then show ?thesis by (simp add: settlement_def)
qed

lemma processInTx_settlement:
  assumes "processInTx X dr tx' referenced dir cid s = (Inr res, t)" and core: "tx_core tx' = tx_core tx"
  shows "settlement X dr tx (s_db s) (s_db t)"
  using assms(1)
proof (rule processInTx_InrE)
  fix w ref s1
  assume "s_db s1 = s_db s" and "rejectInTx X dr tx' FailureCodeDuplicateReversal (wallet_of w) cid s1 = (Inr res, t)"
  with rejectInTx_settlement [OF this(2) core] show ?thesis by simp
next
  fix w s1
  assume w: "lookup_by wl_id (tx_walletID tx') (db_wallets (s_db s)) = Some w" and s1: "s_db s1 = s_db s"
    and m: "moveInTx X dr tx' dir (wallet_of w) cid s1 = (Inr res, t)"
  from moveInTx_settlement [OF m core, of "tx_walletID tx'"] w s1 show ?thesis by simp
qed

lemma settles_in_tx:
  "tx_core tx' = tx_core tx \<Longrightarrow> settles X dr tx (WithinTx (processInTx X dr tx' referenced dir cid))"
  by (rule settlesI, erule (1) WithinTx_settled) (auto dest: processInTx_settlement)

lemma settles_reject: "tx_core tx' = tx_core tx \<Longrightarrow> settles X dr tx (reject X dr tx' code cid)"
  unfolding reject_def
  by (intro settles_rules saved_settles)
    (auto dest: rejected.mark_core rejected.mark_target intro: built_tells built_id)

lemma settles_park: "tx_core tx' = tx_core tx \<Longrightarrow> settles X dr tx (parkPendingReference X dr tx' cid)"
  unfolding parkPendingReference_def Let_def
  by (intro settles_rules reads_rules outside_rules saved_settles)
    (auto dest: parked.mark_core parked.mark_target intro: built_tells built_id)

lemma settles_finish: "tx_core tx' = tx_core tx \<Longrightarrow> settles X dr tx (finishWithoutMovement X dr tx' cid)"
  unfolding finishWithoutMovement_def
  by (intro settles_rules reads_rules outside_rules saved_settles)
    (auto dest: processed.mark_core processed.mark_target intro: built_tells built_id)

lemma settles_process_tx: "settles X dr tx (process_tx X dr tx cid)"
proof -
  have move: "settles X dr tx (processMovement X dr tx' referenced cid)" if "tx_core tx' = tx_core tx" for tx' referenced
    unfolding processMovement_def using that by (intro settles_rules settles_finish settles_in_tx)
  have ref: "settles X dr tx (processReferenced X dr tx cid r)" for r
    unfolding processReferenced_def
    by (intro settles_rules settles_reject settles_park move) (auto dest: ResolveReference_Inr)
  show ?thesis
    unfolding process_tx_def by (intro settles_rules reads_rules outside_rules move ref refl)
qed

lemma Submit_settlement:
  assumes "Submit X dr i s = (r, t)" and "settled s r" and "s_db t \<noteq> s_db s"
  obtains tx where "NewTransaction (dr_tx_id dr) (dr_tx_now dr) (candidate_input i) = Inr tx"
    "settlement X dr tx (s_db s) (s_db t)"
  using assms(1)
proof (cases rule: Submit_cases)
  case (processed c s1)
  have "settled s1 r" using find_wager_tx [OF processed(2)] assms(2) by (auto simp: settled_def)
  with settlesD [OF settles_process_tx processed(3)] find_wager_db [OF processed(2)] assms(3) processed(1) that
  show thesis by simp
next
  case (raced c s1 s2)
  have "s_tx s = NoTx"
  proof (rule ccontr)
    assume n: "s_tx s \<noteq> NoTx"
    with assms(2) obtain res where "r = Inr res" by (auto simp: settled_def)
    with Submit_raced_fails [OF _ n raced(1-3)] assms(1) show False by blast
  qed
  then have "settled s1 (Inl (AppE ErrWagerTransactionAlreadyExists) :: error + submit_result)"
    using find_wager_tx [OF raced(2)] by (simp add: settled_def)
  with settlesD [OF settles_process_tx raced(3)] find_wager_db [OF raced(2)] assms(3) raced(1,4) that
  show thesis by simp
qed (use assms(3) in \<open>auto dest!: find_wager_db replay_db\<close>)

section \<open>The other statements\<close>

lemma same_event_content:
  assumes "same_event ev ev'"
  shows "oe_aggregateType ev' = oe_aggregateType ev" "oe_aggregateID ev' = oe_aggregateID ev"
    "oe_eventType ev' = oe_eventType ev" "oe_payload ev' = oe_payload ev"
  using arg_cong [OF assms [unfolded same_event_def], of oe_aggregateType]
    arg_cong [OF assms [unfolded same_event_def], of oe_aggregateID]
    arg_cong [OF assms [unfolded same_event_def], of oe_eventType]
    arg_cong [OF assms [unfolded same_event_def], of oe_payload]
  by simp_all

lemma tells_same_event:
  assumes "same_event ev ev'"
  shows "tells X tx ev' = tells X tx ev" "tells_balance X l ev' = tells_balance X l ev"
  by (simp_all only: tells_def tells_balance_def same_event_content [OF assms])

lemma events_survive:
  assumes "ev \<in> set (db_outbox d)"
  shows "\<exists>ev'\<in>set (db_outbox (put_event e d)). same_event ev ev'"
proof (cases "event_absent (oe_id e) d")
  case True
  with put_new_events assms same_refl(3) show ?thesis by fastforce
next
  case False
  let ?f = "\<lambda>r. if oe_id r = oe_id e then outbox_merge r e else r"
  have m: "db_outbox (put_event e d) = map ?f (db_outbox d)" using False by (auto simp: upsert_def event_absent_def)
  show ?thesis
  proof
    show "?f ev \<in> set (db_outbox (put_event e d))" unfolding m list.set_map using assms by (rule imageI)
    show "same_event ev (?f ev)" by (simp add: same_refl same_merge)
  qed
qed

lemma put_event_tables: "db_wagers (put_event e d) = db_wagers d" "db_ledger (put_event e d) = db_ledger d"
  by simp_all

lemma announced_put_event: "announced X d \<Longrightarrow> announced X (put_event e d)"
  unfolding announced_def put_event_tables using events_survive tells_same_event by meson

lemma announced_put_inbox [simp]: "announced X (put_inbox i d) = announced X d"
  by (rule announced_cong) simp_all

lemma announced_put_wallet [simp]: "announced X (put_wallet w d) = announced X d"
  by (rule announced_cong) simp_all

lemma announced_reschedule:
  "announced X (d\<lparr>db_wagers := map (reschedule i nxt) (db_wagers d)\<rparr>) = announced X d"
proof -
  have "tx_of (reschedule i nxt q) = tx_of q" for q by (simp add: reschedule_def tx_of_def)
  then show ?thesis by (simp add: announced_def)
qed

lemma ScheduleNext_announced:
  assumes "ScheduleNextPendingReferenceRetry i nxt s = (r, t)" and "announced X (s_db s)"
  shows "announced X (s_db t)"
  using query_db [OF assms(1) [unfolded ScheduleNextPendingReferenceRetry_def]] assms(2)
    announced_reschedule [of X i nxt "s_db s"]
  by (auto simp: reschedule_def [abs_def])

lemma opening_announced:
  assumes "announced X d" and "distinct (map wr_id (db_wagers d))" and "lookup_by wr_id (tx_id tx) (db_wagers d) = None"
    and "tells X tx e1" and "tells_balance X l e2"
    and "event_absent (oe_id e1) d" and "event_absent (oe_id e2) d" and "oe_id e1 \<noteq> oe_id e2"
  shows "announced X (put_outbox [e1, e2] (add_ledger l (put_wager (wager_row_of X tx) (put_wallet w d))))"
    (is "announced X (put_outbox _ ?d)")
proof -
  have es: "db_outbox (put_outbox [e1, e2] ?d) = db_outbox d @ [e1, e2]"
    using put_new_events [of e1 ?d] put_new_events [of e2 "put_event e1 ?d"] assms(6-8) by (simp add: not_sym)
  have "\<forall>q\<in>set (db_wagers (put_wager (wager_row_of X tx) d)). \<exists>e\<in>set (db_outbox d @ [e1, e2]). tells X (tx_of q) e"
    using assms(1,2) writable_new [OF assms(3)] assms(4) by (rule announced_written) auto
  then show ?thesis
    unfolding announced_def es using assms(1,5) by (auto simp: announced_def)
qed

text \<open>What every reachable state of the tables satisfies.\<close>

definition sound :: "external \<Rightarrow> db \<Rightarrow> bool" where
  "sound X d \<longleftrightarrow> books d \<and> announced X d"

lemma soundD: "sound X d \<Longrightarrow> books d" "sound X d \<Longrightarrow> announced X d"
  by (simp_all add: sound_def)

end
