(* ===== verification/Concurrent.thy ===== *)
theory Concurrent
  imports Interleaving Effects
begin

text \<open>
  Use cases that run at the same time. \<open>safe X R G Q t d\<close> is the judgement of a rely/guarantee proof:
  started on tables \<open>d\<close>, with other threads changing the tables between the round trips of \<open>t\<close> by
  \<open>R\<close> only and keeping them \<open>sound\<close>, every round trip of \<open>t\<close> changes them by \<open>G\<close> and keeps them sound,
  whatever the driver does, and \<open>t\<close> ends in \<open>Q\<close>. The locale \<open>settling\<close> lists what the relations
  have to allow for the thread of a submission; a submission and the resolver interpret it.

  The system is a pool of jobs on shared tables; its steps start a job, let one job do one round trip,
  or lose a job, as a crash does. Identifiers are drawn fresh, and one resolver runs at a time.
\<close>

section \<open>Rely and guarantee\<close>

definition on_pool :: "db \<Rightarrow> fault option list \<Rightarrow> sess" where
  "on_pool d faults = \<lparr>s_db = d, s_tx = NoTx, s_faults = faults\<rparr>"

lemma on_pool_simps [simp]: "s_db (on_pool d faults) = d" "s_tx (on_pool d faults) = NoTx"
  by (simp_all add: on_pool_def)

primrec safe ::
  "external \<Rightarrow> (db \<Rightarrow> db \<Rightarrow> bool) \<Rightarrow> (db \<Rightarrow> db \<Rightarrow> bool) \<Rightarrow> ('a \<Rightarrow> db \<Rightarrow> bool) \<Rightarrow> 'a thread \<Rightarrow> db \<Rightarrow> bool" where
  "safe X R G Q (Finished x) = (\<lambda>d. Q x d)"
| "safe X R G Q (Next f) = (\<lambda>d. \<forall>d' faults. R d d' \<longrightarrow> sound X d' \<longrightarrow>
     (case map_prod (safe X R G Q) id (f (on_pool d' faults)) of (rest, s) \<Rightarrow>
        G d' (s_db s) \<and> sound X (s_db s) \<and> rest (s_db s)))"

abbreviation anything :: "'a \<Rightarrow> db \<Rightarrow> bool" where "anything x d \<equiv> True"

lemma safe_NextI:
  "(\<And>d' faults t s. R d d' \<Longrightarrow> sound X d' \<Longrightarrow> f (on_pool d' faults) = (t, s) \<Longrightarrow>
     G d' (s_db s) \<and> sound X (s_db s) \<and> safe X R G Q t (s_db s)) \<Longrightarrow> safe X R G Q (Next f) d"
  by (auto simp: map_prod_def split: prod.split)

lemma safe_NextD:
  "safe X R G Q (Next f) d \<Longrightarrow> R d d' \<Longrightarrow> sound X d' \<Longrightarrow> f (on_pool d' faults) = (t, s) \<Longrightarrow>
     G d' (s_db s) \<and> sound X (s_db s) \<and> safe X R G Q t (s_db s)"
  by (force simp: map_prod_def split: prod.splits)

lemma thread_induct [case_names Finished Next]:
  assumes "\<And>x. P (Finished x)" and "\<And>f. (\<And>s t s'. f s = (t, s') \<Longrightarrow> P t) \<Longrightarrow> P (Next f)"
  shows "P t"
proof (induction t)
  case (Next f)
  show ?case
  proof (rule assms(2))
    fix s t s' assume "f s = (t, s')"
    then have "t \<in> Basic_BNFs.fsts (f s)" by (simp add: fsts.intros)
    with rangeI show "P t" by (rule Next.IH)
  qed
qed (rule assms(1))

lemma safe_andThen:
  assumes "safe X R G Q m d" and "\<And>x d. Q x d \<Longrightarrow> safe X R G P (k x) d"
  shows "safe X R G P (andThen m k) d"
  using assms(1)
proof (induction m arbitrary: d rule: thread_induct)
  case (Finished x)
  then show ?case using assms(2) by simp
next
  case (Next f)
  show ?case
    unfolding andThen.simps
  proof (rule safe_NextI)
    fix d' faults t s
    assume r: "R d d'" "sound X d'" and "map_prod (\<lambda>t. andThen t k) id (f (on_pool d' faults)) = (t, s)"
    then obtain u where u: "f (on_pool d' faults) = (u, s)" "t = andThen u k"
      by (cases "f (on_pool d' faults)") simp
    from safe_NextD [OF Next.prems r u(1)] Next.IH [OF u(1)] u(2)
    show "G d' (s_db s) \<and> sound X (s_db s) \<and> safe X R G P t (s_db s)" by simp
  qed
qed

lemma safe_weaken:
  assumes "safe X R G Q t d" and "\<And>a b. G a b \<Longrightarrow> G' a b" and "\<And>x d. Q x d \<Longrightarrow> Q' x d"
  shows "safe X R G' Q' t d"
  using assms(1)
proof (induction t arbitrary: d rule: thread_induct)
  case (Next f)
  then show ?case using assms(2) by (intro safe_NextI) (blast dest: safe_NextD)
qed (use assms(3) in simp)

text \<open>The environment may act before the first round trip.\<close>

lemma safe_rely:
  assumes "safe X R G Q t d" and "R d d'" and "transp R" and "\<And>x. Q x d \<Longrightarrow> Q x d'"
  shows "safe X R G Q t d'"
proof (cases t)
  case (Next f)
  have "R d b" if "R d' b" for b using transpD [OF assms(3,2) that] .
  then show ?thesis
    using safe_NextD [OF assms(1) [unfolded Next]] unfolding Next by (intro safe_NextI) blast
qed (use assms in simp)

text \<open>What neither the environment nor the thread itself disturbs is still there at the end.\<close>

lemma safe_frame:
  assumes "safe X R G Q t d" and "F d"
    and "\<And>a b. F a \<Longrightarrow> R a b \<Longrightarrow> F b" and "\<And>a b. F a \<Longrightarrow> G a b \<Longrightarrow> F b"
  shows "safe X R G (\<lambda>x d. Q x d \<and> F d) t d"
  using assms(1,2)
proof (induction t arbitrary: d rule: thread_induct)
  case (Next f)
  then show ?case using assms(3,4) by (intro safe_NextI) (blast dest: safe_NextD)
qed simp

lemma safe_call:
  assumes "\<And>d' faults r s. R d d' \<Longrightarrow> sound X d' \<Longrightarrow> m (on_pool d' faults) = (r, s) \<Longrightarrow>
    G d' (s_db s) \<and> sound X (s_db s) \<and> safe X R G Q (k r) (s_db s)"
  shows "safe X R G Q (andThen (atomically m) k) d"
  unfolding atomically_def andThen.simps
proof (rule safe_NextI)
  fix d' faults t s
  assume r: "R d d'" "sound X d'"
    and t: "map_prod (\<lambda>t. andThen t k) id (map_prod Finished id (m (on_pool d' faults))) = (t, s)"
  obtain q s' where q: "m (on_pool d' faults) = (q, s')" by fastforce
  with t have "t = k q" "s = s'" by simp_all
  with assms [OF r q] show "G d' (s_db s) \<and> sound X (s_db s) \<and> safe X R G Q t (s_db s)" by simp
qed

lemma safe_one_read:
  assumes "reads m" and "\<And>d. G d d" and "\<And>d' faults r s. R d d' \<Longrightarrow> sound X d' \<Longrightarrow>
    m (on_pool d' faults) = (r, s) \<Longrightarrow> s_db s = d' \<Longrightarrow> safe X R G Q (k r) d'"
  shows "safe X R G Q (andThen (atomically m) k) d"
proof (rule safe_call)
  fix d' faults r s
  assume "R d d'" "sound X d'" and m: "m (on_pool d' faults) = (r, s)"
  moreover have "s_db s = d'" using assms(1) m by (force simp: reads_def)
  ultimately show "G d' (s_db s) \<and> sound X (s_db s) \<and> safe X R G Q (k r) (s_db s)"
    using assms(2,3) by simp
qed

lemma safe_atomically:
  assumes "\<And>d' faults r s. R d d' \<Longrightarrow> sound X d' \<Longrightarrow> m (on_pool d' faults) = (r, s) \<Longrightarrow>
    G d' (s_db s) \<and> sound X (s_db s) \<and> Q r (s_db s)"
  shows "safe X R G Q (atomically m) d"
  unfolding atomically_def
proof (rule safe_NextI)
  fix d' faults t s
  assume r: "R d d'" "sound X d'" and t: "map_prod Finished id (m (on_pool d' faults)) = (t, s)"
  obtain q s' where q: "m (on_pool d' faults) = (q, s')" by fastforce
  with t have "t = Finished q" "s = s'" by simp_all
  with assms [OF r q] show "G d' (s_db s) \<and> sound X (s_db s) \<and> safe X R G Q t (s_db s)" by simp
qed

lemma bindS_lift [simp]:
  "bindS (Finished (Inl e)) k = Finished (Inl e)" "bindS (Finished (Inr x)) k = k x"
  by (simp_all add: bindS_def)

lemma safe_liftS:
  "(\<And>e. r = Inl e \<Longrightarrow> Q (Inl e) d) \<Longrightarrow> (\<And>x. r = Inr x \<Longrightarrow> safe X R G Q (k x) d) \<Longrightarrow> safe X R G Q (bindS (liftS r) k) d"
  by (cases r) simp_all

text \<open>A thread that only reads, to its end.\<close>

primrec only_reads :: "'a thread \<Rightarrow> bool" where
  "only_reads (Finished x) = True"
| "only_reads (Next f) = (\<forall>s. case map_prod only_reads id (f s) of (ok, s') \<Rightarrow> ok \<and> s_db s' = s_db s)"

lemma only_reads_Next:
  "only_reads (Next f) \<longleftrightarrow> (\<forall>s t s'. f s = (t, s') \<longrightarrow> only_reads t \<and> s_db s' = s_db s)"
  by (auto simp: map_prod_def split: prod.splits)

lemma only_reads_andThen: "only_reads m \<Longrightarrow> (\<And>x. only_reads (k x)) \<Longrightarrow> only_reads (andThen m k)"
proof (induction m rule: thread_induct)
  case (Next f)
  show ?case
    unfolding andThen.simps only_reads_Next
  proof (intro allI impI)
    fix s t s' assume "map_prod (\<lambda>t. andThen t k) id (f s) = (t, s')"
    then obtain u where u: "f s = (u, s')" "t = andThen u k" by (cases "f s") simp
    with Next.prems(1) Next.IH [OF u(1) _ Next.prems(2)] show "only_reads t \<and> s_db s' = s_db s"
      unfolding only_reads_Next by blast
  qed
qed simp

lemma only_reads_bindS: "only_reads m \<Longrightarrow> (\<And>x. only_reads (k x)) \<Longrightarrow> only_reads (bindS m k)"
  unfolding bindS_def by (rule only_reads_andThen) (simp_all split: sum.split)

lemma only_reads_atomically: "reads m \<Longrightarrow> only_reads (atomically m)"
  by (auto simp: atomically_def reads_def map_prod_def split: prod.split)

lemma only_reads_replay_steps: "only_reads (replay_steps X a b)"
  unfolding replay_steps_def balanceAtProcessing_steps_def
  by (auto intro!: only_reads_bindS only_reads_andThen only_reads_atomically reads_finds split: sum.split)

lemma safe_reading:
  assumes "only_reads t" and "\<And>d. G d d"
  shows "safe X R G anything t d"
  using assms(1)
proof (induction t arbitrary: d rule: thread_induct)
  case (Next f)
  show ?case
  proof (rule safe_NextI)
    fix d' faults t s assume b: "sound X d'" and f: "f (on_pool d' faults) = (t, s)"
    with Next.prems have "only_reads t" "s_db s = d'" unfolding only_reads_Next by fastforce+
    with b f Next.IH assms(2) show "G d' (s_db s) \<and> sound X (s_db s) \<and> safe X R G anything t (s_db s)" by simp
  qed
qed simp

section \<open>The thread of a submission\<close>

text \<open>What a settled transaction, the list of wallets and a reference may count on.\<close>

definition final_kept :: "db \<Rightarrow> db \<Rightarrow> bool" where
  "final_kept d d' \<longleftrightarrow> (\<forall>i r. lookup_by wr_id i (db_wagers d) = Some r \<longrightarrow> TxStatus_IsTerminal (wr_status r) \<longrightarrow>
     lookup_by wr_id i (db_wagers d') = Some r)"

lemma refers_kept:
  assumes "refers d tx referenced" and "distinct (map wr_id (db_wagers d))" and "final_kept d d'"
  shows "refers d' tx referenced"
proof -
  have "r \<in> processed d'" if "r \<in> processed d" for r
  proof -
    from that have r: "r \<in> set (db_wagers d)" "wr_status r = TxStatusProcessed" by (simp_all add: processed_def)
    from lookup_by_eqI [OF assms(2) r(1)] r(2) assms(3)
    have "lookup_by wr_id (wr_id r) (db_wagers d') = Some r" by (simp add: final_kept_def)
    with r(2) show ?thesis by (auto simp: processed_def dest: lookup_by_SomeD)
  qed
  with assms(1) show ?thesis
    unfolding refers_def by (cases "tx_kind tx = KindRefund \<or> tx_kind tx = KindRollback") (simp_all, blast)
qed

lemma wallet_kept:
  assumes "tables_grow d d'" and "lookup_by wl_id i (db_wallets d) = Some r"
  shows "\<exists>w\<in>set (db_wallets d'). wl_id w = i \<and> wl_currency w = wl_currency r"
proof -
  from assms obtain r' where "lookup_by wl_id i (db_wallets d') = Some r'" "wl_currency r' = wl_currency r"
    unfolding tables_grow_def by blast
  then show ?thesis using lookup_by_SomeD by fast
qed

locale settling =
  fixes X :: external
    and dr :: draws
    and R G :: "db \<Rightarrow> db \<Rightarrow> bool"
    and W :: "transaction \<Rightarrow> db \<Rightarrow> bool"
  assumes rely_trans: "transp R"
    and rely_grow: "R d d' \<Longrightarrow> tables_grow d d'"
    and rely_final: "R d d' \<Longrightarrow> final_kept d d'"
    and guar_refl: "G d d"
    and open_core: "tx_core a = tx_core b \<Longrightarrow> W a d \<Longrightarrow> W b d"
    and open_stable: "W tx d \<Longrightarrow> R d d' \<Longrightarrow> W tx d'"
    and open_writable: "W tx d \<Longrightarrow> writable d (wager_row_of X tx)"
    and open_fresh: "W tx d \<Longrightarrow> fresh_events dr d"
    and open_guar: "W tx d \<Longrightarrow> settlement X dr tx d d' \<Longrightarrow> tables_grow d d' \<Longrightarrow> G d d'"
begin

lemmas safe_read = safe_one_read [where G = G, OF _ guar_refl]

text \<open>One settlement keeps the tables sound.\<close>

lemma settlement_sound:
  assumes "sound X d" and "W tx d" and "books d'" and "settlement X dr tx d d'"
  shows "sound X d'"
  using settlement_announced [OF assms(4) soundD(2) [OF assms(1)] booksD(2) [OF soundD(1) [OF assms(1)]]
      open_writable [OF assms(2)] open_fresh [OF assms(2)]] assms(3)
  by (simp add: sound_def)

lemma safe_saveWithEvent_steps:
  assumes "W tx d" and told: "tells X tx ev" "oe_id ev = ed_id (dr_event dr)"
    and "tx_status tx = TxStatusProcessed \<Longrightarrow> tx_kind tx = KindLoss \<and>
      (\<exists>r. lookup_by wl_id (tx_walletID tx) (db_wallets d) = Some r \<and> wl_currency r = m_currency (tx_amount tx))"
  shows "safe X R G anything (saveWithEvent_steps X tx ev) d"
  unfolding saveWithEvent_steps_def bindS_def
proof (rule safe_call)
  fix d' faults r s
  assume r: "R d d'" "sound X d'"
    and m: "WithinTx (bindE (Wager_Save X tx) (\<lambda>_. SaveAll [ev])) (on_pool d' faults) = (r, s)"
  have W: "W tx d'" using assms(1) r(1) by (rule open_stable)
  have put: "s_db s = s_db (on_pool d' faults) \<or>
      s_db s = put_outbox [ev] (put_wager (wager_row_of X tx) (s_db (on_pool d' faults)))"
    using m by (rule save_with_event_db) (simp add: settled_def)
  have "\<exists>w\<in>set (db_wallets d'). wl_id w = tx_walletID tx \<and> wl_currency w = m_currency (tx_amount tx)"
    if "tx_status tx = TxStatusProcessed"
    using assms(4) [OF that] wallet_kept [OF rely_grow [OF r(1)]] by fastforce
  then have b: "books (s_db s)"
    using assms(4) soundD(1) [OF r(2)] by (intro save_with_event_books [OF put]) (simp_all add: open_writable [OF W])
  have "changes tables_grow (WithinTx (bindE (Wager_Save X tx) (\<lambda>_. SaveAll [ev])))"
    by (intro growth.WithinTx_changes growth.bindE_changes growth.saves_change) simp
  from changesD [OF this m] have grow: "tables_grow d' (s_db s)" by simp
  have "s_db s = d' \<or> settlement X dr tx d' (s_db s)"
    using put told by (auto simp: settlement_def saved_def)
  then have "G d' (s_db s) \<and> sound X (s_db s)"
    using guar_refl r(2) open_guar [OF W _ grow] settlement_sound [OF r(2) W b] by auto
  then show "G d' (s_db s) \<and> sound X (s_db s) \<and>
      safe X R G anything (case r of Inl e \<Rightarrow> Finished (Inl e)
        | Inr x \<Rightarrow> andThen (atomically (Wallet_FindByID X (tx_walletID tx))) (\<lambda>r. case r of Inl e \<Rightarrow> Finished (Inl e)
           | Inr w \<Rightarrow> Finished (Inr \<lparr>sr_Transaction = tx, sr_Balance = w_balance w, sr_IdempotentReplay = False\<rparr>)))
       (s_db s)"
    by (auto split: sum.split intro!: safe_reading only_reads_andThen only_reads_atomically reads_finds guar_refl)
qed

lemma safe_reject_steps:
  assumes "W tx d"
  shows "safe X R G anything (reject_steps X dr tx code cid) d"
  unfolding reject_steps_def
  using assms
  by (auto intro!: safe_liftS safe_saveWithEvent_steps dest: rejected.mark_target
      intro: open_core [OF rejected.mark_core [symmetric]] built_tells built_id)

lemma safe_parkPendingReference_steps:
  assumes "W tx d"
  shows "safe X R G anything (parkPendingReference_steps X dr tx cid) d"
proof (cases "tx_status tx = TxStatusPendingReference")
  case True
  then show ?thesis
    unfolding parkPendingReference_steps_def Let_def
    by (auto intro!: safe_liftS safe_reading only_reads_bindS only_reads_atomically reads_finds guar_refl)
next
  case False
  with assms show ?thesis
    unfolding parkPendingReference_steps_def Let_def
    by (auto intro!: safe_liftS safe_saveWithEvent_steps dest: parked.mark_target
        intro: open_core [OF parked.mark_core [symmetric]] built_tells built_id)
qed

lemma safe_finishWithoutMovement_steps:
  assumes "W tx d" and "tx_kind tx = KindLoss"
  shows "safe X R G anything (finishWithoutMovement_steps X dr tx cid) d"
  unfolding finishWithoutMovement_steps_def bindS_def [of "atomically _"]
proof (rule safe_read [OF reads_finds(1)])
  fix d' faults r s
  assume r: "R d d'" "sound X d'" and m: "Wallet_FindByID X (tx_walletID tx) (on_pool d' faults) = (r, s)"
  have W: "W tx d'" using assms(1) r(1) by (rule open_stable)
  have "safe X R G anything (saveWithEvent_steps X tx' ev) d'"
    if w: "r = Inr w" and c: "m_currency (tx_amount tx) = m_currency (w_balance w)"
      and p: "MarkProcessed (dr_mark_now dr) tx = Inr tx'"
      and e: "newWagerTransactionProcessedEvent X (dr_event dr) tx' cid = Inr ev" for w tx' ev
  proof (rule safe_saveWithEvent_steps)
    note core = tx_core_eqD [OF processed.mark_core [OF p]]
    show "W tx' d'" using open_core [OF processed.mark_core [OF p, symmetric]] W .
    show "tells X tx' ev" using built_tells(1) [OF e] processed.mark_target [OF p] by simp
    show "oe_id ev = ed_id (dr_event dr)" using e by (rule built_id)
    from m [unfolded w] obtain row where "lookup_by wl_id (tx_walletID tx) (db_wallets d') = Some row" "w = wallet_of row"
      by (rule Wallet_FindByID_InrE) simp
    with c core assms(2) show "tx_kind tx' = KindLoss \<and>
      (\<exists>r. lookup_by wl_id (tx_walletID tx') (db_wallets d') = Some r \<and> wl_currency r = m_currency (tx_amount tx'))"
      by (simp add: wallet_of_def)
  qed
  then show "safe X R G anything (case r of Inl e \<Rightarrow> Finished (Inl e) | Inr w \<Rightarrow>
      if m_currency (tx_amount tx) \<noteq> m_currency (w_balance w) then Finished (Inl (MoneyE ErrCurrencyMismatch))
      else bindS (Finished (MarkProcessed (dr_mark_now dr) tx)) (\<lambda>tx.
        bindS (Finished (newWagerTransactionProcessedEvent X (dr_event dr) tx cid)) (saveWithEvent_steps X tx))) d'"
    by (auto split: sum.split intro!: safe_liftS)
qed

lemma safe_processMovement_steps:
  assumes "W tx d" and "\<And>d'. R d d' \<Longrightarrow> refers d' tx referenced"
  shows "safe X R G anything (processMovement_steps X dr tx referenced cid) d"
proof (cases "tx_kind tx = KindLoss")
  case True
  with assms(1) show ?thesis by (simp add: processMovement_steps_def safe_finishWithoutMovement_steps)
next
  case False
  have "safe X R G anything (atomically (WithinTx (processInTx X dr tx referenced dir cid))) d"
    if dir: "movementDirection (tx_kind tx) referenced = Inr dir" for dir
  proof (rule safe_atomically)
    fix d' faults r s
    assume r: "R d d'" "sound X d'" and m: "WithinTx (processInTx X dr tx referenced dir cid) (on_pool d' faults) = (r, s)"
    have W: "W tx d'" using assms(1) r(1) by (rule open_stable)
    have ref: "refers d' tx referenced" using r(1) by (rule assms(2))
    have "processMovement X dr tx referenced cid (on_pool d' faults) = (r, s)"
      using m False dir by (simp add: processMovement_def bindE_def)
    then have b: "books (s_db s)"
      using processMovement_books [of X dr tx referenced cid "on_pool d' faults" r s] soundD(1) [OF r(2)]
        open_writable [OF W] ref
      by (simp add: settled_def)
    have "changes tables_grow (WithinTx (processInTx X dr tx referenced dir cid))"
      by (intro growth.WithinTx_changes growth.movement_changes) simp
    from changesD [OF this m] have grow: "tables_grow d' (s_db s)" by simp
    have "s_db s = d' \<or> settlement X dr tx d' (s_db s)"
      using settlesD [OF settles_in_tx [OF refl] m] by (simp add: settled_def)
    then show "G d' (s_db s) \<and> sound X (s_db s) \<and> anything r (s_db s)"
      using guar_refl r(2) open_guar [OF W _ grow] settlement_sound [OF r(2) W b] by auto
  qed
  with False show ?thesis unfolding processMovement_steps_def by (auto intro: safe_liftS)
qed

lemma safe_processReferenced_steps:
  assumes "W tx d" and b: "sound X d" and k: "tx_kind tx = KindRefund \<or> tx_kind tx = KindRollback"
    and q: "\<And>ref. q = Inr ref \<Longrightarrow> \<exists>row\<in>set (db_wagers d). ref = tx_of row"
  shows "safe X R G anything (processReferenced_steps X dr tx cid q) d"
proof (cases q)
  case (Inl e)
  with assms(1) show ?thesis by (simp add: processReferenced_steps_def safe_parkPendingReference_steps)
next
  case (Inr ref)
  show ?thesis
  proof (cases "ValidateReference tx ref")
    case (Inl e)
    with Inr assms(1) show ?thesis by (simp add: processReferenced_steps_def safe_reject_steps)
  next
    case v: (Inr u)
    then have ok: "reference_ok tx ref" using ValidateReference_eq [of tx ref] by simp
    from q [OF Inr] obtain row where row: "row \<in> set (db_wagers d)" "ref = tx_of row" by blast
    with ok have p: "row \<in> processed d" by (simp add: processed_def reference_ok_def tx_of_def)
    have "safe X R G anything (processMovement_steps X dr tx' (Some ref) cid) d"
      if m: "ResolveReference (dr_resolve_now dr) (tx_id ref) tx = Inr tx'" for tx'
    proof (rule safe_processMovement_steps)
      note R = ResolveReference_Inr [OF m]
      show "W tx' d" using open_core assms(1) R by metis
      have "refers d tx' (Some ref)"
        using k R ok row(2) p reference_ok_core [of tx' tx] tx_core_eqD(8) [of tx' tx]
        by (auto simp: refers_def tx_of_def intro!: bexI [of _ row])
      then show "refers d' tx' (Some ref)" if "R d d'" for d'
        using booksD(2) [OF soundD(1) [OF b]] rely_final [OF that] by (rule refers_kept)
    qed
    with Inr v show ?thesis by (auto simp: processReferenced_steps_def intro: safe_liftS)
  qed
qed

lemma safe_process_tx_steps:
  assumes "W tx d"
  shows "safe X R G anything (process_tx_steps X dr tx cid) d"
proof (cases "tx_kind tx = KindRefund \<or> tx_kind tx = KindRollback")
  case False
  then have "refers d' tx None" for d' by (simp add: refers_def)
  with assms False show ?thesis by (simp add: process_tx_steps_def safe_processMovement_steps)
next
  case k: True
  have "safe X R G anything (andThen (atomically (FindByProviderAndExternalID X (tx_providerID tx) refExt))
      (processReferenced_steps X dr tx cid)) d" for refExt
  proof (rule safe_read [OF reads_finds(4)])
    fix d' faults r s
    assume r: "R d d'" "sound X d'"
      and f: "FindByProviderAndExternalID X (tx_providerID tx) refExt (on_pool d' faults) = (r, s)"
    show "safe X R G anything (processReferenced_steps X dr tx cid r) d'"
      using open_stable [OF assms r(1)] r(2) k
    proof (rule safe_processReferenced_steps)
      fix ref assume "r = Inr ref"
      with f show "\<exists>row\<in>set (db_wagers d'). ref = tx_of row" by (auto elim!: find_wager_InrE)
    qed
  qed
  with k show ?thesis by (auto simp: process_tx_steps_def split: option.split)
qed

lemma safe_Submit_steps:
  assumes "\<And>c. NewTransaction (dr_tx_id dr) (dr_tx_now dr) (candidate_input i) = Inr c \<Longrightarrow> W c d"
  shows "safe X R G anything (Submit_steps X dr i) d"
  unfolding Submit_steps_def
proof (rule safe_liftS)
  fix c
  assume "NewTransaction (dr_tx_id dr) (dr_tx_now dr) (candidate_input i) = Inr c"
  then have W: "W c d" by (rule assms)
  have rest: "safe X R G anything (case r of
       Inl e \<Rightarrow> if e = AppE ErrWagerTransactionAlreadyExists
         then andThen (atomically (FindByProviderAndExternalID X (si_ProviderID i) (si_ExternalTransactionID i))) (\<lambda>r.
           case r of Inl ferr \<Rightarrow> failS ferr | Inr winner \<Rightarrow> replay_steps X winner c)
         else failS e
     | Inr result \<Rightarrow> retS result) d" for r d
    by (auto split: sum.split intro!: safe_reading only_reads_andThen only_reads_atomically reads_finds
        only_reads_replay_steps guar_refl)
  show "safe X R G anything (andThen (atomically (FindByProviderAndExternalID X (si_ProviderID i) (si_ExternalTransactionID i))) (\<lambda>r.
     case r of
       Inl e \<Rightarrow>
         if e \<noteq> AppE ErrWagerTransactionNotFound then failS e
         else andThen (process_tx_steps X dr c (si_CorrelationID i)) (\<lambda>r.
           case r of
             Inl e \<Rightarrow>
               if e = AppE ErrWagerTransactionAlreadyExists
               then andThen (atomically (FindByProviderAndExternalID X (si_ProviderID i)
                   (si_ExternalTransactionID i))) (\<lambda>r.
                 case r of
                   Inl ferr \<Rightarrow> failS ferr
                 | Inr winner \<Rightarrow> replay_steps X winner c)
               else failS e
           | Inr result \<Rightarrow> retS result)
     | Inr existing \<Rightarrow> replay_steps X existing c)) d"
  proof (rule safe_read [OF reads_finds(4)], goal_cases)
    case (1 d' faults r s)
    have "safe X R G anything (process_tx_steps X dr c (si_CorrelationID i)) d'"
      using open_stable [OF W 1(1)] by (rule safe_process_tx_steps)
    then show ?case
      by (auto split: sum.split intro!: safe_andThen [OF _ rest] safe_reading only_reads_replay_steps guar_refl)
  qed
qed simp

end

section \<open>Jobs\<close>

text \<open>A job may draw a transaction identifier \<open>tx\<close> and a wallet identifier \<open>wl\<close>, and only the resolver
  (\<open>rs\<close>) writes transactions that are already there. What a job expects of the others, and what it
  promises.\<close>

definition rows_kept :: "db \<Rightarrow> db \<Rightarrow> bool" where
  "rows_kept d d' \<longleftrightarrow>
     (\<forall>i r. lookup_by wr_id i (db_wagers d) = Some r \<longrightarrow> lookup_by wr_id i (db_wagers d') = Some r)"

definition tx_absent :: "uuid \<Rightarrow> db \<Rightarrow> bool" where
  "tx_absent i d \<longleftrightarrow> lookup_by wr_id i (db_wagers d) = None"

definition wallet_absent :: "uuid \<Rightarrow> db \<Rightarrow> bool" where
  "wallet_absent i d \<longleftrightarrow> lookup_by wl_id i (db_wallets d) = None"

definition event_ids :: "draws \<Rightarrow> uuid set" where
  "event_ids dr = {ed_id (dr_event dr), ed_id (dr_event2 dr)}"

definition job_rely :: "uuid option \<Rightarrow> uuid option \<Rightarrow> uuid set \<Rightarrow> bool \<Rightarrow> db \<Rightarrow> db \<Rightarrow> bool" where
  "job_rely tx wl es rs d d' \<longleftrightarrow> tables_grow d d' \<and> final_kept d d' \<and> (rs \<longrightarrow> rows_kept d d') \<and>
     (\<forall>i. tx = Some i \<longrightarrow> tx_absent i d \<longrightarrow> tx_absent i d') \<and>
     (\<forall>i. wl = Some i \<longrightarrow> wallet_absent i d \<longrightarrow> wallet_absent i d') \<and>
     (\<forall>i\<in>es. event_absent i d \<longrightarrow> event_absent i d')"

definition job_guar :: "uuid option \<Rightarrow> uuid option \<Rightarrow> uuid set \<Rightarrow> bool \<Rightarrow> db \<Rightarrow> db \<Rightarrow> bool" where
  "job_guar tx wl es rs d d' \<longleftrightarrow> tables_grow d d' \<and> final_kept d d' \<and> (\<not> rs \<longrightarrow> rows_kept d d') \<and>
     (\<forall>i. tx \<noteq> Some i \<longrightarrow> tx_absent i d \<longrightarrow> tx_absent i d') \<and>
     (\<forall>i. wl \<noteq> Some i \<longrightarrow> wallet_absent i d \<longrightarrow> wallet_absent i d') \<and>
     (\<forall>i. i \<notin> es \<longrightarrow> event_absent i d \<longrightarrow> event_absent i d')"

lemma event_ids_fresh:
  assumes "fresh_events dr d" and "event_ids dr \<subseteq> es" and "job_rely tx wl es rs d d'"
  shows "fresh_events dr d'"
  using assms by (auto simp: fresh_events_def event_ids_def job_rely_def)

lemma events_from_ids: "events_from dr d d' \<Longrightarrow> event_ids dr \<subseteq> es \<Longrightarrow> i \<notin> es \<Longrightarrow> event_absent i d \<Longrightarrow> event_absent i d'"
  unfolding events_from_def event_ids_def by blast

lemma guar_rely:
  assumes "job_guar tx wl es rs d d'"
    and "tx = None \<or> tx \<noteq> tx'" "wl = None \<or> wl \<noteq> wl'" "es \<inter> es' = {}" "\<not> (rs \<and> rs')"
  shows "job_rely tx' wl' es' rs' d d'"
  using assms by (auto simp: job_guar_def job_rely_def)

lemma final_refl: "final_kept d d" "rows_kept d d" "tables_grow d d"
  by (simp_all add: final_kept_def rows_kept_def growth.law_refl)

lemma final_trans: "final_kept a b \<Longrightarrow> final_kept b c \<Longrightarrow> final_kept a c"
  by (simp add: final_kept_def)

lemma rows_kept_final: "rows_kept d d' \<Longrightarrow> final_kept d d'"
  by (simp add: rows_kept_def final_kept_def)

lemma job_rely_trans: "transp (job_rely tx wl es rs)"
proof (rule transpI)
  fix a b c assume ab: "job_rely tx wl es rs a b" and bc: "job_rely tx wl es rs b c"
  then have "tables_grow a c" "final_kept a c"
    unfolding job_rely_def using growth.law_trans final_trans by blast+
  with ab bc show "job_rely tx wl es rs a c" by (simp add: job_rely_def rows_kept_def)
qed

lemma job_guar_refl: "job_guar tx wl es rs d d"
  by (simp add: job_guar_def final_refl)

text \<open>Writing a new transaction.\<close>

lemma new_row_guar:
  assumes "tx_absent i d" and "others_kept i d d'" and "tables_grow d d'"
    and "\<And>w. wl \<noteq> Some w \<Longrightarrow> wallet_absent w d \<Longrightarrow> wallet_absent w d'"
    and "\<And>e. e \<notin> es \<Longrightarrow> event_absent e d \<Longrightarrow> event_absent e d'"
  shows "job_guar (Some i) wl es False d d'"
proof -
  have rows: "rows_kept d d'"
    unfolding rows_kept_def
  proof (intro allI impI)
    fix j r assume r: "lookup_by wr_id j (db_wagers d) = Some r"
    with assms(1) have "j \<noteq> i" by (auto simp: tx_absent_def)
    with assms(2) r show "lookup_by wr_id j (db_wagers d') = Some r" by (simp add: others_kept_def)
  qed
  with assms show ?thesis by (auto simp: job_guar_def rows_kept_final others_kept_def tx_absent_def)
qed

lemma settled_new_guar:
  assumes "settlement X dr tx d d'" and "tx_id tx = i" and "tx_absent i d" and "tables_grow d d'"
  shows "job_guar (Some i) wl (event_ids dr) False d d'"
  using settlement_frame [OF assms(1)] assms(2-4) events_from_ids [of dr d d' "event_ids dr"]
  by (intro new_row_guar) (simp_all add: no_new_wallet_def wallet_absent_def)

interpretation filing: settling X dr "job_rely (Some i) wl (event_ids dr) False" "job_guar (Some i) wl (event_ids dr) False"
  "\<lambda>tx d. tx_id tx = i \<and> tx_absent i d \<and> fresh_events dr d"
proof unfold_locales
  fix a b :: transaction and d :: db
  assume "tx_core a = tx_core b" and "tx_id a = i \<and> tx_absent i d \<and> fresh_events dr d"
  then show "tx_id b = i \<and> tx_absent i d \<and> fresh_events dr d" using tx_core_eqD(1) [of a b] by simp
next
  fix tx d d'
  assume a: "tx_id tx = i \<and> tx_absent i d \<and> fresh_events dr d" and r: "job_rely (Some i) wl (event_ids dr) False d d'"
  with event_ids_fresh [of dr d "event_ids dr"] show "tx_id tx = i \<and> tx_absent i d' \<and> fresh_events dr d'"
    by (auto simp: job_rely_def)
qed (simp_all add: job_rely_trans job_guar_refl settled_new_guar, simp_all add: job_rely_def writable_new tx_absent_def)

text \<open>Writing a parked transaction again.\<close>

definition parked_row :: "external \<Rightarrow> transaction \<Rightarrow> db \<Rightarrow> bool" where
  "parked_row X tx d \<longleftrightarrow> \<not> tx_absent (tx_id tx) d \<and> writable d (wager_row_of X tx)"

lemma parked_row_kept:
  assumes "parked_row X tx d" and "lookup_by wr_id (tx_id tx) (db_wagers d') = lookup_by wr_id (tx_id tx) (db_wagers d)"
  shows "parked_row X tx d'"
  using assms by (simp add: parked_row_def tx_absent_def writable_def wager_row_of_def)

lemma parked_row_guar:
  assumes "parked_row X tx d" and "others_kept (tx_id tx) d d'" and "tables_grow d d'" and "no_new_wallet d d'"
    and "\<And>e. e \<notin> es \<Longrightarrow> event_absent e d \<Longrightarrow> event_absent e d'"
  shows "job_guar None None es True d d'"
proof -
  have "final_kept d d'"
    unfolding final_kept_def
  proof (intro allI impI)
    fix j r assume r: "lookup_by wr_id j (db_wagers d) = Some r" "TxStatus_IsTerminal (wr_status r)"
    with assms(1) have "j \<noteq> tx_id tx" by (auto simp: parked_row_def writable_def wager_row_of_def)
    with assms(2) r(1) show "lookup_by wr_id j (db_wagers d') = Some r" by (simp add: others_kept_def)
  qed
  moreover have "tx_absent j d'" if "tx_absent j d" for j
  proof -
    from that assms(1) have "j \<noteq> tx_id tx" by (auto simp: parked_row_def)
    with assms(2) that show ?thesis by (simp add: others_kept_def tx_absent_def)
  qed
  ultimately show ?thesis using assms(3-5) by (simp add: job_guar_def no_new_wallet_def wallet_absent_def)
qed

text \<open>What the resolution of one item writes: the item, and events drawn for it.\<close>

definition item_guar :: "uuid \<Rightarrow> draws \<Rightarrow> uuid set \<Rightarrow> db \<Rightarrow> db \<Rightarrow> bool" where
  "item_guar i dr es d d' \<longleftrightarrow> job_guar None None es True d d' \<and> others_kept i d d' \<and> events_from dr d d'"

interpretation reviving: settling X dr "job_rely None None es True" "item_guar i dr es"
  "\<lambda>tx d. tx_id tx = i \<and> parked_row X tx d \<and> fresh_events dr d \<and> event_ids dr \<subseteq> es"
proof unfold_locales
  fix a b :: transaction and d
  assume core: "tx_core a = tx_core b" and "tx_id a = i \<and> parked_row X a d \<and> fresh_events dr d \<and> event_ids dr \<subseteq> es"
  then have a: "tx_id a = i" "\<not> tx_absent i d" "writable d (wager_row_of X a)" "fresh_events dr d \<and> event_ids dr \<subseteq> es"
    by (auto simp: parked_row_def)
  from a(3) have "writable d (wager_row_of X b)" by (simp only: writable_core [OF core])
  with a(1,2,4) show "tx_id b = i \<and> parked_row X b d \<and> fresh_events dr d \<and> event_ids dr \<subseteq> es"
    using tx_core_eqD(1) [OF core] by (simp add: parked_row_def)
next
  fix tx d d'
  assume a: "tx_id tx = i \<and> parked_row X tx d \<and> fresh_events dr d \<and> event_ids dr \<subseteq> es" and r: "job_rely None None es True d d'"
  moreover from this have "lookup_by wr_id i (db_wagers d') = lookup_by wr_id i (db_wagers d)"
    by (auto simp: job_rely_def rows_kept_def parked_row_def tx_absent_def)
  ultimately show "tx_id tx = i \<and> parked_row X tx d' \<and> fresh_events dr d' \<and> event_ids dr \<subseteq> es"
    using parked_row_kept [of X tx d d'] event_ids_fresh [of dr d es] by blast
next
  fix tx d d'
  assume a: "tx_id tx = i \<and> parked_row X tx d \<and> fresh_events dr d \<and> event_ids dr \<subseteq> es"
    and s: "settlement X dr tx d d'" and g: "tables_grow d d'"
  note F = settlement_frame [OF s]
  have "job_guar None None es True d d'"
  proof (rule parked_row_guar [OF _ F(1) g F(2)])
    show "parked_row X tx d" using a by blast
    show "event_absent e d'" if "e \<notin> es" "event_absent e d" for e using events_from_ids [OF F(3)] a that by blast
  qed
  with a F show "item_guar i dr es d d'" by (simp add: item_guar_def)
qed (auto simp: job_rely_trans item_guar_def job_guar_refl job_rely_def parked_row_def others_kept_def events_from_def)

end
