(* ===== verification/Traffic.thy ===== *)
theory Traffic
  imports Concurrent Publishing
begin

text \<open>
  Every kind of job, a submission, a delivery of the consumer, the opening of a wallet, a run of the
  resolver and one of the outbox worker, is \<open>safe\<close> for the relations of \<open>Concurrent\<close>.
\<close>

section \<open>Submissions, resolutions, openings and publishing\<close>

lemma submission_safe:
  assumes "tx_absent (dr_tx_id dr) d" and "fresh_events dr d"
  shows "safe X (job_rely (Some (dr_tx_id dr)) None (event_ids dr) False)
    (job_guar (Some (dr_tx_id dr)) None (event_ids dr) False) anything (Submit_steps X dr i) d"
  using assms by (intro filing.safe_Submit_steps) (auto dest!: NewTransaction_Inr(1))

text \<open>The resolver: one parked transaction, then the snapshot.\<close>

lemma schedule_guar:
  assumes "ScheduleNextPendingReferenceRetry i nxt s = (r, t)"
  shows "job_guar None None es True (s_db s) (s_db t)"
proof -
  have "changes tables_grow (ScheduleNextPendingReferenceRetry i nxt)" by (rule growth.saves_change) simp
  then have g: "tables_grow (s_db s) (s_db t)" using assms by (rule changesD)
  let ?d = "s_db s" and ?d' = "(s_db s)\<lparr>db_wagers := map (reschedule i nxt) (db_wagers (s_db s))\<rparr>"
  have look: "lookup_by wr_id j (db_wagers ?d') = map_option (reschedule i nxt) (lookup_by wr_id j (db_wagers ?d))" for j
    by (simp add: lookup_by_map reschedule_def)
  have "s_db t = ?d \<or> s_db t = ?d'"
    using query_db [OF assms [unfolded ScheduleNextPendingReferenceRetry_def]] by (auto simp: reschedule_def [abs_def])
  moreover have "final_kept ?d ?d'"
    unfolding final_kept_def look by (auto simp: reschedule_def TxStatus_IsTerminal_def)
  ultimately show ?thesis
    using g by (auto simp: job_guar_def final_refl tx_absent_def look [simplified] wallet_absent_def event_absent_def)
qed

lemma schedule_item:
  assumes m: "ScheduleNextPendingReferenceRetry i nxt s = (r, t)" and s: "sound X (s_db s)"
  shows "item_guar i dr es (s_db s) (s_db t) \<and> sound X (s_db t)"
proof -
  have "changes (others_kept i) (ScheduleNextPendingReferenceRetry i nxt)" by (rule others.saves_change) simp
  from changesD [OF this m] have "others_kept i (s_db s) (s_db t)" .
  moreover have "events_from dr (s_db s) (s_db t)"
    using schedule_guar [OF m, of "{}"] by (simp add: events_from_def job_guar_def)
  ultimately show ?thesis
    using schedule_guar [OF m] ScheduleNext_books [OF m] ScheduleNext_announced [OF m] s by (simp add: item_guar_def sound_def)
qed

lemma resolveOne_safe:
  assumes "parked_row X (fst item) d" and "fresh_events (rd_draws rd) d" and "event_ids (rd_draws rd) \<subseteq> es"
  shows "safe X (job_rely None None es True) (item_guar (tx_id (fst item)) (rd_draws rd) es) anything (resolveOne_steps X rs rd now item) d"
proof -
  let ?i = "tx_id (fst item)"
  have sched: "safe X (job_rely None None es True) (item_guar ?i (rd_draws rd) es) anything
      (bindS (atomically (ScheduleNextPendingReferenceRetry ?i nxt)) (\<lambda>_. retS StillPending)) d" for nxt d
    unfolding bindS_def
  proof (rule safe_call)
    fix d' faults r s
    assume b: "sound X d'" and m: "ScheduleNextPendingReferenceRetry ?i nxt (on_pool d' faults) = (r, s)"
    from schedule_item [OF m] b show "item_guar ?i (rd_draws rd) es d' (s_db s) \<and> sound X (s_db s) \<and>
        safe X (job_rely None None es True) (item_guar ?i (rd_draws rd) es) anything
        (case r of Inl e \<Rightarrow> Finished (Inl e) | Inr x \<Rightarrow> retS StillPending) (s_db s)"
      by (auto split: sum.split)
  qed
  show ?thesis
    unfolding resolveOne_steps_def Let_def bindS_def [of "reject_steps _ _ _ _ _"] bindS_def [of "process_tx_steps _ _ _ _"]
    using assms sched
    by (auto intro!: safe_andThen [OF reviving.safe_reject_steps] safe_andThen [OF reviving.safe_process_tx_steps]
        split: sum.split)
qed

text \<open>The items of a run are different rows, and their events have different identifiers.\<close>

definition all_event_ids :: "(nat \<Rightarrow> resolve_draws) \<Rightarrow> uuid set" where
  "all_event_ids rds = (\<Union>n. event_ids (rd_draws (rds n)))"

definition run_fresh :: "(nat \<Rightarrow> resolve_draws) \<Rightarrow> nat \<Rightarrow> db \<Rightarrow> bool" where
  "run_fresh rds n d \<longleftrightarrow> (\<forall>k\<ge>n. fresh_events (rd_draws (rds k)) d)"

definition separate :: "(nat \<Rightarrow> resolve_draws) \<Rightarrow> bool" where
  "separate rds \<longleftrightarrow> (\<forall>k n. k \<noteq> n \<longrightarrow> event_ids (rd_draws (rds k)) \<inter> event_ids (rd_draws (rds n)) = {})"

lemma ids_all: "event_ids (rd_draws (rds n)) \<subseteq> all_event_ids rds"
  by (auto simp: all_event_ids_def)

lemma run_fresh_rely: "run_fresh rds n d \<Longrightarrow> job_rely tx wl (all_event_ids rds) rs d d' \<Longrightarrow> run_fresh rds n d'"
  using event_ids_fresh [OF _ ids_all] unfolding run_fresh_def by blast

lemma run_fresh_Suc:
  assumes "run_fresh rds (Suc n) d" and "separate rds" and "events_from (rd_draws (rds n)) d d'"
  shows "run_fresh rds (Suc n) d'"
  unfolding run_fresh_def
proof (intro allI impI)
  fix k assume k: "Suc n \<le> k"
  then have "event_ids (rd_draws (rds k)) \<inter> event_ids (rd_draws (rds n)) = {}" using assms(2) by (simp add: separate_def)
  moreover have "fresh_events (rd_draws (rds k)) d" using assms(1) k by (simp add: run_fresh_def)
  ultimately show "fresh_events (rd_draws (rds k)) d'"
    using assms(3) by (auto simp: event_ids_def fresh_events_def events_from_def)
qed

lemma resolve_items_safe:
  assumes "distinct (map (tx_id \<circ> fst) items)" and "\<And>item. item \<in> set items \<Longrightarrow> parked_row X (fst item) d"
    and "run_fresh rds n d" and sep: "separate rds"
  shows "safe X (job_rely None None (all_event_ids rds) True) (job_guar None None (all_event_ids rds) True) anything
    (resolve_items_steps X rs rds n now items) d"
  using assms(1-3)
proof (induction items arbitrary: n d)
  case (Cons item items)
  let ?F = "\<lambda>d. (\<forall>it\<in>set items. parked_row X (fst it) d) \<and> run_fresh rds (Suc n) d"
  let ?R = "job_rely None None (all_event_ids rds) True"
  let ?G = "item_guar (tx_id (fst item)) (rd_draws (rds n)) (all_event_ids rds)"
  have new: "tx_id (fst it) \<noteq> tx_id (fst item)" if "it \<in> set items" for it
  proof -
    have "tx_id (fst it) \<in> (\<lambda>x. tx_id (fst x)) ` set items" using that by blast
    moreover have "tx_id (fst item) \<notin> (\<lambda>x. tx_id (fst x)) ` set items" using Cons.prems(1) by (simp add: comp_def)
    ultimately show ?thesis by metis
  qed
  have "safe X ?R ?G (\<lambda>x d. anything x d \<and> ?F d) (resolveOne_steps X rs (rds n) now item) d"
  proof (rule safe_frame)
    have "fresh_events (rd_draws (rds n)) d" using Cons.prems(3) by (simp add: run_fresh_def)
    then show "safe X ?R ?G anything (resolveOne_steps X rs (rds n) now item) d"
      using Cons.prems(2) ids_all by (intro resolveOne_safe) simp_all
    show "?F d" using Cons.prems(2,3) by (simp add: run_fresh_def)
    show "?F b" if F: "?F a" and R: "?R a b" for a b
    proof
      show "run_fresh rds (Suc n) b" using run_fresh_rely [OF conjunct2 [OF F] R] .
      have "lookup_by wr_id (tx_id (fst it)) (db_wagers b) = lookup_by wr_id (tx_id (fst it)) (db_wagers a)"
        if "it \<in> set items" for it
        using F R that by (auto simp: job_rely_def rows_kept_def parked_row_def tx_absent_def)
      then show "\<forall>it\<in>set items. parked_row X (fst it) b" using F parked_row_kept by blast
    qed
    show "?F b" if F: "?F a" and G: "?G a b" for a b
    proof
      show "run_fresh rds (Suc n) b" using run_fresh_Suc [OF conjunct2 [OF F] sep] G by (simp add: item_guar_def)
      have "others_kept (tx_id (fst item)) a b" using G by (simp add: item_guar_def)
      then have "lookup_by wr_id (tx_id (fst it)) (db_wagers b) = lookup_by wr_id (tx_id (fst it)) (db_wagers a)"
        if "it \<in> set items" for it
        using new [OF that] unfolding others_kept_def by blast
      then show "\<forall>it\<in>set items. parked_row X (fst it) b" using F parked_row_kept by blast
    qed
  qed
  then have "safe X ?R (job_guar None None (all_event_ids rds) True) (\<lambda>x. ?F) (resolveOne_steps X rs (rds n) now item) d"
    by (rule safe_weaken) (simp_all add: item_guar_def)
  then show ?case
    unfolding resolve_items_steps.simps bindS_def
    by (rule safe_andThen) (use Cons.IH Cons.prems(1) in \<open>auto split: sum.split\<close>)
qed simp

lemma resolver_safe:
  assumes fresh: "run_fresh rds 0 d" and sep: "separate rds"
  shows "safe X (job_rely None None (all_event_ids rds) True) (job_guar None None (all_event_ids rds) True) anything
    (ResolveDue_steps X rs rds now limit) d"
    (is "safe X ?R ?G _ _ _")
  unfolding ResolveDue_steps_def bindS_def
proof (rule safe_call)
  fix d' faults r s
  assume R: "?R d d'" and b: "sound X d'" and m: "FindDuePendingReferences X now limit (on_pool d' faults) = (r, s)"
  note b2 = booksD(2) [OF soundD(1) [OF b]]
  have s: "s_db s = d'"
    using m by (auto simp: FindDuePendingReferences_def bindE_def split: prod.splits sum.splits dest: query_read_db)
  have "safe X ?R ?G anything (resolve_items_steps X rs rds 0 now items) d'"
    if items: "r = Inr items" for items
  proof -
    obtain rows where items: "items = map (\<lambda>r. (tx_of r, wr_attempts r)) rows" and
      rows: "rows = take (nat (sint limit)) (sort_key wr_created_at (filter (is_due_row now) (db_wagers d')))"
      using m [unfolded items] by (auto elim: FindDue_InrE)
    note due = due_rows [OF b2 rows]
    show ?thesis
    proof (rule resolve_items_safe [OF _ _ run_fresh_rely [OF fresh R] sep])
      show "distinct (map (tx_id \<circ> fst) items)" using due(1) by (simp add: items comp_def tx_of_def)
      fix item assume "item \<in> set items"
      then obtain row where row: "row \<in> set rows" "item = (tx_of row, wr_attempts row)" by (auto simp: items)
      with due(2) have "row \<in> set (db_wagers d')" "wr_status row = TxStatusPendingReference" by blast+
      with b2 open_row [of d' row] lookup_by_eqI [of wr_id "db_wagers d'" row] row(2)
      show "parked_row X (fst item) d'"
        by (simp add: parked_row_def open_item_def tx_absent_def tx_of_def)
    qed
  qed
  with b show "?G d' (s_db s) \<and> sound X (s_db s) \<and>
      safe X ?R ?G anything
        (case r of Inl e \<Rightarrow> Finished (Inl e) | Inr items \<Rightarrow>
           andThen (resolve_items_steps X rs rds 0 now items) (\<lambda>r. case r of Inl e \<Rightarrow> Finished (Inl e)
             | Inr u \<Rightarrow> retS (length items))) (s_db s)"
    unfolding s by (auto simp: job_guar_refl split: sum.split intro!: safe_andThen)
qed

text \<open>Opening a wallet.\<close>

lemma put_wallet_guar:
  assumes "s_db t = s_db s \<or> s_db t = put_wallet (wallet_row_of w) (s_db s)" and "tables_grow (s_db s) (s_db t)"
    and "tx_absent i (s_db s)"
  shows "job_guar (Some i) (Some (w_id w)) es False (s_db s) (s_db t)"
  using assms
  by (intro new_row_guar) (auto simp: others_kept_def wallet_absent_def wallets.lookup_upsert wallet_row_of_def)

definition opening_event_ids :: "create_draws \<Rightarrow> uuid set" where
  "opening_event_ids cd = {ed_id (cd_event cd), ed_id (cd_event2 cd)}"

definition fresh_opening :: "create_draws \<Rightarrow> db \<Rightarrow> bool" where
  "fresh_opening cd d \<longleftrightarrow> tx_absent (cd_tx_id cd) d \<and> event_absent (ed_id (cd_event cd)) d \<and>
     event_absent (ed_id (cd_event2 cd)) d \<and> ed_id (cd_event cd) \<noteq> ed_id (cd_event2 cd)"

lemma fresh_opening_rely:
  "fresh_opening cd d \<Longrightarrow> job_rely (Some (cd_tx_id cd)) wl (opening_event_ids cd) rs d d' \<Longrightarrow> fresh_opening cd d'"
  by (simp add: fresh_opening_def opening_event_ids_def job_rely_def)

lemma opening_transaction:
  assumes run: "WithinTx (bindE (Wallet_Save w) (\<lambda>_. bindE (Wager_Save X tx) (\<lambda>_.
      bindE (SaveLedgerEntry entry) (\<lambda>_. SaveAll [e1, e2])))) s = (r, t)" and s: "s_tx s = NoTx"
    and new: "fresh_opening cd (s_db s)" "tx_id tx = cd_tx_id cd"
    and ids: "oe_id e1 = ed_id (cd_event cd)" "oe_id e2 = ed_id (cd_event2 cd)"
    and told: "tells X tx e1" "tells_balance X (ledger_row_of entry) e2"
    and b: "announced X (s_db s)" "distinct (map wr_id (db_wagers (s_db s)))"
  shows "job_guar (Some (cd_tx_id cd)) (Some (w_id w)) (opening_event_ids cd) False (s_db s) (s_db t) \<and> announced X (s_db t)"
proof -
  let ?body = "bindE (Wallet_Save w) (\<lambda>_. bindE (Wager_Save X tx) (\<lambda>_. bindE (SaveLedgerEntry entry) (\<lambda>_. SaveAll [e1, e2])))"
  let ?d = "add_ledger (ledger_row_of entry) (put_wager (wager_row_of X tx) (put_wallet (wallet_row_of w) (s_db s)))"
  have g: "changes tables_grow (WithinTx ?body)"
    by (intro growth.WithinTx_changes growth.bindE_changes growth.saves_change TrueI)
  have "settled s r" using s by (simp add: settled_def)
  with run have "s_db t = s_db s \<or> s_db t = put_outbox [e1, e2] ?d"
    by (rule WithinTx_settled)
      (auto elim!: bindE_InrE Wallet_Save_InrE Wager_Save_InrE SaveLedgerEntry_InrE SaveAll_InrE simp del: SaveAll.simps)
  then show ?thesis
  proof
    assume t: "s_db t = put_outbox [e1, e2] ?d"
    have "job_guar (Some (cd_tx_id cd)) (Some (w_id w)) (opening_event_ids cd) False (s_db s) (s_db t)"
      using new ids changesD [OF g run] unfolding t
      by (intro new_row_guar) (auto simp: others_kept_def wallet_absent_def fresh_opening_def opening_event_ids_def
          wagers.lookup_upsert wallets.lookup_upsert wager_row_of_def wallet_row_of_def)
    moreover have "announced X (s_db t)"
      using new ids unfolding t
      by (intro opening_announced [OF b _ told]) (simp_all add: fresh_opening_def tx_absent_def)
    ultimately show ?thesis ..
  qed (use b in \<open>simp add: job_guar_refl\<close>)
qed

lemma openWallet_safe:
  assumes "fresh_opening cd d" and "wallet_absent (w_id w) d" and "w_balance w = cw_InitialBalance input"
  shows "safe X (job_rely (Some (cd_tx_id cd)) (Some (w_id w)) (opening_event_ids cd) False)
    (job_guar (Some (cd_tx_id cd)) (Some (w_id w)) (opening_event_ids cd) False) anything (openWallet_steps X cd input w) d"
  unfolding openWallet_steps_def Let_def
proof (intro safe_liftS)
  fix tx entry e1 e2
  assume opened: "NewOpeningTransaction (cd_tx_id cd) (cd_tx_now cd)
       \<lparr>no_PlayerID = cw_PlayerID input, no_WalletID = w_id w, no_Amount = cw_InitialBalance input\<rparr> = Inr tx"
      "NewLedgerEntry (cd_entry_id cd) (cd_entry_now cd)
       \<lparr>nle_WalletID = w_id w, nle_TransactionID = tx_id tx, nle_Direction = DirectionCredit,
        nle_Amount = cw_InitialBalance input,
        nle_BalanceBefore = Currency_Zero (m_currency (cw_InitialBalance input)),
        nle_BalanceAfter = cw_InitialBalance input\<rparr> = Inr entry"
      "newWagerTransactionProcessedEvent X (cd_event cd) tx (cw_CorrelationID input) = Inr e1"
      "newWalletBalanceChangedEvent X (cd_event2 cd) w entry (cw_CorrelationID input)
       (Some (x_uuid X (oe_id e1))) = Inr e2"
  have tx: "tx_id tx = cd_tx_id cd" "tx_status tx = TxStatusProcessed"
    using opened(1) by (auto simp: NewOpeningTransaction_def split: if_splits)
  have told: "tells X tx e1" "tells_balance X (ledger_row_of entry) e2"
    using built_tells(1) [OF opened(3) tx(2)] built_tells_balance [OF opened(4)] NewLedgerEntry_Inr(2) [OF opened(2)] by simp_all
  have ids: "oe_id e1 = ed_id (cd_event cd)" "oe_id e2 = ed_id (cd_event2 cd)"
    using built_id(1) [OF opened(3)] built_id(4) [OF opened(4)] by simp_all
  let ?R = "job_rely (Some (cd_tx_id cd)) (Some (w_id w)) (opening_event_ids cd) False"
    and ?G = "job_guar (Some (cd_tx_id cd)) (Some (w_id w)) (opening_event_ids cd) False"
  let ?m = "WithinTx (bindE (Wallet_Save w) (\<lambda>_. bindE (Wager_Save X tx) (\<lambda>_.
      bindE (SaveLedgerEntry entry) (\<lambda>_. SaveAll [e1, e2]))))"
  show "safe X ?R ?G anything (bindS (atomically ?m) (\<lambda>_. retS w)) d"
    unfolding bindS_def
  proof (rule safe_call)
    fix d' faults r s
    assume r: "?R d d'" "sound X d'" and m: "?m (on_pool d' faults) = (r, s)"
    have new: "fresh_opening cd d'" "wallet_absent (w_id w) d'"
      using fresh_opening_rely [OF assms(1) r(1)] assms(2) r(1) by (simp_all add: job_rely_def)
    have "?G d' (s_db s) \<and> announced X (s_db s)"
      using opening_transaction [OF m _ _ tx(1) ids told] new(1) soundD [OF r(2)] booksD(2) by simp
    moreover have "openWallet X cd input w (on_pool d' faults) = (map_sum id (\<lambda>_. w) r, s)"
      using m opened by (cases r) (simp_all add: openWallet_def Let_def bindE_def del: SaveAll.simps)
    then have "books (s_db s)"
      by (rule openWallet_books)
        (use soundD(1) [OF r(2)] new assms(3) in \<open>simp_all add: tx_absent_def wallet_absent_def fresh_opening_def\<close>)
    ultimately show "?G d' (s_db s) \<and> sound X (s_db s) \<and>
        safe X ?R ?G anything (case r of Inl e \<Rightarrow> Finished (Inl e) | Inr x \<Rightarrow> retS w) (s_db s)"
      by (auto split: sum.split simp: sound_def)
  qed
qed simp_all

lemma opening_safe:
  assumes "fresh_opening cd d" and "wallet_absent (cd_wallet_id cd) d"
  shows "safe X (job_rely (Some (cd_tx_id cd)) (Some (cd_wallet_id cd)) (opening_event_ids cd) False)
    (job_guar (Some (cd_tx_id cd)) (Some (cd_wallet_id cd)) (opening_event_ids cd) False) anything (Create_steps X cd input) d"
    (is "safe X ?R ?G _ _ _")
  unfolding Create_steps_def
proof (rule safe_one_read [OF reads_finds(2) job_guar_refl], goal_cases)
  case (1 d' faults r s)
  then have rely: "?R d d'" and b: "sound X d'" by simp_all
  have new: "fresh_opening cd d'" "wallet_absent (cd_wallet_id cd) d'"
    using fresh_opening_rely [OF assms(1) rely] assms(2) rely by (simp_all add: job_rely_def)
  have "safe X ?R ?G anything (if Money_IsZero (cw_InitialBalance input) then bindS (atomically (Wallet_Save w)) (\<lambda>_. retS w)
      else openWallet_steps X cd input w) d'"
    if w: "Wallet_New (cd_wallet_id cd) (cd_wallet_now cd) (cw_PlayerID input) (cw_InitialBalance input) = Inr w" for w
  proof -
    note W = Wallet_New_Inr [OF w]
    have "safe X ?R ?G anything (bindS (atomically (Wallet_Save w)) (\<lambda>_. retS w)) d'"
      if zero: "Money_IsZero (cw_InitialBalance input)"
      unfolding bindS_def
    proof (rule safe_call)
      fix d2 faults r s
      assume r: "?R d' d2" "sound X d2" and m: "Wallet_Save w (on_pool d2 faults) = (r, s)"
      have new2: "tx_absent (cd_tx_id cd) d2" "wallet_absent (cd_wallet_id cd) d2"
        using fresh_opening_rely [OF new(1) r(1)] new r(1) by (simp_all add: job_rely_def fresh_opening_def)
      have "changes tables_grow (Wallet_Save w)" by (rule growth.saves_change)
      from changesD [OF this m] have g: "tables_grow d2 (s_db s)" by simp
      have "?G d2 (s_db s)" using put_wallet_guar [OF Wallet_Save_db [OF m]] g new2(1) W by simp
      moreover have "books (s_db s)"
        using Wallet_Save_db [OF m] soundD(1) [OF r(2)] new2(2) W zero
        by (auto simp: Money_IsZero_def wallet_absent_def intro!: books_open)
      moreover have "announced X (s_db s)" using Wallet_Save_db [OF m] soundD(2) [OF r(2)] by auto
      ultimately show "?G d2 (s_db s) \<and> sound X (s_db s) \<and>
          safe X ?R ?G anything (case r of Inl e \<Rightarrow> Finished (Inl e) | Inr x \<Rightarrow> retS w) (s_db s)"
        by (auto split: sum.split simp: sound_def)
    qed
    with openWallet_safe [of cd d' w input X] new W show ?thesis by simp
  qed
  then show ?case by (auto intro!: safe_liftS split: sum.split)
qed

text \<open>A run of the outbox worker is one transaction.\<close>

lemma attempted_guar:
  assumes "e \<in> set (db_outbox d)" and "tables_grow d (put_event (attempted X send q base now e) d)"
  shows "job_guar None None {} False d (put_event (attempted X send q base now e) d)"
proof -
  have "oe_id (attempted X send q base now e) = oe_id e" by (simp add: attempted_def MarkPublished_def)
  moreover have "\<not> event_absent (oe_id e) d" using assms(1) by (auto simp: event_absent_def lookup_by_None_iff)
  ultimately have "event_absent i (put_event (attempted X send q base now e) d)" if "event_absent i d" for i
    using that by auto
  with assms(2) show ?thesis
    by (auto simp: job_guar_def rows_kept_def final_kept_def tx_absent_def wallet_absent_def)
qed

lemma publishing_safe:
  "safe X (job_rely None None {} False) (job_guar None None {} False) anything
     (atomically (RunOnce X send q base now_db now)) d"
proof (rule safe_atomically)
  fix d' faults r s
  assume b: "sound X d'" and m: "RunOnce X send q base now_db now (on_pool d' faults) = (r, s)"
  have g: "tables_grow d' (s_db s)" using changesD [OF growth.RunOnce_changes m] by simp
  from RunOnce_effect [OF m] consider "s_db s = d'"
    | e where "due now_db d' = Some e" "s_db s = put_event (attempted X send q base now e) d'" by auto
  then show "job_guar None None {} False d' (s_db s) \<and> sound X (s_db s) \<and> anything r (s_db s)"
  proof cases
    case (2 e)
    from attempted_guar [OF dueD(1) [OF 2(1)]] g b 2(2)
      books_put_outbox [of "[attempted X send q base now e]" d'] show ?thesis
      by (simp add: sound_def announced_put_event)
  qed (use b in \<open>simp add: job_guar_refl\<close>)
qed

section \<open>Deliveries\<close>

context table_law begin

lemma handle_body_changes:
  assumes "\<And>i. I i" and W: "\<And>q. wr_id q = dr_tx_id (hd_submit dw) \<Longrightarrow> W q"
  shows "changes R (handle_body X c dw entry mid h req)"
proof -
  have "changes R (Submit X (hd_submit dw) (message_input req (hd_correlationID dw)))"
    by (rule Submit_changes) (auto intro!: W dest!: NewTransaction_Inr(1) tx_core_eqD(1) simp: wager_row_of_def)
  then show ?thesis
    unfolding handle_body_def
    by (auto intro!: bindE_changes lift saves_change ret_changes liftE_changes assms(1) split: option.split)
qed

end

lemma handle_body_settlement:
  assumes run: "handle_body X c dw entry mid h req s = (Inr res, t)" and b: "sound X (s_db s)"
    and new: "tx_absent (dr_tx_id (hd_submit dw)) (s_db s)" "fresh_events (hd_submit dw) (s_db s)"
  shows "no_new_wallet (s_db s) (s_db t) \<and> events_from (hd_submit dw) (s_db s) (s_db t) \<and> announced X (s_db t)"
proof -
  from run obtain e s1 r2 s2 e' where first: "s_db s1 = s_db s \<or> s_db s1 = put_inbox e (s_db s)"
    and sub: "Submit X (hd_submit dw) (message_input req (hd_correlationID dw)) s1 = (Inr r2, s2)"
    and sv: "s_db t = put_inbox e' (s_db s2)"
    unfolding handle_body_def
    by (auto elim!: bindE_InrE split: option.splits dest!: Inbox_Save_InrE) blast+
  have s1: "announced X (s_db s1)" "db_wagers (s_db s1) = db_wagers (s_db s)" "db_wallets (s_db s1) = db_wallets (s_db s)"
    "db_outbox (s_db s1) = db_outbox (s_db s)"
    using first soundD(2) [OF b] by auto
  have "no_new_wallet (s_db s1) (s_db s2) \<and> events_from (hd_submit dw) (s_db s1) (s_db s2) \<and> announced X (s_db s2)"
  proof (cases "s_db s2 = s_db s1")
    case False
    from sub _ False show ?thesis
    proof (rule Submit_settlement)
      fix tx
      assume tx: "NewTransaction (dr_tx_id (hd_submit dw)) (dr_tx_now (hd_submit dw))
          (candidate_input (message_input req (hd_correlationID dw))) = Inr tx"
        and st: "settlement X (hd_submit dw) tx (s_db s1) (s_db s2)"
      have "lookup_by wr_id (tx_id tx) (db_wagers (s_db s1)) = None"
        using NewTransaction_Inr(1) [OF tx] new(1) s1(2) by (simp add: tx_absent_def)
      moreover have "fresh_events (hd_submit dw) (s_db s1)" using new(2) s1(4) by (simp add: fresh_events_def event_absent_def)
      moreover have "distinct (map wr_id (db_wagers (s_db s1)))" using booksD(2) [OF soundD(1) [OF b]] s1(2) by simp
      ultimately show ?thesis
        using settlement_frame [OF st] settlement_announced [OF st s1(1)] by (simp add: writable_new)
    qed (simp add: settled_def)
  qed (simp add: no_new_wallet_def events_from_def s1)
  with s1 show ?thesis unfolding sv by (simp add: no_new_wallet_def events_from_def event_absent_def)
qed

lemma delivery_transaction:
  assumes m: "WithinTx (handle_body X c dw entry mid h req) s = (r, t)" and s: "s_tx s = NoTx" and b: "sound X (s_db s)"
    and new: "tx_absent (dr_tx_id (hd_submit dw)) (s_db s)" "fresh_events (hd_submit dw) (s_db s)"
  shows "job_guar (Some (dr_tx_id (hd_submit dw))) None (event_ids (hd_submit dw)) False (s_db s) (s_db t) \<and> sound X (s_db t)"
proof -
  let ?i = "dr_tx_id (hd_submit dw)"
  have "changes (others_kept ?i) (WithinTx (handle_body X c dw entry mid h req))"
    by (intro others.WithinTx_changes others.handle_body_changes) simp_all
  then have o: "others_kept ?i (s_db s) (s_db t)" using m by (rule changesD)
  have "changes tables_grow (WithinTx (handle_body X c dw entry mid h req))"
    by (intro growth.WithinTx_changes growth.handle_body_changes) simp_all
  then have g: "tables_grow (s_db s) (s_db t)" using m by (rule changesD)
  have "settled s r" using s by (simp add: settled_def)
  with m have bt: "books (s_db t)"
    by (rule WithinTx_settled) (use soundD(1) [OF b] new handle_body_books in \<open>fastforce simp: tx_absent_def\<close>)+
  have "no_new_wallet (s_db s) (s_db t) \<and> events_from (hd_submit dw) (s_db s) (s_db t) \<and> announced X (s_db t)"
    using m \<open>settled s r\<close>
  proof (rule WithinTx_settled)
    fix s1 x t1
    assume "s_db s1 = s_db s" "s_db t = s_db t1" and "handle_body X c dw entry mid h req s1 = (Inr x, t1)"
    with handle_body_settlement [of X c dw entry mid h req s1 x t1] b new show ?thesis by simp
  qed (simp add: no_new_wallet_def events_from_def soundD(2) [OF b])
  with o g new bt events_from_ids [of "hd_submit dw" "s_db s" "s_db t" "event_ids (hd_submit dw)"] show ?thesis
    by (auto intro!: new_row_guar simp: no_new_wallet_def wallet_absent_def sound_def)
qed

lemma delivery_safe:
  assumes "cs_tx c" and "tx_absent (dr_tx_id (hd_submit dw)) d" and "fresh_events (hd_submit dw) d"
  shows "safe X (job_rely (Some (dr_tx_id (hd_submit dw))) None (event_ids (hd_submit dw)) False)
    (job_guar (Some (dr_tx_id (hd_submit dw))) None (event_ids (hd_submit dw)) False) anything
    (handle_db_steps X c dw mid h req) d"
    (is "safe X ?R ?G _ _ _")
  unfolding handle_db_steps_def
proof (rule safe_one_read [OF reads_finds(5) job_guar_refl], goal_cases)
  case (1 d1 faults r s)
  then have new: "tx_absent (dr_tx_id (hd_submit dw)) d1" "fresh_events (hd_submit dw) d1"
    using assms(2) event_ids_fresh [OF assms(3) subset_refl 1(1)] by (simp_all add: job_rely_def)
  have "safe X ?R ?G anything (bindS (atomically (withinTx c (handle_body X c dw entry mid h req))) (\<lambda>res. retS (Some res))) d1"
    for entry
    unfolding bindS_def withinTx_def
  proof (rule safe_call)
    fix d2 faults r s
    assume rely: "?R d1 d2" and b: "sound X d2"
      and m: "(if \<not> cs_tx c then handle_body X c dw entry mid h req else WithinTx (handle_body X c dw entry mid h req))
        (on_pool d2 faults) = (r, s)"
    have "tx_absent (dr_tx_id (hd_submit dw)) d2" "fresh_events (hd_submit dw) d2"
      using new(1) rely event_ids_fresh [OF new(2) subset_refl rely] by (simp_all add: job_rely_def)
    then show "?G d2 (s_db s) \<and> sound X (s_db s) \<and>
        safe X ?R ?G anything (case r of Inl e \<Rightarrow> Finished (Inl e) | Inr x \<Rightarrow> retS (Some x)) (s_db s)"
      using delivery_transaction [of X c dw entry mid h req "on_pool d2 faults" r s] assms(1) m b
      by (auto split: sum.split)
  qed
  then show ?case by (auto split: sum.split)
qed

end
