(* ===== verification/Service.thy ===== *)
theory Service
  imports Traffic
begin

text \<open>
  The service at work: a pool of jobs on shared tables. Its steps start a job, let one job do one
  round trip, or lose a job, as a crash does; the state of the driver at each round trip is
  arbitrary. Identifiers are drawn fresh, and one resolver runs at a time. The properties hold in
  every interleaving.
\<close>

section \<open>The pool\<close>

record job =
  jb_tx :: "uuid option"
  jb_wallet :: "uuid option"
  jb_events :: "uuid set"
  jb_resolver :: bool
  jb_steps :: "unit thread"

record service =
  sv_db :: db
  sv_jobs :: "job list"

definition new_job :: "uuid option \<Rightarrow> uuid option \<Rightarrow> uuid set \<Rightarrow> bool \<Rightarrow> 'a steps \<Rightarrow> job" where
  "new_job tx wl es rs t = \<lparr>jb_tx = tx, jb_wallet = wl, jb_events = es, jb_resolver = rs, jb_steps = andThen t (\<lambda>_. Finished ())\<rparr>"

definition start :: "job \<Rightarrow> service \<Rightarrow> service" where
  "start j s = s\<lparr>sv_jobs := j # sv_jobs s\<rparr>"

definition fresh_tx :: "service \<Rightarrow> uuid \<Rightarrow> bool" where
  "fresh_tx s i \<longleftrightarrow> tx_absent i (sv_db s) \<and> (\<forall>j\<in>set (sv_jobs s). jb_tx j \<noteq> Some i)"

definition fresh_wallet :: "service \<Rightarrow> uuid \<Rightarrow> bool" where
  "fresh_wallet s i \<longleftrightarrow> wallet_absent i (sv_db s) \<and> (\<forall>j\<in>set (sv_jobs s). jb_wallet j \<noteq> Some i)"

definition reserved :: "service \<Rightarrow> uuid set \<Rightarrow> bool" where
  "reserved s es \<longleftrightarrow> (\<forall>j\<in>set (sv_jobs s). jb_events j \<inter> es = {})"

definition fresh_draws :: "service \<Rightarrow> draws \<Rightarrow> bool" where
  "fresh_draws s dr \<longleftrightarrow> fresh_tx s (dr_tx_id dr) \<and> fresh_events dr (sv_db s) \<and> reserved s (event_ids dr)"

inductive service_step :: "external \<Rightarrow> service \<Rightarrow> service \<Rightarrow> bool" for X :: external where
  submits: "fresh_draws s dr \<Longrightarrow>
    service_step X s (start (new_job (Some (dr_tx_id dr)) None (event_ids dr) False (Submit_steps X dr input)) s)"
| receives: "cs_tx c \<Longrightarrow> fresh_draws s (hd_submit dw) \<Longrightarrow>
    service_step X s (start (new_job (Some (dr_tx_id (hd_submit dw))) None (event_ids (hd_submit dw)) False
      (handle_db_steps X c dw mid h req)) s)"
| opens: "fresh_tx s (cd_tx_id cd) \<Longrightarrow> fresh_wallet s (cd_wallet_id cd) \<Longrightarrow> fresh_opening cd (sv_db s) \<Longrightarrow>
    reserved s (opening_event_ids cd) \<Longrightarrow>
    service_step X s (start (new_job (Some (cd_tx_id cd)) (Some (cd_wallet_id cd)) (opening_event_ids cd) False
      (Create_steps X cd ci)) s)"
| resolves: "(\<forall>j\<in>set (sv_jobs s). \<not> jb_resolver j) \<Longrightarrow> run_fresh rds 0 (sv_db s) \<Longrightarrow> separate rds \<Longrightarrow>
    reserved s (all_event_ids rds) \<Longrightarrow>
    service_step X s (start (new_job None None (all_event_ids rds) True (ResolveDue_steps X rs rds now limit)) s)"
| publishes: "service_step X s
    (start (new_job None None {} False (atomically (RunOnce X send queueURL base now_db now))) s)"
| works: "sv_jobs s = us @ j # vs \<Longrightarrow> jb_steps j = Next f \<Longrightarrow> f (on_pool (sv_db s) faults) = (t, s') \<Longrightarrow>
    service_step X s \<lparr>sv_db = s_db s', sv_jobs = us @ j\<lparr>jb_steps := t\<rparr> # vs\<rparr>"
| ends: "sv_jobs s = us @ j # vs \<Longrightarrow> service_step X s (s\<lparr>sv_jobs := us @ vs\<rparr>)"

section \<open>The invariant\<close>

definition compatible :: "job \<Rightarrow> job \<Rightarrow> bool" where
  "compatible j k \<longleftrightarrow> (jb_tx j = None \<or> jb_tx j \<noteq> jb_tx k) \<and> (jb_wallet j = None \<or> jb_wallet j \<noteq> jb_wallet k) \<and>
     jb_events j \<inter> jb_events k = {} \<and> \<not> (jb_resolver j \<and> jb_resolver k)"

abbreviation job_promise :: "job \<Rightarrow> db \<Rightarrow> db \<Rightarrow> bool" where
  "job_promise j \<equiv> job_guar (jb_tx j) (jb_wallet j) (jb_events j) (jb_resolver j)"

definition job_safe :: "external \<Rightarrow> db \<Rightarrow> job \<Rightarrow> bool" where
  "job_safe X d j \<longleftrightarrow> safe X (job_rely (jb_tx j) (jb_wallet j) (jb_events j) (jb_resolver j))
     (job_promise j) anything (jb_steps j) d"

definition service_ok :: "external \<Rightarrow> service \<Rightarrow> bool" where
  "service_ok X s \<longleftrightarrow> sound X (sv_db s) \<and> (\<forall>j\<in>set (sv_jobs s). job_safe X (sv_db s) j) \<and> sorted_wrt compatible (sv_jobs s)"

lemma compatible_sym: "compatible j k \<longleftrightarrow> compatible k j"
  by (auto simp: compatible_def)

lemma compatible_steps: "compatible (j\<lparr>jb_steps := t\<rparr>) k = compatible j k"
  by (simp add: compatible_def)

lemma start_db [simp]: "sv_db (start j s) = sv_db s"
  by (simp add: start_def)

lemma sorted_wrt_middle:
  "sorted_wrt compatible (us @ j # vs) \<longleftrightarrow>
     sorted_wrt compatible (us @ vs) \<and> (\<forall>k\<in>set us \<union> set vs. compatible j k)"
  using compatible_sym by (auto simp: sorted_wrt_append)

lemma job_rely_refl: "job_rely tx wl es rs d d"
  by (simp add: job_rely_def final_refl)

lemma job_safe_others:
  assumes "job_safe X d k" and "job_promise j d d'" and "compatible j k"
  shows "job_safe X d' k"
proof -
  have "job_rely (jb_tx k) (jb_wallet k) (jb_events k) (jb_resolver k) d d'"
    using assms(3) by (intro guar_rely [OF assms(2)]) (auto simp: compatible_def)
  with assms(1) show ?thesis
    unfolding job_safe_def by (rule safe_rely) (simp_all add: job_rely_trans)
qed

lemma start_ok:
  assumes "service_ok X s" and "safe X (job_rely tx wl es rs) (job_guar tx wl es rs) anything t (sv_db s)"
    and "\<And>i. tx = Some i \<Longrightarrow> fresh_tx s i" and "\<And>i. wl = Some i \<Longrightarrow> fresh_wallet s i"
    and "reserved s es" and "rs \<Longrightarrow> \<forall>j\<in>set (sv_jobs s). \<not> jb_resolver j"
  shows "service_ok X (start (new_job tx wl es rs t) s)"
proof -
  have "job_safe X (sv_db s) (new_job tx wl es rs t)"
    using assms(2) by (auto simp: job_safe_def new_job_def intro: safe_andThen)
  moreover have "\<forall>k\<in>set (sv_jobs s). compatible (new_job tx wl es rs t) k"
    using assms(3-6) by (auto simp: compatible_def new_job_def fresh_tx_def fresh_wallet_def reserved_def)
  ultimately show ?thesis using assms(1) by (simp add: service_ok_def start_def)
qed

lemma work_ok:
  assumes ok: "service_ok X s" and jobs: "sv_jobs s = us @ j # vs" and j: "jb_steps j = Next f"
    and f: "f (on_pool (sv_db s) faults) = (t, s')"
  shows "job_promise j (sv_db s) (s_db s')"
    and "service_ok X \<lparr>sv_db = s_db s', sv_jobs = us @ j\<lparr>jb_steps := t\<rparr> # vs\<rparr>"
proof -
  have "job_safe X (sv_db s) j" and b: "sound X (sv_db s)" using ok jobs by (simp_all add: service_ok_def)
  from this(1) have "safe X (job_rely (jb_tx j) (jb_wallet j) (jb_events j) (jb_resolver j))
     (job_promise j) anything (Next f) (sv_db s)"
    by (simp add: job_safe_def j)
  from safe_NextD [OF this job_rely_refl b f]
  have g: "job_promise j (sv_db s) (s_db s')"
    and b': "sound X (s_db s')" and j': "job_safe X (s_db s') (j\<lparr>jb_steps := t\<rparr>)"
    by (simp_all add: job_safe_def)
  have c: "sorted_wrt compatible (us @ vs)" "\<forall>k\<in>set us \<union> set vs. compatible j k"
    using ok jobs by (simp_all add: service_ok_def sorted_wrt_middle)
  have "job_safe X (s_db s') k" if k: "k \<in> set us \<union> set vs" for k
  proof (rule job_safe_others [OF _ g])
    show "job_safe X (sv_db s) k" using ok jobs k by (auto simp: service_ok_def)
    show "compatible j k" using c(2) k by blast
  qed
  with j' have "\<forall>k\<in>set (us @ j\<lparr>jb_steps := t\<rparr> # vs). job_safe X (s_db s') k" by auto
  moreover have "sorted_wrt compatible (us @ j\<lparr>jb_steps := t\<rparr> # vs)"
    unfolding sorted_wrt_middle compatible_steps using c by blast
  ultimately show "service_ok X \<lparr>sv_db = s_db s', sv_jobs = us @ j\<lparr>jb_steps := t\<rparr> # vs\<rparr>"
    unfolding service_ok_def service.select_convs using b' by blast
  show "job_promise j (sv_db s) (s_db s')" by (rule g)
qed

lemma service_step_ok:
  assumes "service_step X s s'" and "service_ok X s"
  shows "service_ok X s' \<and> tables_grow (sv_db s) (sv_db s') \<and> final_kept (sv_db s) (sv_db s')"
  using assms
proof (induction rule: service_step.induct)
  case (works s us j vs f faults t s')
  from work_ok [OF works(4,1-3)] show ?case by (simp add: job_guar_def)
next
  case (ends s us j vs)
  then show ?case by (simp add: service_ok_def sorted_wrt_middle final_refl)
qed (auto intro!: start_ok submission_safe delivery_safe opening_safe resolver_safe publishing_safe
    simp: final_refl fresh_draws_def, auto simp: fresh_tx_def fresh_wallet_def reserved_def)

lemma service_steps_ok:
  assumes "(service_step X)\<^sup>*\<^sup>* s s'" and "service_ok X s"
  shows "service_ok X s' \<and> tables_grow (sv_db s) (sv_db s') \<and> final_kept (sv_db s) (sv_db s')"
  using assms
proof (induction rule: rtranclp_induct)
  case (step t u)
  from step.IH [OF step.prems] service_step_ok [OF step.hyps(2)] show ?case
    using growth.law_trans final_trans by blast
qed (simp add: final_refl)

lemma idle_ok: "sound X (sv_db s) \<Longrightarrow> sv_jobs s = [] \<Longrightarrow> service_ok X s"
  by (simp add: service_ok_def)

section \<open>Properties\<close>

text \<open>Claim C1. The books are balanced in every interleaving: whatever submissions, deliveries, wallet
  openings, a resolver and outbox workers run at the same time, cut into their round trips in any
  order, with any failure of the driver at each of them and any job lost on the way.\<close>

theorem concurrent_work_keeps_books:
  assumes "sound X (sv_db s)" and "sv_jobs s = []" and "(service_step X)\<^sup>*\<^sup>* s s'"
  shows "books (sv_db s')"
  using service_steps_ok [OF assms(3) idle_ok [OF assms(1,2)]] by (simp add: service_ok_def sound_def)

text \<open>Claim C2. The outbox is complete in every interleaving, crashes included: every stored transaction
  has an event in the outbox that tells its present outcome with its content, and every ledger
  entry an event that tells the balance it left.\<close>

theorem concurrent_outbox_is_complete:
  assumes "sound X (sv_db s)" and "sv_jobs s = []" and "(service_step X)\<^sup>*\<^sup>* s s'"
  shows "(\<forall>q\<in>set (db_wagers (sv_db s')). \<exists>ev\<in>set (db_outbox (sv_db s')). tells X (tx_of q) ev) \<and>
    (\<forall>l\<in>set (db_ledger (sv_db s')). \<exists>ev\<in>set (db_outbox (sv_db s')). tells_balance X l ev)"
  using service_steps_ok [OF assms(3) idle_ok [OF assms(1,2)]] by (simp add: service_ok_def sound_def announced_def)

text \<open>Claim C3. Outcomes stand in every interleaving: from any state the service can be in, whatever runs
  next, a transaction that is processed, rejected or failed keeps its row as it is, and no wallet,
  ledger entry, transaction, event or inbox record is lost or rewritten.\<close>

theorem concurrent_outcomes_stand:
  assumes "sound X (sv_db s0)" and "sv_jobs s0 = []" and "(service_step X)\<^sup>*\<^sup>* s0 s" and "(service_step X)\<^sup>*\<^sup>* s s'"
  shows "final_kept (sv_db s) (sv_db s') \<and> tables_grow (sv_db s) (sv_db s')"
  using service_steps_ok [OF assms(4)] service_steps_ok [OF assms(3) idle_ok [OF assms(1,2)]] by simp

section \<open>Two refunds of one bet\<close>

text \<open>The job at a position does its next round trip, undisturbed.\<close>

definition tick :: "nat \<Rightarrow> service \<Rightarrow> service" where
  "tick n s =
     (if length (sv_jobs s) \<le> n then s
      else let j = sv_jobs s ! n in
        case jb_steps j of
          Finished u \<Rightarrow> s
        | Next f \<Rightarrow> (case f (on_pool (sv_db s) []) of
            (t, s') \<Rightarrow> \<lparr>sv_db = s_db s', sv_jobs = (sv_jobs s)[n := j\<lparr>jb_steps := t\<rparr>]\<rparr>))"

lemma tick_step: "(service_step X)\<^sup>*\<^sup>* s (tick n s)"
proof (cases "length (sv_jobs s) \<le> n")
  case False
  then have n: "n < length (sv_jobs s)" by simp
  show ?thesis
  proof (cases "jb_steps (sv_jobs s ! n)")
    case (Next f)
    obtain t s' where f: "f (on_pool (sv_db s) []) = (t, s')" by fastforce
    from service_step.works [OF id_take_nth_drop [OF n] Next f] n Next f show ?thesis
      by (simp add: tick_def Let_def upd_conv_take_nth_drop r_into_rtranclp)
  qed (simp add: tick_def)
qed (simp add: tick_def)

lemma ticks_step: "(service_step X)\<^sup>*\<^sup>* s (fold tick ns s)"
proof (induction ns arbitrary: s)
  case (Cons n ns)
  from tick_step Cons.IH show ?case by (simp add: rtranclp_trans [of _ s "tick n s"])
qed simp

lemma tick_jobs:
  "jb_tx ` set (sv_jobs (tick n s)) = jb_tx ` set (sv_jobs s)"
  "jb_events ` set (sv_jobs (tick n s)) = jb_events ` set (sv_jobs s)"
proof -
  have "map jb_tx (sv_jobs (tick n s)) = map jb_tx (sv_jobs s) \<and> map jb_events (sv_jobs (tick n s)) = map jb_events (sv_jobs s)"
    by (auto simp: tick_def Let_def list_eq_iff_nth_eq nth_list_update split: thread.split prod.split)
  from this [THEN conjunct1, THEN arg_cong [of _ _ set]] this [THEN conjunct2, THEN arg_cong [of _ _ set]]
  show "jb_tx ` set (sv_jobs (tick n s)) = jb_tx ` set (sv_jobs s)"
    "jb_events ` set (sv_jobs (tick n s)) = jb_events ` set (sv_jobs s)"
    by (simp_all del: map_eq_conv)
qed

lemma ticks_jobs:
  "jb_tx ` set (sv_jobs (fold tick ns s)) = jb_tx ` set (sv_jobs s)"
  "jb_events ` set (sv_jobs (fold tick ns s)) = jb_events ` set (sv_jobs s)"
  by (induction ns arbitrary: s) (simp_all add: tick_jobs)

lemma fresh_drawsI:
  assumes "tx_absent (dr_tx_id dr) (sv_db s)" and "fresh_events dr (sv_db s)"
    and "\<forall>t\<in>jb_tx ` set (sv_jobs s). t \<noteq> Some (dr_tx_id dr)" and "\<forall>es\<in>jb_events ` set (sv_jobs s). es \<inter> event_ids dr = {}"
  shows "fresh_draws s dr"
  using assms by (auto simp: fresh_draws_def fresh_tx_def reserved_def)

definition submission :: "draws \<Rightarrow> submit_input \<Rightarrow> service \<Rightarrow> service" where
  "submission dr i = start (new_job (Some (dr_tx_id dr)) None (event_ids dr) False (Submit_steps sample_external dr i))"

text \<open>From empty tables: a wallet is opened, a bet is placed, then two refunds of it run side by side.\<close>

definition draws_at :: "uuid \<Rightarrow> draws" where
  "draws_at n = sample_draws\<lparr>dr_tx_id := n, dr_entry_id := n + 1, dr_event := sample_draw\<lparr>ed_id := n + 2\<rparr>,
     dr_event2 := sample_draw\<lparr>ed_id := n + 3\<rparr>\<rparr>"

definition idle :: service where
  "idle = \<lparr>sv_db = no_tables, sv_jobs = []\<rparr>"

definition opened :: service where
  "opened = fold tick [0, 0] (start (new_job (Some 1) (Some 3) (opening_event_ids sample_create_draws) False
     (Create_steps sample_external sample_create_draws sample_create)) idle)"

definition bet_placed :: service where
  "bet_placed = fold tick [0, 0] (submission (draws_at 40) (sample_input KindBet ''bet-1'' 3000 None) opened)"

definition two_refunds :: service where
  "two_refunds =
     submission (draws_at 60) (sample_input KindRefund ''refund-2'' 3000 (Some ''bet-1''))
     (submission (draws_at 50) (sample_input KindRefund ''refund-1'' 3000 (Some ''bet-1'')) bet_placed)"

lemma sound_idle: "sound X (sv_db idle)" "sv_jobs idle = []"
  by (simp_all add: idle_def sound_def books_no_tables announced_def) (simp_all add: no_tables_def)

lemma opened_started: "(service_step sample_external)\<^sup>*\<^sup>* idle opened"
proof -
  have "fresh_tx idle (cd_tx_id sample_create_draws)" "fresh_wallet idle (cd_wallet_id sample_create_draws)"
    "fresh_opening sample_create_draws (sv_db idle)" "reserved idle (opening_event_ids sample_create_draws)"
    by (simp_all add: idle_def fresh_tx_def fresh_wallet_def fresh_opening_def reserved_def no_tables_def
        tx_absent_def wallet_absent_def event_absent_def sample_create_draws_def sample_draw_def)
  from service_step.opens [OF this]
  have "service_step sample_external idle (start (new_job (Some 1) (Some 3) (opening_event_ids sample_create_draws) False
     (Create_steps sample_external sample_create_draws sample_create)) idle)"
    by (simp add: sample_create_draws_def)
  then show ?thesis
    unfolding opened_def using ticks_step by (rule converse_rtranclp_into_rtranclp)
qed

lemma submission_started:
  assumes "(service_step sample_external)\<^sup>*\<^sup>* idle s" and "fresh_draws s dr"
  shows "(service_step sample_external)\<^sup>*\<^sup>* idle (submission dr i s)"
  using assms(1) service_step.submits [OF assms(2)] unfolding submission_def by (rule rtranclp.rtrancl_into_rtrancl)

lemma submission_jobs [simp]:
  "jb_tx ` set (sv_jobs (submission dr i s)) = insert (Some (dr_tx_id dr)) (jb_tx ` set (sv_jobs s))"
  "jb_events ` set (sv_jobs (submission dr i s)) = insert (event_ids dr) (jb_events ` set (sv_jobs s))"
  "sv_db (submission dr i s) = sv_db s"
  by (simp_all add: submission_def start_def new_job_def)

lemma opened_jobs [simp]:
  "jb_tx ` set (sv_jobs opened) = {Some 1}" "jb_events ` set (sv_jobs opened) = {opening_event_ids sample_create_draws}"
  unfolding opened_def ticks_jobs by (simp_all add: start_def new_job_def idle_def)

lemma bet_placed_jobs [simp]:
  "jb_tx ` set (sv_jobs bet_placed) = {Some 40, Some 1}"
  "jb_events ` set (sv_jobs bet_placed) = {event_ids (draws_at 40), opening_event_ids sample_create_draws}"
  unfolding bet_placed_def ticks_jobs by (simp_all add: draws_at_def)

lemma two_refunds_started: "(service_step sample_external)\<^sup>*\<^sup>* idle two_refunds"
proof -
  note draws = draws_at_def sample_draws_def sample_draw_def event_ids_def opening_event_ids_def sample_create_draws_def
  have "tx_absent (dr_tx_id (draws_at 40)) (sv_db opened)" "fresh_events (draws_at 40) (sv_db opened)"
    by code_simp+
  then have "fresh_draws opened (draws_at 40)"
    by (rule fresh_drawsI) (simp_all add: draws)
  from submission_started [OF opened_started this] ticks_step
  have bet: "(service_step sample_external)\<^sup>*\<^sup>* idle bet_placed"
    unfolding bet_placed_def by (rule rtranclp_trans)
  have "tx_absent (dr_tx_id (draws_at 50)) (sv_db bet_placed)" "fresh_events (draws_at 50) (sv_db bet_placed)"
    by code_simp+
  then have "fresh_draws bet_placed (draws_at 50)"
    by (rule fresh_drawsI) (simp_all add: draws)
  from submission_started [OF bet this]
  have one: "(service_step sample_external)\<^sup>*\<^sup>* idle
    (submission (draws_at 50) (sample_input KindRefund ''refund-1'' 3000 (Some ''bet-1'')) bet_placed)" .
  have "tx_absent (dr_tx_id (draws_at 60)) (sv_db bet_placed)" "fresh_events (draws_at 60) (sv_db bet_placed)"
    by code_simp+
  then have "fresh_draws (submission (draws_at 50) (sample_input KindRefund ''refund-1'' 3000 (Some ''bet-1'')) bet_placed)
      (draws_at 60)"
    by (intro fresh_drawsI) (simp_all add: draws)
  from submission_started [OF one this] show ?thesis unfolding two_refunds_def .
qed

text \<open>Both look up their key and the bet before either pays: one is paid, the other rejected.\<close>

theorem concurrent_work_keeps_books_witness:
  "books (sv_db (fold tick [0, 1, 0, 1, 0, 1] two_refunds)) \<and>
   map (\<lambda>r. (wr_external_transaction_id r, wr_status r)) (db_wagers (sv_db (fold tick [0, 1, 0, 1, 0, 1] two_refunds))) =
     [(None, TxStatusProcessed), (Some ''bet-1'', TxStatusProcessed),
      (Some ''refund-2'', TxStatusProcessed), (Some ''refund-1'', TxStatusRejected)]"
proof
  show "books (sv_db (fold tick [0, 1, 0, 1, 0, 1] two_refunds))"
    by (rule concurrent_work_keeps_books [OF sound_idle rtranclp_trans [OF two_refunds_started ticks_step]])
qed code_simp

text \<open>The outbox tells all four outcomes and the three movements.\<close>

theorem concurrent_outbox_is_complete_witness:
  "announced sample_external (sv_db (fold tick [0, 1, 0, 1, 0, 1] two_refunds)) \<and>
   map (\<lambda>e. (oe_eventType e, oe_aggregateID e)) (db_outbox (sv_db (fold tick [0, 1, 0, 1, 0, 1] two_refunds))) =
     [(''WagerTransactionProcessed'', 1), (''WalletBalanceChanged'', 3),
      (''WagerTransactionProcessed'', 40), (''WalletBalanceChanged'', 3),
      (''WagerTransactionProcessed'', 60), (''WalletBalanceChanged'', 3), (''WagerTransactionRejected'', 50)]"
proof
  show "announced sample_external (sv_db (fold tick [0, 1, 0, 1, 0, 1] two_refunds))"
    unfolding announced_def
    by (rule concurrent_outbox_is_complete [OF sound_idle rtranclp_trans [OF two_refunds_started ticks_step]])
qed code_simp

theorem concurrent_outcomes_stand_witness:
  "final_kept (sv_db (fold tick [0, 1, 0, 1, 0] two_refunds)) (sv_db (fold tick [0, 1, 0, 1, 0, 1] two_refunds)) \<and>
   wr_status (last (db_wagers (sv_db (fold tick [0, 1, 0, 1, 0] two_refunds)))) = TxStatusProcessed"
proof
  have "(service_step sample_external)\<^sup>*\<^sup>* (fold tick [0, 1, 0, 1, 0] two_refunds) (fold tick [0, 1, 0, 1, 0, 1] two_refunds)"
    using ticks_step [of sample_external "fold tick [0, 1, 0, 1, 0] two_refunds" "[1]"] by simp
  from concurrent_outcomes_stand [OF sound_idle rtranclp_trans [OF two_refunds_started ticks_step] this]
  show "final_kept (sv_db (fold tick [0, 1, 0, 1, 0] two_refunds)) (sv_db (fold tick [0, 1, 0, 1, 0, 1] two_refunds))"
    by simp
qed code_simp

end
