(* ===== verification/Keys.thy ===== *)
theory Keys
  imports Service
begin

text \<open>
  Idempotency keys under concurrency. A law of the tables that every statement obeys is obeyed by every
  round trip of every thread, hence by every step of the service. That no two transactions have one key
  is such a law, so a key never moves money twice.
\<close>

section \<open>Laws of the threads\<close>

primrec keeps :: "(db \<Rightarrow> db \<Rightarrow> bool) \<Rightarrow> 'a thread \<Rightarrow> bool" where
  "keeps R (Finished x) = True"
| "keeps R (Next f) = (\<forall>s. case map_prod (keeps R) id (f s) of (rest, s') \<Rightarrow> R (s_db s) (s_db s') \<and> rest)"

lemma keeps_Next: "keeps R (Next f) \<longleftrightarrow> (\<forall>s t s'. f s = (t, s') \<longrightarrow> R (s_db s) (s_db s') \<and> keeps R t)"
  by (force simp: map_prod_def split: prod.splits)

named_theorems keeps_rules "threads whose round trips obey a law"

lemma keeps_andThen [keeps_rules]: "keeps R m \<Longrightarrow> (\<And>x. keeps R (k x)) \<Longrightarrow> keeps R (andThen m k)"
proof (induction m rule: thread_induct)
  case (Next f)
  show ?case
    unfolding andThen.simps keeps_Next
  proof (intro allI impI)
    fix s t s' assume "map_prod (\<lambda>t. andThen t k) id (f s) = (t, s')"
    then obtain u where u: "f s = (u, s')" "t = andThen u k" by (cases "f s") simp
    with Next show "R (s_db s) (s_db s') \<and> keeps R t" unfolding keeps_Next by blast
  qed
qed simp

lemma keeps_bindS [keeps_rules]: "keeps R m \<Longrightarrow> (\<And>x. keeps R (k x)) \<Longrightarrow> keeps R (bindS m k)"
  unfolding bindS_def by (rule keeps_andThen) (auto split: sum.split)

lemma keeps_atomically [keeps_rules]: "changes R m \<Longrightarrow> keeps R (atomically m)"
  unfolding atomically_def keeps_Next by (auto simp: changes_def map_prod_def split: prod.splits)

lemma keeps_Finished [keeps_rules]: "keeps R (Finished x)"
  by simp

lemma keeps_cases [keeps_rules]:
  "keeps R m \<Longrightarrow> keeps R n \<Longrightarrow> keeps R (if b then m else n)"
  "(\<And>e. keeps R (f e)) \<Longrightarrow> (\<And>x. keeps R (g x)) \<Longrightarrow> keeps R (case r of Inl e \<Rightarrow> f e | Inr x \<Rightarrow> g x)"
  "keeps R h \<Longrightarrow> (\<And>y. keeps R (j y)) \<Longrightarrow> keeps R (case v of None \<Rightarrow> h | Some y \<Rightarrow> j y)"
  by (auto split: sum.split option.split)

text \<open>A law that every write obeys, whatever is written.\<close>

locale free_law = table_law R "\<lambda>_. True" "\<lambda>_. True" "\<lambda>_. True" for R :: "db \<Rightarrow> db \<Rightarrow> bool"
begin

lemmas free_changes = finds_change lists_change saves_change(1) saves_change(2) [OF TrueI] saves_change(3,4)
  saves_change(5,6) [OF TrueI] WithinTx_changes bindE_changes movement_changes(3) [OF TrueI]

lemma submission_keeps: "keeps R (process_tx_steps X dr tx cid)" "keeps R (reject_steps X dr tx code cid)"
  "keeps R (Submit_steps X dr i)"
proof -
  have save: "keeps R (saveWithEvent_steps X tx ev)" for tx ev
    unfolding saveWithEvent_steps_def by (intro keeps_rules free_changes)
  show rej: "keeps R (reject_steps X dr tx code cid)" for tx code
    unfolding reject_steps_def by (intro keeps_rules save)
  have park: "keeps R (parkPendingReference_steps X dr tx cid)" for tx cid
    unfolding parkPendingReference_steps_def Let_def by (intro keeps_rules free_changes save)
  have move: "keeps R (processMovement_steps X dr tx referenced cid)" for tx referenced cid
    unfolding processMovement_steps_def finishWithoutMovement_steps_def by (intro keeps_rules free_changes save)
  have ref: "keeps R (processReferenced_steps X dr tx cid r)" for tx cid r
    unfolding processReferenced_steps_def reject_steps_def by (intro keeps_rules park move save)
  show process: "keeps R (process_tx_steps X dr tx cid)" for tx cid
    unfolding process_tx_steps_def by (intro keeps_rules free_changes ref move)
  have replay: "keeps R (replay_steps X a b)" for a b
    unfolding replay_steps_def balanceAtProcessing_steps_def by (intro keeps_rules free_changes)
  show "keeps R (Submit_steps X dr i)"
    unfolding Submit_steps_def by (intro keeps_rules free_changes process replay)
qed

lemma resolver_keeps: "keeps R (ResolveDue_steps X rs rds now limit)"
proof -
  have one: "keeps R (resolveOne_steps X rs rd now item)" for rd item
    unfolding resolveOne_steps_def Let_def by (intro keeps_rules free_changes submission_keeps)
  have "keeps R (resolve_items_steps X rs rds n now items)" for n items
    by (induction items arbitrary: n) (auto intro!: keeps_rules one)
  then show ?thesis unfolding ResolveDue_steps_def by (intro keeps_rules free_changes)
qed

lemma opening_keeps: "keeps R (Create_steps X cd ci)"
  unfolding Create_steps_def openWallet_steps_def Let_def by (intro keeps_rules free_changes)

lemma delivery_keeps: "keeps R (handle_db_steps X c dw mid h req)"
proof -
  have "changes R (handle_body X c dw entry mid h req)" for entry
    by (rule handle_body_changes) simp_all
  then have "changes R (withinTx c (handle_body X c dw entry mid h req))" for entry
    unfolding withinTx_def by (auto intro: WithinTx_changes)
  then show ?thesis unfolding handle_db_steps_def by (intro keeps_rules free_changes)
qed

text \<open>Every step of the service obeys the law.\<close>

definition jobs_keep :: "service \<Rightarrow> bool" where
  "jobs_keep s \<longleftrightarrow> (\<forall>j\<in>set (sv_jobs s). keeps R (jb_steps j))"

lemma start_keeps: "keeps R t \<Longrightarrow> jobs_keep s \<Longrightarrow> jobs_keep (start (new_job tx wl es rs t) s)"
  by (auto simp: jobs_keep_def start_def new_job_def intro!: keeps_andThen)

lemma service_step_obeys:
  assumes "service_step X s s'" and "jobs_keep s"
  shows "jobs_keep s' \<and> R (sv_db s) (sv_db s')"
  using assms
proof (induction rule: service_step.induct)
  case (works s us j vs f faults t s')
  then have "keeps R (Next f)" by (auto simp: jobs_keep_def)
  with works.hyps(3) have "R (sv_db s) (s_db s') \<and> keeps R t" unfolding keeps_Next by fastforce
  with works show ?case by (auto simp: jobs_keep_def)
next
  case (ends s us j vs)
  then show ?case by (auto simp: jobs_keep_def law_refl)
qed (simp_all add: start_keeps submission_keeps delivery_keeps opening_keeps resolver_keeps keeps_atomically
    RunOnce_changes law_refl)

lemma service_obeys:
  assumes "(service_step X)\<^sup>*\<^sup>* s s'" and "sv_jobs s = []"
  shows "R (sv_db s) (sv_db s')"
proof -
  have "jobs_keep s' \<and> R (sv_db s) (sv_db s')"
    using assms(1)
  proof (induction rule: rtranclp_induct)
    case base
    then show ?case using assms(2) by (simp add: jobs_keep_def law_refl)
  next
    case (step t u)
    with service_step_obeys [OF step.hyps(2)] law_trans show ?case by blast
  qed
  then show ?thesis ..
qed

end

section \<open>One transaction per key\<close>

text \<open>The unique constraint on the provider and its identifier, as an invariant of the table.\<close>

definition same_key :: "wager_row \<Rightarrow> wager_row \<Rightarrow> bool" where
  "same_key q r \<longleftrightarrow> wr_provider_id q \<noteq> None \<and> wr_external_transaction_id q \<noteq> None \<and>
     wr_provider_id r = wr_provider_id q \<and> wr_external_transaction_id r = wr_external_transaction_id q"

definition keys_unique :: "db \<Rightarrow> bool" where
  "keys_unique d \<longleftrightarrow> (\<forall>q\<in>set (db_wagers d). \<forall>r\<in>set (db_wagers d). same_key q r \<longrightarrow> wr_id r = wr_id q)"

lemma same_key_sym: "same_key q r \<Longrightarrow> same_key r q"
  by (simp add: same_key_def)

lemma wager_violation_key:
  assumes "wager_violation d q = None" and "lookup_by wr_id (wr_id q) (db_wagers d) = None" and "r \<in> set (db_wagers d)"
  shows "\<not> same_key q r"
proof
  assume "same_key q r"
  with assms(3) have "wr_provider_id q \<noteq> None \<and> wr_external_transaction_id q \<noteq> None \<and>
      (\<exists>o'\<in>set (db_wagers d). wr_provider_id o' = wr_provider_id q \<and>
         wr_external_transaction_id o' = wr_external_transaction_id q)"
    unfolding same_key_def by blast
  with assms(1,2) show False unfolding wager_violation_def by (simp split: if_splits)
qed

definition keys_law :: "db \<Rightarrow> db \<Rightarrow> bool" where
  "keys_law d d' \<longleftrightarrow> (keys_unique d \<longrightarrow> keys_unique d')"

lemma keys_same_wagers: "db_wagers d' = db_wagers d \<Longrightarrow> keys_law d d'"
  by (simp add: keys_law_def keys_unique_def)

lemma keys_map:
  assumes "\<And>r. wr_id (f r) = wr_id r \<and> wr_provider_id (f r) = wr_provider_id r \<and>
    wr_external_transaction_id (f r) = wr_external_transaction_id r"
    and "db_wagers d' = map f (db_wagers d)"
  shows "keys_law d d'"
proof -
  have "same_key (f q) (f r) = same_key q r" "wr_id (f r) = wr_id r" for q r
    using assms(1) by (simp_all add: same_key_def)
  then show ?thesis by (simp add: keys_law_def keys_unique_def assms(2))
qed

lemma keys_wager:
  assumes "wager_violation d q = None"
  shows "keys_law d (put_wager q d)"
proof (cases "lookup_by wr_id (wr_id q) (db_wagers d)")
  case None
  then have "set (db_wagers (put_wager q d)) = insert q (set (db_wagers d))" by (simp add: upsert_def)
  moreover have "\<not> same_key q r" "\<not> same_key r q" if "r \<in> set (db_wagers d)" for r
    using wager_violation_key [OF assms None that] same_key_sym by blast+
  ultimately show ?thesis by (simp add: keys_law_def keys_unique_def)
next
  case (Some old)
  show ?thesis
    by (rule keys_map [of "\<lambda>r. if wr_id r = wr_id q then wager_merge r q else r"])
      (use Some in \<open>simp_all add: wager_merge_def upsert_def\<close>)
qed

interpretation keys: free_law keys_law
proof unfold_locales
  show "keys_law a c" if "keys_law a b" "keys_law b c" for a b c using that by (simp add: keys_law_def)
  show "keys_law d (d\<lparr>db_wagers := map (\<lambda>r. if wr_id r = tid \<and> wr_status r = TxStatusPendingReference
       then r\<lparr>wr_attempts := wr_attempts r + 1, wr_next_retry_at := Some nxt\<rparr> else r) (db_wagers d)\<rparr>)" for d tid nxt
    by (rule keys_map [of "\<lambda>r. if wr_id r = tid \<and> wr_status r = TxStatusPendingReference
       then r\<lparr>wr_attempts := wr_attempts r + 1, wr_next_retry_at := Some nxt\<rparr> else r"]) simp_all
qed (simp_all add: keys_same_wagers keys_wager)

definition movements_of_key :: "string \<Rightarrow> string \<Rightarrow> db \<Rightarrow> ledger_row list" where
  "movements_of_key p e d = filter (\<lambda>l. \<exists>q\<in>set (db_wagers d). wr_id q = lr_transaction_id l \<and>
     wr_provider_id q = Some p \<and> wr_external_transaction_id q = Some e) (db_ledger d)"

lemma same_image_distinct:
  assumes "distinct (map f xs)" and "\<And>x. x \<in> set xs \<Longrightarrow> f x = c"
  shows "length xs \<le> 1"
proof -
  have "f ` set xs \<subseteq> {c}" using assms(2) by blast
  then have "card (set (map f xs)) \<le> 1" using card_mono [of "{c}" "f ` set xs"] by simp
  with assms(1) show ?thesis using distinct_card [OF assms(1)] by simp
qed

lemma one_movement:
  assumes "books d" and "keys_unique d"
  shows "length (movements_of_key p e d) \<le> 1"
proof (cases "movements_of_key p e d")
  case (Cons l ls)
  then have "l \<in> set (movements_of_key p e d)" by simp
  then obtain q where q: "q \<in> set (db_wagers d)" "wr_id q = lr_transaction_id l" "wr_provider_id q = Some p"
    "wr_external_transaction_id q = Some e" by (auto simp: movements_of_key_def)
  show ?thesis
  proof (rule same_image_distinct)
    show "distinct (map lr_transaction_id (movements_of_key p e d))"
      using booksD(3) [OF assms(1)] by (simp add: movements_of_key_def distinct_map_filter)
    show "lr_transaction_id k = wr_id q" if "k \<in> set (movements_of_key p e d)" for k
    proof -
      from that obtain r where r: "r \<in> set (db_wagers d)" "wr_id r = lr_transaction_id k" "wr_provider_id r = Some p"
        "wr_external_transaction_id r = Some e" by (auto simp: movements_of_key_def)
      then have "same_key q r" by (simp add: same_key_def q)
      with r assms(2) q show ?thesis unfolding keys_unique_def by metis
    qed
  qed
qed simp

section \<open>Properties\<close>

text \<open>Claim C4. Exactly once: in every interleaving, crashes and lost replies included, at most one
  transaction is stored under an idempotency key, and the key moves money at most once, however often and
  by whatever way its request arrives.\<close>

theorem keys_move_money_once:
  assumes "sound X (sv_db s)" and "keys_unique (sv_db s)" and "sv_jobs s = []" and "(service_step X)\<^sup>*\<^sup>* s s'"
  shows "keys_unique (sv_db s') \<and> length (movements_of_key p e (sv_db s')) \<le> 1"
proof -
  have "keys_unique (sv_db s')"
    using keys.service_obeys [OF assms(4,3)] assms(2) by (simp add: keys_law_def)
  moreover have "books (sv_db s')"
    using service_steps_ok [OF assms(4) idle_ok [OF assms(1,3)]] by (simp add: service_ok_def sound_def)
  ultimately show ?thesis using one_movement by blast
qed

text \<open>The same bet twice, side by side: both look the key up before either stores it. The first to store
  wins, the other finds the key taken and replays what was stored.\<close>

definition two_bets :: service where
  "two_bets = submission (draws_at 50) (sample_input KindBet ''bet-1'' 3000 None)
     (submission (draws_at 40) (sample_input KindBet ''bet-1'' 3000 None) opened)"

lemma two_bets_started: "(service_step sample_external)\<^sup>*\<^sup>* idle two_bets"
proof -
  note draws = draws_at_def sample_draws_def sample_draw_def event_ids_def opening_event_ids_def sample_create_draws_def
  have "tx_absent (dr_tx_id (draws_at 40)) (sv_db opened)" "fresh_events (draws_at 40) (sv_db opened)"
    "tx_absent (dr_tx_id (draws_at 50)) (sv_db opened)" "fresh_events (draws_at 50) (sv_db opened)"
    by code_simp+
  note fresh = this
  from fresh(1,2) have "fresh_draws opened (draws_at 40)" by (rule fresh_drawsI) (simp_all add: draws)
  from submission_started [OF opened_started this]
  have one: "(service_step sample_external)\<^sup>*\<^sup>* idle
    (submission (draws_at 40) (sample_input KindBet ''bet-1'' 3000 None) opened)" .
  from fresh(3,4) have "fresh_draws (submission (draws_at 40) (sample_input KindBet ''bet-1'' 3000 None) opened) (draws_at 50)"
    by (intro fresh_drawsI) (simp_all add: draws)
  from submission_started [OF one this] show ?thesis unfolding two_bets_def .
qed

theorem keys_move_money_once_witness:
  "keys_unique (sv_db (fold tick [0, 1, 0, 1, 0, 1] two_bets)) \<and>
   length (movements_of_key ''provider-a'' ''bet-1'' (sv_db (fold tick [0, 1, 0, 1, 0, 1] two_bets))) = 1 \<and>
   map (\<lambda>r. (wr_id r, wr_status r)) (db_wagers (sv_db (fold tick [0, 1, 0, 1, 0, 1] two_bets))) =
     [(1, TxStatusProcessed), (50, TxStatusProcessed)]"
proof (intro conjI)
  have "keys_unique (sv_db idle)" by (simp add: keys_unique_def idle_def no_tables_def)
  note once = keys_move_money_once [OF sound_idle(1) this sound_idle(2) rtranclp_trans [OF two_bets_started ticks_step]]
  then show "keys_unique (sv_db (fold tick [0, 1, 0, 1, 0, 1] two_bets))" by blast
  have "length (movements_of_key ''provider-a'' ''bet-1'' (sv_db (fold tick [0, 1, 0, 1, 0, 1] two_bets))) \<noteq> 0"
    by code_simp
  with once show "length (movements_of_key ''provider-a'' ''bet-1'' (sv_db (fold tick [0, 1, 0, 1, 0, 1] two_bets))) = 1"
    by (metis le_antisym less_one not_less)
qed code_simp

end
