(* ===== verification/Locks.thy ===== *)
theory Locks
  imports Service
begin

text \<open>
  Inside a movement's transaction. The transaction of \<open>processInTx\<close> is taken apart into its statements,
  which interleave with those of other transactions at READ COMMITTED: a statement reads what is
  committed and what its own transaction wrote, and waits for the rows and index entries it touches
  while another open transaction holds them; they are released at the end. \<open>WalletRow\<close> is the lock that
  \<open>SELECT ... FOR UPDATE\<close> takes on the wallet. The result is that the locks make the transaction atomic.
\<close>

section \<open>Statements\<close>

datatype claim =
    WalletRow uuid
  | WagerRow uuid
  | WagerKey "string option" "string option"
  | LedgerRow uuid

text \<open>A transaction that is being executed: a statement claims rows, changes the tables by its effect and
  goes on with what it sees of them. Other rows are drawn with fresh identifiers.\<close>

datatype 'a stmts = Done 'a | Stmt "claim set" "db \<Rightarrow> db" "db \<Rightarrow> 'a stmts"

definition checked :: "error + 'b \<Rightarrow> ('b \<Rightarrow> (error + 'a) stmts) \<Rightarrow> (error + 'a) stmts" where
  "checked r k = (case r of Inl e \<Rightarrow> Done (Inl e) | Inr x \<Rightarrow> k x)"

text \<open>The calls of the repositories: what they answer is what they answer alone on the tables they see.\<close>

definition reading ::
  "claim set \<Rightarrow> (sess, error, 'b) prog \<Rightarrow> (error + 'b \<Rightarrow> 'a stmts) \<Rightarrow> 'a stmts" where
  "reading c m k = Stmt c id (\<lambda>d. k (fst (m (calm TxActive d))))"

definition writing ::
  "claim set \<Rightarrow> (sess, error, unit) prog \<Rightarrow> (db \<Rightarrow> db) \<Rightarrow> (error + 'a) stmts \<Rightarrow> (error + 'a) stmts" where
  "writing c m e t = Stmt c e (\<lambda>d. checked (fst (m (calm TxActive d))) (\<lambda>_. t))"

primrec exec :: "'a stmts \<Rightarrow> db \<Rightarrow> 'a \<times> db" where
  "exec (Done x) = (\<lambda>d. (x, d))"
| "exec (Stmt c e k) = (\<lambda>d. (exec \<circ> k) d (e d))"

definition save_wager_stmt ::
  "external \<Rightarrow> transaction \<Rightarrow> (error + 'a) stmts \<Rightarrow> (error + 'a) stmts" where
  "save_wager_stmt X tx t =
     (let q = wager_row_of X tx in
      writing {WagerRow (wr_id q), WagerKey (wr_provider_id q) (wr_external_transaction_id q)}
        (Wager_Save X tx) (put_wager q) t)"

definition rejectInTx_stmts ::
  "external \<Rightarrow> draws \<Rightarrow> transaction \<Rightarrow> failure_code \<Rightarrow> wallet \<Rightarrow> string \<Rightarrow> (error + submit_result) stmts" where
  "rejectInTx_stmts X dr tx code w correlationID =
     checked (MarkRejected code (dr_mark_now dr) tx) (\<lambda>tx.
     checked (newWagerTransactionRejectedEvent X (dr_event dr) tx correlationID) (\<lambda>event.
     save_wager_stmt X tx
     (writing {} (SaveAll [event]) (put_event event)
     (Done (Inr \<lparr>sr_Transaction = tx, sr_Balance = w_balance w, sr_IdempotentReplay = False\<rparr>)))))"

definition moveInTx_stmts ::
  "external \<Rightarrow> draws \<Rightarrow> transaction \<Rightarrow> direction \<Rightarrow> wallet \<Rightarrow> string \<Rightarrow> (error + submit_result) stmts" where
  "moveInTx_stmts X dr tx dir w correlationID =
     (let before = w_balance w in
      case (if dir = DirectionDebit then Wallet_Debit w (tx_amount tx) else Wallet_Credit w (tx_amount tx)) of
        Inl e \<Rightarrow>
          if e \<noteq> WalletE ErrInsufficientBalance then Done (Inl e)
          else rejectInTx_stmts X dr tx
            (if tx_kind tx \<noteq> KindBet then FailureCodeReversalExceedsBalance
             else FailureCodeInsufficientBalance) w correlationID
      | Inr w \<Rightarrow>
          checked (NewLedgerEntry (dr_entry_id dr) (dr_entry_now dr)
            \<lparr>nle_WalletID = w_id w, nle_TransactionID = tx_id tx, nle_Direction = dir,
             nle_Amount = tx_amount tx, nle_BalanceBefore = before, nle_BalanceAfter = w_balance w\<rparr>) (\<lambda>entry.
          checked (MarkProcessed (dr_mark_now dr) tx) (\<lambda>tx.
          checked (newWagerTransactionProcessedEvent X (dr_event dr) tx correlationID) (\<lambda>processedEvent.
          checked (newWalletBalanceChangedEvent X (dr_event2 dr) w entry correlationID
            (Some (x_uuid X (oe_id processedEvent)))) (\<lambda>balanceChangedEvent.
          save_wager_stmt X tx
          (writing {WalletRow (w_id w)} (Wallet_Save w) (put_wallet (wallet_row_of w))
          (writing {LedgerRow (le_id entry)} (SaveLedgerEntry entry) (add_ledger (ledger_row_of entry))
          (writing {} (SaveAll [processedEvent]) (put_event processedEvent)
          (writing {} (SaveAll [balanceChangedEvent]) (put_event balanceChangedEvent)
          (Done (Inr \<lparr>sr_Transaction = tx, sr_Balance = w_balance w, sr_IdempotentReplay = False\<rparr>)))))))))))"

text \<open>Once the wallet is read and locked.\<close>

definition lockedInTx_stmts ::
  "external \<Rightarrow> draws \<Rightarrow> transaction \<Rightarrow> transaction option \<Rightarrow> direction \<Rightarrow> string \<Rightarrow> wallet \<Rightarrow> (error + submit_result) stmts" where
  "lockedInTx_stmts X dr tx referenced dir correlationID w =
     (if tx_kind tx = KindRefund \<or> tx_kind tx = KindRollback
     then (case referenced of
         None \<Rightarrow> Done (Inl (ExternalE ''nil pointer dereference''))
       | Some ref \<Rightarrow>
           reading {} (FindReversal X (tx_id ref)) (\<lambda>r.
           case r of
             Inl e \<Rightarrow>
               if e \<noteq> AppE ErrWagerTransactionNotFound then Done (Inl e)
               else moveInTx_stmts X dr tx dir w correlationID
           | Inr duplicate \<Rightarrow> rejectInTx_stmts X dr tx FailureCodeDuplicateReversal w correlationID))
     else moveInTx_stmts X dr tx dir w correlationID)"

definition processInTx_stmts ::
  "external \<Rightarrow> draws \<Rightarrow> transaction \<Rightarrow> transaction option \<Rightarrow> direction \<Rightarrow> string \<Rightarrow> (error + submit_result) stmts" where
  "processInTx_stmts X dr tx referenced dir correlationID =
     reading {WalletRow (tx_walletID tx)} (Wallet_FindByID X (tx_walletID tx)) (\<lambda>r. checked r (\<lambda>w.
     lockedInTx_stmts X dr tx referenced dir correlationID w))"

section \<open>Undisturbed, the statements are the transaction\<close>

definition answers_calm :: "(sess, error, 'a) prog \<Rightarrow> bool" where
  "answers_calm m \<longleftrightarrow> (\<forall>d. \<exists>r. m (calm TxActive d) = (r, calm TxActive d))"

definition acts_calm :: "(sess, error, unit) prog \<Rightarrow> (db \<Rightarrow> db) \<Rightarrow> bool" where
  "acts_calm m e \<longleftrightarrow> (\<forall>d. m (calm TxActive d) = (Inr (), calm TxActive (e d)) \<or>
     (\<exists>err st. m (calm TxActive d) = (Inl err, calm st d)))"

definition matches :: "(error + 'a) stmts \<Rightarrow> (sess, error, 'a) prog \<Rightarrow> bool" where
  "matches t m \<longleftrightarrow> (\<forall>d. case exec t d of
     (Inl e, _) \<Rightarrow> (\<exists>st d'. m (calm TxActive d) = (Inl e, calm st d'))
   | (Inr x, d') \<Rightarrow> m (calm TxActive d) = (Inr x, calm TxActive d'))"

named_theorems matches_rules "transactions and their statements"

lemma matches_basic [matches_rules]: "matches (Done (Inl e)) (fail e)" "matches (Done (Inr x)) (ret x)"
  by (auto simp: matches_def fail_def ret_def)

lemma matches_checked [matches_rules]:
  "(\<And>x. matches (k x) (k' x)) \<Longrightarrow> matches (checked r k) (bindE (liftE r) k')"
  by (cases r) (auto simp: matches_def checked_def bindE_def liftE_def)

lemma matches_cases [matches_rules]:
  "matches t m \<Longrightarrow> matches u n \<Longrightarrow> matches (if b then t else u) (if b then m else n)"
  "(\<And>e. matches (f e) (f' e)) \<Longrightarrow> (\<And>x. matches (g x) (g' x)) \<Longrightarrow>
     matches (case r of Inl e \<Rightarrow> f e | Inr x \<Rightarrow> g x) (case r of Inl e \<Rightarrow> f' e | Inr x \<Rightarrow> g' x)"
  "matches h h' \<Longrightarrow> (\<And>y. matches (j y) (j' y)) \<Longrightarrow>
     matches (case v of None \<Rightarrow> h | Some y \<Rightarrow> j y) (case v of None \<Rightarrow> h' | Some y \<Rightarrow> j' y)"
  by (auto split: sum.split option.split)

lemma matches_reading:
  assumes "answers_calm m" and "\<And>r. matches (k r) (k' r)"
  shows "matches (reading c m k) (onResult m k')"
  unfolding matches_def
proof
  fix d
  obtain r where "m (calm TxActive d) = (r, calm TxActive d)" using assms(1) by (auto simp: answers_calm_def)
  then have E: "exec (reading c m k) d = exec (k r) d" "onResult m k' (calm TxActive d) = k' r (calm TxActive d)"
    by (simp_all add: reading_def onResult_def)
  show "case exec (reading c m k) d of
     (Inl e, _) \<Rightarrow> (\<exists>st d'. onResult m k' (calm TxActive d) = (Inl e, calm st d'))
   | (Inr x, d') \<Rightarrow> onResult m k' (calm TxActive d) = (Inr x, calm TxActive d')"
    unfolding E by (rule assms(2) [of r, unfolded matches_def, THEN spec])
qed

lemma matches_writing:
  assumes "acts_calm m e" and "matches t m'"
  shows "matches (writing c m e t) (bindE m (\<lambda>_. m'))"
  unfolding matches_def
proof
  fix d
  from assms(1) consider "m (calm TxActive d) = (Inr (), calm TxActive (e d))"
    | err st where "m (calm TxActive d) = (Inl err, calm st d)" unfolding acts_calm_def by blast
  then show "case exec (writing c m e t) d of
     (Inl e, _) \<Rightarrow> (\<exists>st d'. bindE m (\<lambda>_. m') (calm TxActive d) = (Inl e, calm st d'))
   | (Inr x, d') \<Rightarrow> bindE m (\<lambda>_. m') (calm TxActive d) = (Inr x, calm TxActive d')"
  proof cases
    case 1
    then have E: "exec (writing c m e t) d = exec t (e d)" "bindE m (\<lambda>_. m') (calm TxActive d) = m' (calm TxActive (e d))"
      by (simp_all add: writing_def checked_def bindE_def)
    show ?thesis unfolding E by (rule assms(2) [unfolded matches_def, THEN spec])
  next
    case (2 err st)
    then show ?thesis by (auto simp: writing_def checked_def bindE_def)
  qed
qed

lemma onResult_checked: "onResult m (\<lambda>r. case r of Inl e \<Rightarrow> fail e | Inr x \<Rightarrow> k x) = bindE m k"
  by (auto simp: fun_eq_iff onResult_def bindE_def fail_def split: prod.split sum.split)

lemma finds_answer: "answers_calm (Wallet_FindByID X wid)" "answers_calm (FindReversal X ref)"
  by (auto simp: answers_calm_def calm_FindByID calm_FindReversal split: option.split)

lemma saves_act:
  "acts_calm (Wager_Save X tx) (put_wager (wager_row_of X tx))" "acts_calm (Wallet_Save w) (put_wallet (wallet_row_of w))"
  "acts_calm (SaveLedgerEntry en) (add_ledger (ledger_row_of en))" "acts_calm (SaveAll [ev]) (put_event ev)"
  unfolding acts_calm_def
  by (auto simp: Wager_Save_def Wallet_Save_def SaveLedgerEntry_def onResult_def calm_query insert_eqs fail_def ret_def
      bindE_def violation_not_retryable split: option.splits sum.splits)

lemma rejectInTx_matches: "matches (rejectInTx_stmts X dr tx code w cid) (rejectInTx X dr tx code w cid)"
  unfolding rejectInTx_stmts_def rejectInTx_def save_wager_stmt_def Let_def
  by (intro matches_rules matches_writing saves_act)

lemma save_both: "bindE (SaveAll [e1, e2]) k = bindE (SaveAll [e1]) (\<lambda>_. bindE (SaveAll [e2]) k)"
  by (auto simp: fun_eq_iff bindE_def ret_def split: prod.split sum.split)

lemma moveInTx_matches: "matches (moveInTx_stmts X dr tx dir w cid) (moveInTx X dr tx dir w cid)"
  unfolding moveInTx_stmts_def moveInTx_def save_wager_stmt_def Let_def save_both
  by (intro matches_rules matches_writing saves_act rejectInTx_matches)

lemma matches_lookup:
  assumes "answers_calm m" and "\<And>x. matches (k x) (k' x)"
  shows "matches (reading c m (\<lambda>r. checked r k)) (bindE m k')"
  unfolding onResult_checked [symmetric] checked_def
  by (intro matches_reading matches_rules assms)

lemma processInTx_matches:
  "matches (processInTx_stmts X dr tx referenced dir cid) (processInTx X dr tx referenced dir cid)"
  unfolding processInTx_stmts_def lockedInTx_stmts_def processInTx_def
  by (intro matches_lookup matches_cases matches_basic matches_reading finds_answer moveInTx_matches rejectInTx_matches)

text \<open>A transaction that commits has done what \<open>processInTx\<close> does in one piece.\<close>

lemma matches_commit: "matches t m \<Longrightarrow> exec t d = (Inr x, d') \<Longrightarrow> m (calm TxActive d) = (Inr x, calm TxActive d')"
  by (drule matches_def [THEN iffD1, THEN spec [of _ d]]) simp

lemmas exec_processInTx = matches_commit [OF processInTx_matches]

section \<open>What a claim protects\<close>

text \<open>The lock of a wallet protects its row, its ledger and the processed reversals on it, since who
  writes those holds the lock.\<close>

definition paid_back :: "uuid \<Rightarrow> wager_row \<Rightarrow> bool" where
  "paid_back i q \<longleftrightarrow> wr_wallet_id q = i \<and> is_reversal q \<and> wr_status q = TxStatusProcessed"

fun same :: "claim \<Rightarrow> db \<Rightarrow> db \<Rightarrow> bool" where
  "same (WalletRow i) d d' \<longleftrightarrow>
     lookup_by wl_id i (db_wallets d') = lookup_by wl_id i (db_wallets d) \<and>
     filter (\<lambda>l. lr_wallet_id l = i) (db_ledger d') = filter (\<lambda>l. lr_wallet_id l = i) (db_ledger d) \<and>
     filter (paid_back i) (db_wagers d') = filter (paid_back i) (db_wagers d)"
| "same (WagerRow i) d d' \<longleftrightarrow> lookup_by wr_id i (db_wagers d') = lookup_by wr_id i (db_wagers d)"
| "same (WagerKey p e) d d' \<longleftrightarrow>
     ((\<exists>q\<in>set (db_wagers d'). wr_provider_id q = p \<and> wr_external_transaction_id q = e) \<longleftrightarrow>
      (\<exists>q\<in>set (db_wagers d). wr_provider_id q = p \<and> wr_external_transaction_id q = e))"
| "same (LedgerRow i) d d' \<longleftrightarrow>
     ((\<exists>l\<in>set (db_ledger d'). lr_id l = i) \<longleftrightarrow> (\<exists>l\<in>set (db_ledger d). lr_id l = i))"

lemma same_self [simp]: "same x d d"
  by (cases x) simp_all

lemma same_trans: "same x a b \<Longrightarrow> same x b c \<Longrightarrow> same x a c"
  by (cases x) simp_all

lemma same_sym: "same x a b \<Longrightarrow> same x b a"
  by (cases x) auto

lemma same_event [simp]: "same x d (put_event e d)"
  by (cases x) simp_all

lemma same_wallet: "x \<noteq> WalletRow (wl_id w) \<Longrightarrow> same x d (put_wallet w d)"
  by (cases x) (auto simp: wallets.lookup_upsert)

lemma same_ledger: "x \<noteq> WalletRow (lr_wallet_id l) \<Longrightarrow> x \<noteq> LedgerRow (lr_id l) \<Longrightarrow> same x d (add_ledger l d)"
  by (cases x) auto

lemma filter_map_kept:
  "(\<And>r. r \<in> set rows \<Longrightarrow> f r = r \<or> \<not> P (f r) \<and> \<not> P r) \<Longrightarrow> filter P (map f rows) = filter P rows"
  by (induction rows) (simp, metis filter.simps(2) list.set_intros list.simps(9))

lemma same_wager:
  assumes w: "writable d q" and k: "distinct (map wr_id (db_wagers d))" and "x \<noteq> WalletRow (wr_wallet_id q)"
    and "x \<noteq> WagerRow (wr_id q)" and "x \<noteq> WagerKey (wr_provider_id q) (wr_external_transaction_id q)"
  shows "same x d (put_wager q d)"
proof (cases "lookup_by wr_id (wr_id q) (db_wagers d)")
  case None
  then have new: "db_wagers (put_wager q d) = db_wagers d @ [q]" by (simp add: upsert_def)
  show ?thesis
  proof (cases x)
    case (WalletRow j)
    with assms(3) show ?thesis unfolding WalletRow same.simps new by (simp add: paid_back_def)
  next
    case (WagerKey p e)
    with assms(5) show ?thesis unfolding WagerKey same.simps new by auto
  qed (use assms(4) in \<open>auto simp: wagers.lookup_upsert\<close>)
next
  case (Some old)
  let ?f = "\<lambda>r. if wr_id r = wr_id q then wager_merge r q else r"
  have new: "db_wagers (put_wager q d) = map ?f (db_wagers d)" using Some by (simp add: upsert_def)
  show ?thesis
  proof (cases x)
    case (WalletRow j)
    have "?f r = r \<or> \<not> paid_back j (?f r) \<and> \<not> paid_back j r" if "r \<in> set (db_wagers d)" for r
    proof (cases "wr_id r = wr_id q")
      case True
      with lookup_by_eqI [OF k that] Some have "r = old" by simp
      with w Some have "wr_wallet_id r = wr_wallet_id q" by (simp add: writable_def same_contentD)
      with True WalletRow assms(3) show ?thesis by (simp add: paid_back_def wager_merge_def)
    qed simp
    then have "filter (paid_back j) (map ?f (db_wagers d)) = filter (paid_back j) (db_wagers d)"
      by (rule filter_map_kept)
    with WalletRow show ?thesis unfolding WalletRow same.simps new by simp
  next
    case (WagerKey p e)
    show ?thesis
      unfolding WagerKey same.simps new set_map bex_simps by (rule bex_cong) (simp_all add: wager_merge_def)
  qed (use assms(4) in \<open>auto simp: wagers.lookup_upsert\<close>)
qed

section \<open>Transactions that others cannot disturb\<close>

definition near :: "(db \<Rightarrow> bool) \<Rightarrow> claim set \<Rightarrow> db \<Rightarrow> db \<Rightarrow> bool" where
  "near I H d d' \<longleftrightarrow> I d' \<and> (\<forall>x\<in>H. same x d d')"

definition determined :: "(db \<Rightarrow> bool) \<Rightarrow> claim set \<Rightarrow> (db \<Rightarrow> 'b) \<Rightarrow> bool" where
  "determined I H f \<longleftrightarrow> (\<forall>d d'. I d \<longrightarrow> near I H d d' \<longrightarrow> f d = f d')"

definition owned :: "(db \<Rightarrow> bool) \<Rightarrow> claim set \<Rightarrow> (db \<Rightarrow> db) \<Rightarrow> (db \<Rightarrow> db) \<Rightarrow> bool" where
  "owned I H w e \<longleftrightarrow> (\<forall>d x. I d \<longrightarrow> x \<notin> H \<longrightarrow> same x (w d) (e (w d)))"

text \<open>\<open>steady t I H w\<close>: with the claims \<open>H\<close> held and the writes \<open>w\<close> done, what the rest \<open>t\<close> does is the
  same on all tables of \<open>I\<close> that agree on what is claimed, and it writes only what is claimed.\<close>

primrec steady :: "'a stmts \<Rightarrow> (db \<Rightarrow> bool) \<Rightarrow> claim set \<Rightarrow> (db \<Rightarrow> db) \<Rightarrow> bool" where
  "steady (Done x) = (\<lambda>I H w. True)"
| "steady (Stmt c e k) = (\<lambda>I H w.
     determined I (H \<union> c) (k \<circ> w) \<and> owned I (H \<union> c) w e \<and>
     (\<forall>d. I d \<longrightarrow> (steady \<circ> k) (w d) (near I (H \<union> c) d) (H \<union> c) (e \<circ> w)))"

lemma near_refl: "I d \<Longrightarrow> near I H d d"
  by (simp add: near_def)

lemma near_trans: "near I H a b \<Longrightarrow> near I H b c \<Longrightarrow> near I H a c"
  unfolding near_def using same_trans by blast

lemma nearD: "near I H d d' \<Longrightarrow> I d'"
  by (simp add: near_def)

lemma near_more: "near I (H \<union> c) d d' \<Longrightarrow> near I H d d'"
  by (simp add: near_def)

lemma determined_mono: "determined I H f \<Longrightarrow> (\<And>d. J d \<Longrightarrow> I d) \<Longrightarrow> determined J H f"
  unfolding determined_def near_def by blast

lemma owned_mono: "owned I H w e \<Longrightarrow> (\<And>d. J d \<Longrightarrow> I d) \<Longrightarrow> owned J H w e"
  unfolding owned_def by blast

lemma stmts_induct [case_names Done Stmt]:
  assumes "\<And>x. P (Done x)" and "\<And>c e k. (\<And>d. P (k d)) \<Longrightarrow> P (Stmt c e k)"
  shows "P t"
proof (induction t)
  case (Stmt c e k)
  show ?case by (rule assms(2)) (rule Stmt.IH, rule rangeI)
qed (rule assms(1))

lemma steady_StmtI:
  assumes "determined I (H \<union> c) (k \<circ> w)" and "owned I (H \<union> c) w e"
    and "\<And>d. I d \<Longrightarrow> steady (k (w d)) (near I (H \<union> c) d) (H \<union> c) (e \<circ> w)"
  shows "steady (Stmt c e k) I H w"
  using assms by (simp only: steady.simps comp_apply [of steady k]) blast

lemma steady_StmtD:
  assumes "steady (Stmt c e k) I H w"
  shows "determined I (H \<union> c) (k \<circ> w)" and "owned I (H \<union> c) w e"
    and "I d \<Longrightarrow> steady (k (w d)) (near I (H \<union> c) d) (H \<union> c) (e \<circ> w)"
  using assms by (simp_all only: steady.simps comp_apply [of steady k])

lemma steady_mono: "steady t I H w \<Longrightarrow> (\<And>d. J d \<Longrightarrow> I d) \<Longrightarrow> steady t J H w"
proof (induction t arbitrary: I J H w rule: stmts_induct)
  case (Stmt c e k)
  note S = steady_StmtD [OF Stmt.prems(1)]
  show ?case
  proof (rule steady_StmtI)
    show "determined J (H \<union> c) (k \<circ> w)" using S(1) Stmt.prems(2) by (rule determined_mono)
    show "owned J (H \<union> c) w e" using S(2) Stmt.prems(2) by (rule owned_mono)
    fix d assume "J d"
    show "steady (k (w d)) (near J (H \<union> c) d) (H \<union> c) (e \<circ> w)"
      using S(3) [OF Stmt.prems(2) [OF \<open>J d\<close>]]
      by (rule Stmt.IH) (auto simp: near_def intro: Stmt.prems(2))
  qed
qed simp

lemma determined_answer: "determined I H f \<Longrightarrow> determined I H (\<lambda>d. g (f d))"
  unfolding determined_def by metis

lemma steady_checked: "(\<And>x. r = Inr x \<Longrightarrow> steady (k x) I H w) \<Longrightarrow> steady (checked r k) I H w"
  by (cases r) (simp_all add: checked_def)

lemma steady_writing:
  assumes "determined I (H \<union> c) (\<lambda>d. fst (m (calm TxActive (w d))))" and "owned I (H \<union> c) w e"
    and "steady t I (H \<union> c) (e \<circ> w)"
  shows "steady (writing c m e t) I H w"
  unfolding writing_def
proof (rule steady_StmtI)
  show "determined I (H \<union> c) ((\<lambda>d. checked (fst (m (calm TxActive d))) (\<lambda>_. t)) \<circ> w)"
    using determined_answer [OF assms(1)] by (simp add: comp_def)
  show "steady (checked (fst (m (calm TxActive (w d)))) (\<lambda>_. t)) (near I (H \<union> c) d) (H \<union> c) (e \<circ> w)" if "I d" for d
    by (rule steady_checked, rule steady_mono [OF assms(3)], erule nearD)
qed (rule assms(2))

lemma steady_reading:
  assumes "determined I (H \<union> c) (\<lambda>d. fst (m (calm TxActive (w d))))"
    and "\<And>d. I d \<Longrightarrow> steady (k (fst (m (calm TxActive (w d))))) (near I (H \<union> c) d) (H \<union> c) w"
  shows "steady (reading c m k) I H w"
  unfolding reading_def
proof (rule steady_StmtI)
  show "determined I (H \<union> c) ((\<lambda>d. k (fst (m (calm TxActive d)))) \<circ> w)"
    using determined_answer [OF assms(1)] by (simp add: comp_def)
  show "owned I (H \<union> c) w id" by (simp add: owned_def)
  show "steady (k (fst (m (calm TxActive (w d))))) (near I (H \<union> c) d) (H \<union> c) (id \<circ> w)" if "I d" for d
    using assms(2) [OF that] by simp
qed

section \<open>Open transactions\<close>

text \<open>Executed so far with writes \<open>w\<close> and rest \<open>t\<close>: on all tables near the committed ones the whole
  transaction \<open>body\<close> would be at the same point.\<close>

definition on_track :: "(db \<Rightarrow> bool) \<Rightarrow> 'a stmts \<Rightarrow> db \<Rightarrow> claim set \<Rightarrow> (db \<Rightarrow> db) \<Rightarrow> 'a stmts \<Rightarrow> bool" where
  "on_track I body d H w t \<longleftrightarrow> steady t (near I H d) H w \<and>
     (\<forall>d'. near I H d d' \<longrightarrow> exec body d' = exec t (w d') \<and> (\<forall>x. x \<notin> H \<longrightarrow> same x d' (w d')))"

lemma on_track_begin: "steady body I H id \<Longrightarrow> on_track I body d H id body"
  using steady_mono [of body I H id "near I H d"] by (simp add: on_track_def near_def)

lemma on_track_others:
  assumes "on_track I body d H w t" and "near I H d d'"
  shows "on_track I body d' H w t"
  using assms steady_mono [of t "near I H d" H w "near I H d'"] near_trans [OF assms(2)]
  by (simp add: on_track_def)

lemma on_track_stmt:
  assumes "on_track I body d H w (Stmt c e k)" and "I d"
  shows "on_track I body d (H \<union> c) (e \<circ> w) (k (w d))"
proof -
  have st: "steady (Stmt c e k) (near I H d) H w" using assms(1) by (simp add: on_track_def)
  note S = steady_StmtD [OF st]
  have d: "near I H d d" using assms(2) by (rule near_refl)
  have sub: "near (near I H d) (H \<union> c) d a" if "near I (H \<union> c) d a" for a
    using that by (auto simp: near_def)
  have "steady (k (w d)) (near I (H \<union> c) d) (H \<union> c) (e \<circ> w)"
    using S(3) [OF d] sub by (rule steady_mono)
  moreover have "exec body a = exec (k (w d)) ((e \<circ> w) a) \<and> (\<forall>x. x \<notin> H \<union> c \<longrightarrow> same x a ((e \<circ> w) a))"
    if a: "near I (H \<union> c) d a" for a
  proof
    have "k (w d) = k (w a)"
      using S(1) d sub [OF a] unfolding determined_def comp_apply by blast
    moreover have "exec body a = exec (Stmt c e k) (w a)" and sw: "\<forall>x. x \<notin> H \<longrightarrow> same x a (w a)"
      using assms(1) near_more [OF a] by (simp_all add: on_track_def)
    ultimately show "exec body a = exec (k (w d)) ((e \<circ> w) a)" by simp
    have "same x (w a) (e (w a))" if "x \<notin> H \<union> c" for x
      using S(2) near_more [OF a] that unfolding owned_def by blast
    with sw show "\<forall>x. x \<notin> H \<union> c \<longrightarrow> same x a ((e \<circ> w) a)" unfolding comp_apply using same_trans by blast
  qed
  ultimately show ?thesis unfolding on_track_def by blast
qed

lemma on_track_Done: "on_track I body d H w (Done r) \<Longrightarrow> I d \<Longrightarrow> exec body d = (r, w d)"
  by (simp add: on_track_def near_refl)

section \<open>Movements are steady\<close>

text \<open>What a transaction relies on besides its claims: what it was started with, and the books.\<close>

definition ok_to_save :: "external \<Rightarrow> transaction \<Rightarrow> db \<Rightarrow> bool" where
  "ok_to_save X tx d \<longleftrightarrow> books d \<and> writable d (wager_row_of X tx) \<and> tx_kind tx \<noteq> KindOpening \<and>
     (\<forall>r. tx_referenceTransactionID tx = Some r \<longrightarrow> lookup_by wr_id r (db_wagers d) \<noteq> None)"

lemma ok_to_save_core:
  assumes "tx_core a = tx_core b" and "tx_referenceTransactionID a = tx_referenceTransactionID b"
  shows "ok_to_save X a d = ok_to_save X b d"
  using writable_core [OF assms(1)] tx_core_eqD(8) [OF assms(1)] assms(2) by (simp add: ok_to_save_def)

lemma near_same: "near I H d d' \<Longrightarrow> x \<in> H \<Longrightarrow> same x d d'"
  by (simp add: near_def)

lemma determinedI: "(\<And>d d'. I d \<Longrightarrow> I d' \<Longrightarrow> near I H d d' \<Longrightarrow> f d = f d') \<Longrightarrow> determined I H f"
  unfolding determined_def by (blast dest: nearD)

lemma wager_violation_near:
  assumes "ok_to_save X tx d" "ok_to_save X tx d'"
    and "same (WalletRow (tx_walletID tx)) d d'" and "same (WagerRow (tx_id tx)) d d'"
    and "same (WagerKey (wr_provider_id (wager_row_of X tx)) (wr_external_transaction_id (wager_row_of X tx))) d d'"
  shows "wager_violation d' (wager_row_of X tx) = wager_violation d (wager_row_of X tx)"
proof -
  have l: "lookup_by wr_id (tx_id tx) (db_wagers d') = lookup_by wr_id (tx_id tx) (db_wagers d)"
    "lookup_by wl_id (tx_walletID tx) (db_wallets d') = lookup_by wl_id (tx_walletID tx) (db_wallets d)"
    using assms(3,4) by simp_all
  have k: "(\<exists>o'\<in>set (db_wagers d'). wr_provider_id o' = wr_provider_id (wager_row_of X tx) \<and>
        wr_external_transaction_id o' = wr_external_transaction_id (wager_row_of X tx)) \<longleftrightarrow>
      (\<exists>o'\<in>set (db_wagers d). wr_provider_id o' = wr_provider_id (wager_row_of X tx) \<and>
        wr_external_transaction_id o' = wr_external_transaction_id (wager_row_of X tx))"
    using assms(5) by (simp only: same.simps)
  have "tx_kind tx \<noteq> KindOpening" using assms(1) by (simp add: ok_to_save_def)
  moreover have "lookup_by wr_id r (db_wagers d) \<noteq> None \<and> lookup_by wr_id r (db_wagers d') \<noteq> None"
    if "tx_referenceTransactionID tx = Some r" for r
    using that assms(1,2) by (simp add: ok_to_save_def)
  ultimately show ?thesis
    unfolding wager_violation_def k using l by (auto split: option.split)
qed

lemma saves_answer:
  "fst (Wager_Save X tx (calm TxActive d)) = (case wager_violation d (wager_row_of X tx) of None \<Rightarrow> Inr ()
     | Some v \<Rightarrow> if v = UniqueViolation ''wager_transactions_provider_external_unique''
         then Inl (AppE ErrWagerTransactionAlreadyExists) else Inl (PgE v))"
  "fst (Wallet_Save w (calm TxActive d)) = (case wallet_violation d (wallet_row_of w) of None \<Rightarrow> Inr ()
     | Some v \<Rightarrow> if v = UniqueViolation ''wallets_player_currency_unique''
         then Inl (AppE ErrWalletAlreadyExists) else Inl (PgE v))"
  "fst (SaveLedgerEntry en (calm TxActive d)) = (case ledger_violation d (ledger_row_of en) of None \<Rightarrow> Inr ()
     | Some v \<Rightarrow> Inl (PgE v))"
  by (auto simp: Wager_Save_def Wallet_Save_def SaveLedgerEntry_def onResult_def calm_query insert_eqs fail_def ret_def
      violation_not_retryable split: option.splits)

lemma steady_save_wager:
  assumes core: "tx_core tx' = tx_core tx" "tx_referenceTransactionID tx' = tx_referenceTransactionID tx"
    and I: "\<And>d. I d \<Longrightarrow> ok_to_save X tx d" and H: "WalletRow (tx_walletID tx) \<in> H" "WagerRow (tx_id tx) \<in> H"
    and rest: "\<And>H'. H \<subseteq> H' \<Longrightarrow> steady t I H' (put_wager (wager_row_of X tx'))"
  shows "steady (save_wager_stmt X tx' t) I H id"
  unfolding save_wager_stmt_def Let_def
proof (rule steady_writing)
  let ?q = "wager_row_of X tx'"
  let ?H = "H \<union> {WagerRow (wr_id ?q), WagerKey (wr_provider_id ?q) (wr_external_transaction_id ?q)}"
  have ok: "ok_to_save X tx' d" if "I d" for d using I [OF that] ok_to_save_core [OF core] by simp
  have H': "WalletRow (tx_walletID tx') \<in> ?H" "WagerRow (tx_id tx') \<in> ?H"
    using H tx_core_eqD(1,5) [OF core(1)] by simp_all
  show "determined I ?H (\<lambda>d. fst (Wager_Save X tx' (calm TxActive (id d))))"
  proof (rule determinedI)
    fix d d' assume "I d" "I d'" and n: "near I ?H d d'"
    then have "wager_violation d' ?q = wager_violation d ?q"
      using H' by (intro wager_violation_near ok near_same [OF n]) simp_all
    then show "fst (Wager_Save X tx' (calm TxActive (id d))) = fst (Wager_Save X tx' (calm TxActive (id d')))"
      by (simp add: saves_answer)
  qed
  show "owned I ?H id (put_wager ?q)"
    unfolding owned_def id_apply
  proof (intro allI impI)
    fix d x assume "I d" and x: "x \<notin> ?H"
    with ok [OF this(1)] booksD(2) [of d] H' show "same x d (put_wager ?q d)"
      by (intro same_wager) (auto simp: ok_to_save_def wager_row_of_def)
  qed
  show "steady t I ?H (put_wager ?q \<circ> id)" unfolding comp_id by (rule rest) blast
qed

lemma steady_event: "steady t I (H \<union> {}) (put_event ev \<circ> w) \<Longrightarrow> steady (writing {} (SaveAll [ev]) (put_event ev) t) I H w"
  by (rule steady_writing) (simp_all add: determined_def owned_def calm_SaveAll del: SaveAll.simps)

lemma steady_reject:
  assumes "\<And>d. I d \<Longrightarrow> ok_to_save X tx d" and "WalletRow (tx_walletID tx) \<in> H" "WagerRow (tx_id tx) \<in> H"
  shows "steady (rejectInTx_stmts X dr tx code w cid) I H id"
  unfolding rejectInTx_stmts_def
proof (intro steady_checked)
  fix tx' ev assume m: "MarkRejected code (dr_mark_now dr) tx = Inr tx'"
  show "steady (save_wager_stmt X tx' (writing {} (SaveAll [ev]) (put_event ev)
      (Done (Inr \<lparr>sr_Transaction = tx', sr_Balance = w_balance w, sr_IdempotentReplay = False\<rparr>)))) I H id"
    by (rule steady_save_wager [OF rejected.mark_core [OF m] rejected.mark_ref [OF m] assms])
      (assumption, rule steady_event, simp)
qed

lemma steady_wallet:
  assumes "\<And>d. I d \<Longrightarrow> lookup_by wl_id (w_id w) (db_wallets d) \<noteq> None" and "\<And>d. db_wallets (wr d) = db_wallets d"
    and "steady t I (H \<union> {WalletRow (w_id w)}) (put_wallet (wallet_row_of w) \<circ> wr)"
  shows "steady (writing {WalletRow (w_id w)} (Wallet_Save w) (put_wallet (wallet_row_of w)) t) I H wr"
proof (rule steady_writing [OF _ _ assms(3)])
  let ?H = "H \<union> {WalletRow (w_id w)}" and ?r = "wallet_row_of w"
  show "determined I ?H (\<lambda>d. fst (Wallet_Save w (calm TxActive (wr d))))"
  proof (rule determinedI)
    fix d d' assume "I d" "I d'"
    then have "(lookup_by wl_id (wl_id ?r) (db_wallets e) = None) = False" if "e \<in> {d, d'}" for e
      using assms(1) [of e] that by (auto simp: wallet_row_of_def)
    then have n: "(lookup_by wl_id (wl_id ?r) (db_wallets d) = None) = False"
      "(lookup_by wl_id (wl_id ?r) (db_wallets d') = None) = False" by blast+
    have "wallet_violation (wr d) ?r = wallet_violation (wr d') ?r"
      unfolding wallet_violation_def assms(2) n simp_thms ..
    then show "fst (Wallet_Save w (calm TxActive (wr d))) = fst (Wallet_Save w (calm TxActive (wr d')))"
      by (simp add: saves_answer)
  qed
  show "owned I ?H wr (put_wallet ?r)"
    by (auto simp: owned_def wallet_row_of_def intro!: same_wallet)
qed

lemma entries_same:
  assumes "same (WalletRow i) d d'"
  shows "(\<exists>l\<in>set (db_ledger d'). lr_wallet_id l = i \<and> P l) \<longleftrightarrow> (\<exists>l\<in>set (db_ledger d). lr_wallet_id l = i \<and> P l)"
proof -
  have "set (filter (\<lambda>l. lr_wallet_id l = i) (db_ledger d')) = set (filter (\<lambda>l. lr_wallet_id l = i) (db_ledger d))"
    using assms by (simp del: set_filter)
  then show ?thesis by auto
qed

lemma steady_ledger:
  assumes "WalletRow (le_walletID en) \<in> H" and "\<And>d. db_ledger (wr d) = db_ledger d"
    and "\<And>d. I d \<Longrightarrow> lookup_by wl_id (le_walletID en) (db_wallets (wr d)) \<noteq> None"
    and "steady t I (H \<union> {LedgerRow (le_id en)}) (add_ledger (ledger_row_of en) \<circ> wr)"
  shows "steady (writing {LedgerRow (le_id en)} (SaveLedgerEntry en) (add_ledger (ledger_row_of en)) t) I H wr"
proof (rule steady_writing [OF _ _ assms(4)])
  let ?H = "H \<union> {LedgerRow (le_id en)}" and ?l = "ledger_row_of en"
  show "determined I ?H (\<lambda>d. fst (SaveLedgerEntry en (calm TxActive (wr d))))"
  proof (rule determinedI)
    fix d d' assume I: "I d" "I d'" and n: "near I ?H d d'"
    have "same (WalletRow (le_walletID en)) d d'" "same (LedgerRow (le_id en)) d d'"
      using assms(1) by (simp_all only: near_same [OF n] Un_iff insert_iff simp_thms)
    then have k: "(\<exists>l\<in>set (db_ledger d'). lr_id l = lr_id ?l) \<longleftrightarrow> (\<exists>l\<in>set (db_ledger d). lr_id l = lr_id ?l)"
      "(\<exists>l\<in>set (db_ledger d'). lr_wallet_id l = lr_wallet_id ?l \<and> lr_transaction_id l = lr_transaction_id ?l) \<longleftrightarrow>
       (\<exists>l\<in>set (db_ledger d). lr_wallet_id l = lr_wallet_id ?l \<and> lr_transaction_id l = lr_transaction_id ?l)"
      using entries_same [of "le_walletID en" d d'] by (simp_all add: ledger_row_of_def)
    have n: "(lookup_by wl_id (lr_wallet_id ?l) (db_wallets (wr d)) = None) = False"
      "(lookup_by wl_id (lr_wallet_id ?l) (db_wallets (wr d')) = None) = False"
      using assms(3) [OF I(1)] assms(3) [OF I(2)] by (simp_all add: ledger_row_of_def)
    have "ledger_violation (wr d) ?l = ledger_violation (wr d') ?l"
      unfolding ledger_violation_def assms(2) k n ..
    then show "fst (SaveLedgerEntry en (calm TxActive (wr d))) = fst (SaveLedgerEntry en (calm TxActive (wr d')))"
      by (simp add: saves_answer)
  qed
  show "owned I ?H wr (add_ledger ?l)"
    using assms(1) by (auto simp: owned_def ledger_row_of_def intro!: same_ledger)
qed

lemma steady_move:
  assumes ok: "\<And>d. I d \<Longrightarrow> ok_to_save X tx d" and H: "WalletRow (tx_walletID tx) \<in> H" "WagerRow (tx_id tx) \<in> H"
    and w: "w_id w = tx_walletID tx" "\<And>d. I d \<Longrightarrow> lookup_by wl_id (tx_walletID tx) (db_wallets d) \<noteq> None"
  shows "steady (moveInTx_stmts X dr tx dir w cid) I H id"
proof (cases "if dir = DirectionDebit then Wallet_Debit w (tx_amount tx) else Wallet_Credit w (tx_amount tx)")
  case (Inl e)
  then show ?thesis using steady_reject [OF ok H] by (simp add: moveInTx_stmts_def)
next
  case (Inr w')
  then have w': "w_id w' = tx_walletID tx"
    using w(1) by (auto split: if_splits dest!: Wallet_Debit_Inr Wallet_Credit_Inr movedD(1))
  show ?thesis
    unfolding moveInTx_stmts_def Let_def Inr sum.case
  proof (intro steady_checked, goal_cases)
    case (1 entry tx' ev1 ev2)
    note en = NewLedgerEntry_Inr(2) [OF 1(1)]
    note mk = processed.mark_core [OF 1(2)] processed.mark_ref [OF 1(2)]
    show ?case
    proof (rule steady_save_wager [OF mk ok H])
      fix H' assume H': "H \<subseteq> H'"
      show "steady (writing {WalletRow (w_id w')} (Wallet_Save w') (put_wallet (wallet_row_of w'))
          (writing {LedgerRow (le_id entry)} (SaveLedgerEntry entry) (add_ledger (ledger_row_of entry))
          (writing {} (SaveAll [ev1]) (put_event ev1)
          (writing {} (SaveAll [ev2]) (put_event ev2)
          (Done (Inr \<lparr>sr_Transaction = tx', sr_Balance = w_balance w', sr_IdempotentReplay = False\<rparr>))))))
          I H' (put_wager (wager_row_of X tx'))"
      proof (rule steady_wallet)
        show "lookup_by wl_id (w_id w') (db_wallets d) \<noteq> None" if "I d" for d using w(2) [OF that] w' by simp
        show "steady (writing {LedgerRow (le_id entry)} (SaveLedgerEntry entry) (add_ledger (ledger_row_of entry))
          (writing {} (SaveAll [ev1]) (put_event ev1)
          (writing {} (SaveAll [ev2]) (put_event ev2)
          (Done (Inr \<lparr>sr_Transaction = tx', sr_Balance = w_balance w', sr_IdempotentReplay = False\<rparr>)))))
          I (H' \<union> {WalletRow (w_id w')}) (put_wallet (wallet_row_of w') \<circ> put_wager (wager_row_of X tx'))"
        proof (rule steady_ledger)
          show "lookup_by wl_id (le_walletID entry) (db_wallets ((put_wallet (wallet_row_of w') \<circ> put_wager (wager_row_of X tx')) d)) \<noteq> None"
            for d using en by (simp add: wallets.lookup_upsert wallet_row_of_def)
        qed (use en in \<open>simp_all add: steady_event del: SaveAll.simps\<close>)
      qed simp
    qed
  qed
qed

text \<open>Who has paid a reference back is protected by the lock of its wallet: a reversal is on the wallet
  of its reference.\<close>

lemma find_filter: "(\<And>x. x \<in> set xs \<Longrightarrow> P x \<Longrightarrow> Q x) \<Longrightarrow> List.find P (filter Q xs) = List.find P xs"
  by (induction xs) auto

lemma find_reversal:
  assumes b: "books d" and r: "refers d tx (Some ref)" and k: "tx_kind tx = KindRefund \<or> tx_kind tx = KindRollback"
  shows "List.find (is_reversal_row (tx_id ref)) (filter (paid_back (tx_walletID tx)) (db_wagers d)) =
    List.find (is_reversal_row (tx_id ref)) (db_wagers d)"
proof (rule find_filter)
  from refers_reversalE [OF r k] obtain o' where o': "o' \<in> processed d" "wr_id o' = tx_id ref" "reference_ok tx (tx_of o')"
    by (metis option.inject)
  fix q assume q: "q \<in> set (db_wagers d)" "is_reversal_row (tx_id ref) q"
  then have p: "q \<in> processed d" "is_reversal q" "wr_reference_transaction_id q = Some (tx_id ref)" "wr_status q = TxStatusProcessed"
    by (simp_all add: is_reversal_row_def processed_def is_reversal_def)
  from booksD(8) [OF b p(1,2)] obtain o2 where o2: "o2 \<in> processed d" "reverses q o2" by blast
  then have same: "wr_id o2 = wr_id o'" using p(3) o'(2) by (simp add: reverses_def)
  have row: "lookup_by wr_id (wr_id r) (db_wagers d) = Some r" if "r \<in> processed d" for r
    using lookup_by_eqI [OF booksD(2) [OF b]] that by (simp add: processed_def)
  from row [OF o2(1)] row [OF o'(1)] same have "o2 = o'" by (metis option.inject)
  have "tx_walletID (tx_of o2) = tx_walletID (tx_of q)" using o2(2) by (simp only: reverses_def reference_ok_def)
  moreover have "tx_walletID (tx_of o') = tx_walletID tx" using o'(3) by (simp only: reference_ok_def)
  ultimately have "wr_wallet_id q = tx_walletID tx" using \<open>o2 = o'\<close> by (simp add: tx_of_def)
  with p show "paid_back (tx_walletID tx) q" by (simp add: paid_back_def)
qed

lemma determined_reversal:
  assumes I: "\<And>d. I d \<Longrightarrow> ok_to_save X tx d" "\<And>d. I d \<Longrightarrow> refers d tx (Some ref)"
    and k: "tx_kind tx = KindRefund \<or> tx_kind tx = KindRollback" and H: "WalletRow (tx_walletID tx) \<in> H"
  shows "determined I H (\<lambda>d. fst (FindReversal X (tx_id ref) (calm TxActive d)))"
proof (rule determinedI)
  fix a b assume d: "I a" "I b" and n: "near I H a b"
  note find = find_reversal [OF _ I(2) k]
  have "books x" if "I x" for x using I(1) [OF that] by (simp add: ok_to_save_def)
  moreover have "filter (paid_back (tx_walletID tx)) (db_wagers b) = filter (paid_back (tx_walletID tx)) (db_wagers a)"
    using near_same [OF n H] by simp
  ultimately have "List.find (is_reversal_row (tx_id ref)) (db_wagers b) = List.find (is_reversal_row (tx_id ref)) (db_wagers a)"
    using find d by metis
  then show "fst (FindReversal X (tx_id ref) (calm TxActive a)) = fst (FindReversal X (tx_id ref) (calm TxActive b))"
    by (simp add: calm_FindReversal split: option.split)
qed

lemma steady_locked:
  assumes ok: "\<And>d. I d \<Longrightarrow> ok_to_save X tx d" and H: "WalletRow (tx_walletID tx) \<in> H" "WagerRow (tx_id tx) \<in> H"
    and w: "w_id w = tx_walletID tx" "\<And>d. I d \<Longrightarrow> lookup_by wl_id (tx_walletID tx) (db_wallets d) \<noteq> None"
    and ref: "\<And>d. I d \<Longrightarrow> refers d tx referenced"
  shows "steady (lockedInTx_stmts X dr tx referenced dir cid w) I H id"
proof (cases "(tx_kind tx = KindRefund \<or> tx_kind tx = KindRollback) \<and> referenced \<noteq> None")
  case True
  then obtain r where k: "tx_kind tx = KindRefund \<or> tx_kind tx = KindRollback" and r: "referenced = Some r" by blast
  note move = steady_move [OF ok H w] and reject = steady_reject [OF ok H]
  let ?k = "\<lambda>f. case f of
      Inl e \<Rightarrow> if e \<noteq> AppE ErrWagerTransactionNotFound then Done (Inl e) else moveInTx_stmts X dr tx dir w cid
    | Inr duplicate \<Rightarrow> rejectInTx_stmts X dr tx FailureCodeDuplicateReversal w cid"
  have "steady (reading {} (FindReversal X (tx_id r)) ?k) I H id"
  proof (rule steady_reading)
    show "determined I (H \<union> {}) (\<lambda>d. fst (FindReversal X (tx_id r) (calm TxActive (id d))))"
      using determined_reversal [OF ok ref [unfolded r] k H(1)] by simp
    have "steady (?k f) I H id" for f using move reject by (simp split: sum.split)
    from steady_mono [OF this] show "steady (?k f) (near I (H \<union> {}) d) (H \<union> {}) id" for f d
      unfolding Un_empty_right by (blast dest: nearD)
  qed
  with k r show ?thesis by (simp add: lockedInTx_stmts_def)
next
  case False
  then show ?thesis using steady_move [OF ok H w] by (auto simp: lockedInTx_stmts_def split: option.split)
qed

record move_call =
  mv_draws :: draws
  mv_tx :: transaction
  mv_referenced :: "transaction option"
  mv_direction :: direction
  mv_correlationID :: string

definition movement_stmts :: "external \<Rightarrow> move_call \<Rightarrow> (error + submit_result) stmts" where
  "movement_stmts X m = processInTx_stmts X (mv_draws m) (mv_tx m) (mv_referenced m) (mv_direction m) (mv_correlationID m)"

definition movement_prog :: "external \<Rightarrow> move_call \<Rightarrow> (sess, error, submit_result) prog" where
  "movement_prog X m = processInTx X (mv_draws m) (mv_tx m) (mv_referenced m) (mv_direction m) (mv_correlationID m)"

text \<open>What \<open>processMovement\<close> knows when it opens the transaction.\<close>

definition startable :: "external \<Rightarrow> move_call \<Rightarrow> db \<Rightarrow> bool" where
  "startable X m d \<longleftrightarrow> movementDirection (tx_kind (mv_tx m)) (mv_referenced m) = Inr (mv_direction m) \<and>
     refers d (mv_tx m) (mv_referenced m) \<and> ok_to_save X (mv_tx m) d"

lemma steady_movement:
  assumes "WagerRow (tx_id (mv_tx m)) \<in> H"
  shows "steady (movement_stmts X m) (startable X m) H id"
  unfolding movement_stmts_def processInTx_stmts_def
proof (rule steady_reading)
  let ?tx = "mv_tx m" and ?wid = "tx_walletID (mv_tx m)"
  let ?H = "H \<union> {WalletRow ?wid}"
  have same: "lookup_by wl_id ?wid (db_wallets d') = lookup_by wl_id ?wid (db_wallets d)"
    if "near (startable X m) ?H d d'" for d d'
    using near_same [OF that, of "WalletRow ?wid"] by simp
  then show "determined (startable X m) ?H (\<lambda>d. fst (Wallet_FindByID X ?wid (calm TxActive (id d))))"
    by (intro determinedI) (simp add: calm_FindByID split: option.split)
  fix d
  have start: "ok_to_save X ?tx d'" "refers d' ?tx (mv_referenced m)" if "near (startable X m) ?H d d'" for d'
    using nearD [OF that] by (simp_all add: startable_def)
  show "steady (checked (fst (Wallet_FindByID X ?wid (calm TxActive (id d))))
      (lockedInTx_stmts X (mv_draws m) ?tx (mv_referenced m) (mv_direction m) (mv_correlationID m)))
      (near (startable X m) ?H d) ?H id"
  proof (rule steady_checked)
    fix w assume "fst (Wallet_FindByID X ?wid (calm TxActive (id d))) = Inr w"
    then obtain row where row: "lookup_by wl_id ?wid (db_wallets d) = Some row" "w = wallet_of row"
      by (auto simp: calm_FindByID scanWallet_eq split: option.splits if_splits)
    show "steady (lockedInTx_stmts X (mv_draws m) ?tx (mv_referenced m) (mv_direction m) (mv_correlationID m) w)
        (near (startable X m) ?H d) ?H id"
    proof (rule steady_locked)
      show "w_id w = ?wid" using lookup_by_SomeD [OF row(1)] row(2) by (simp add: wallet_of_def)
    qed (use assms start same row(1) in simp_all)
  qed
qed

section \<open>Interleaved transactions\<close>

record open_tx =
  ot_movement :: move_call
  ot_claims :: "claim set"
  ot_writes :: "db \<Rightarrow> db"
  ot_rest :: "(error + submit_result) stmts"

text \<open>A process has drawn its wager transaction's identifier itself or, the resolver, found the transaction
  parked: no two open transactions are for the same one.\<close>

definition begin_tx :: "external \<Rightarrow> move_call \<Rightarrow> open_tx" where
  "begin_tx X m = \<lparr>ot_movement = m, ot_claims = {WagerRow (tx_id (mv_tx m))}, ot_writes = id, ot_rest = movement_stmts X m\<rparr>"

text \<open>Everything else the service commits: it keeps the books and outcomes and what is claimed.\<close>

definition elsewhere :: "db \<Rightarrow> db \<Rightarrow> bool" where
  "elsewhere d d' \<longleftrightarrow> books d' \<and> tables_grow d d' \<and> final_kept d d'"

record locked =
  lk_db :: db
  lk_open :: "open_tx list"

inductive lock_step :: "external \<Rightarrow> locked \<Rightarrow> locked \<Rightarrow> bool" for X :: external where
  begins: "startable X m (lk_db s) \<Longrightarrow> \<forall>t\<in>set (lk_open s). WagerRow (tx_id (mv_tx m)) \<notin> ot_claims t \<Longrightarrow>
    lock_step X s (s\<lparr>lk_open := begin_tx X m # lk_open s\<rparr>)"
| executes: "lk_open s = us @ t # vs \<Longrightarrow> ot_rest t = Stmt c e k \<Longrightarrow> \<forall>u\<in>set us \<union> set vs. c \<inter> ot_claims u = {} \<Longrightarrow>
    lock_step X s (s\<lparr>lk_open := us @ t\<lparr>ot_claims := ot_claims t \<union> c, ot_writes := e \<circ> ot_writes t,
      ot_rest := k (ot_writes t (lk_db s))\<rparr> # vs\<rparr>)"
| commits: "lk_open s = us @ t # vs \<Longrightarrow> ot_rest t = Done (Inr res) \<Longrightarrow>
    lock_step X s \<lparr>lk_db = ot_writes t (lk_db s), lk_open = us @ vs\<rparr>"
| rolls_back: "lk_open s = us @ t # vs \<Longrightarrow> lock_step X s (s\<lparr>lk_open := us @ vs\<rparr>)"
| others: "elsewhere (lk_db s) d' \<Longrightarrow> \<forall>t\<in>set (lk_open s). \<forall>x\<in>ot_claims t. same x (lk_db s) d' \<Longrightarrow>
    lock_step X s (s\<lparr>lk_db := d'\<rparr>)"

text \<open>The same service with every movement in one piece.\<close>

inductive serial_step :: "external \<Rightarrow> db \<Rightarrow> db \<Rightarrow> bool" for X :: external where
  moves: "startable X m d \<Longrightarrow> WithinTx (movement_prog X m) (calm NoTx d) = (Inr res, calm NoTx d') \<Longrightarrow> serial_step X d d'"
| others: "elsewhere d d' \<Longrightarrow> serial_step X d d'"

definition tx_ok :: "external \<Rightarrow> db \<Rightarrow> open_tx \<Rightarrow> bool" where
  "tx_ok X d t \<longleftrightarrow> startable X (ot_movement t) d \<and> WagerRow (tx_id (mv_tx (ot_movement t))) \<in> ot_claims t \<and>
     on_track (startable X (ot_movement t)) (movement_stmts X (ot_movement t)) d (ot_claims t) (ot_writes t) (ot_rest t)"

definition apart :: "open_tx \<Rightarrow> open_tx \<Rightarrow> bool" where
  "apart t u \<longleftrightarrow> ot_claims t \<inter> ot_claims u = {}"

definition locked_ok :: "external \<Rightarrow> locked \<Rightarrow> bool" where
  "locked_ok X s \<longleftrightarrow> books (lk_db s) \<and> (\<forall>t\<in>set (lk_open s). tx_ok X (lk_db s) t) \<and> sorted_wrt apart (lk_open s)"

lemma apart_sym: "apart t u \<longleftrightarrow> apart u t"
  by (simp add: apart_def Int_commute)

lemma apart_middle:
  "sorted_wrt apart (us @ t # vs) \<longleftrightarrow> sorted_wrt apart (us @ vs) \<and> (\<forall>u\<in>set us \<union> set vs. apart t u)"
  using apart_sym by (auto simp: sorted_wrt_append)

lemma startable_kept:
  assumes "startable X m d" and "elsewhere d d'" and "same (WagerRow (tx_id (mv_tx m))) d d'"
  shows "startable X m d'"
proof -
  have "refers d' (mv_tx m) (mv_referenced m)"
    using assms(1,2) booksD(2) by (auto simp: startable_def ok_to_save_def elsewhere_def intro: refers_kept)
  moreover have "writable d' (wager_row_of X (mv_tx m))"
    using assms(1,3) by (simp add: startable_def ok_to_save_def writable_def wager_row_of_def)
  moreover have "lookup_by wr_id r (db_wagers d') \<noteq> None" if "lookup_by wr_id r (db_wagers d) \<noteq> None" for r
    using assms(2) that unfolding elsewhere_def tables_grow_def by (metis option.exhaust option.simps(3))
  ultimately show ?thesis using assms(1,2) by (auto simp: startable_def ok_to_save_def elsewhere_def)
qed

lemma tx_ok_others:
  assumes "tx_ok X d t" and "elsewhere d d'" and "\<forall>x\<in>ot_claims t. same x d d'"
  shows "tx_ok X d' t"
proof -
  have s: "startable X (ot_movement t) d'"
    using assms by (auto simp: tx_ok_def intro: startable_kept simp del: same.simps)
  have "near (startable X (ot_movement t)) (ot_claims t) d d'"
    using s assms(3) by (simp add: near_def)
  with s assms(1) show ?thesis by (auto simp: tx_ok_def intro: on_track_others)
qed

text \<open>A commit is a movement in one piece.\<close>

lemma commit_moves:
  assumes t: "tx_ok X d t" and r: "ot_rest t = Done (Inr res)" and b: "books d"
  shows "WithinTx (movement_prog X (ot_movement t)) (calm NoTx d) = (Inr res, calm NoTx (ot_writes t d))"
    and "elsewhere d (ot_writes t d)" and "x \<notin> ot_claims t \<Longrightarrow> same x d (ot_writes t d)"
proof -
  let ?m = "ot_movement t"
  have s: "startable X ?m d" and o: "on_track (startable X ?m) (movement_stmts X ?m) d (ot_claims t) (ot_writes t) (Done (Inr res))"
    using t r by (simp_all add: tx_ok_def)
  have "exec (movement_stmts X ?m) d = (Inr res, ot_writes t d)" using o s by (rule on_track_Done)
  from exec_processInTx [OF this [unfolded movement_stmts_def]]
  have run: "processInTx X (mv_draws ?m) (mv_tx ?m) (mv_referenced ?m) (mv_direction ?m) (mv_correlationID ?m) (calm TxActive d) =
      (Inr res, calm TxActive (ot_writes t d))" .
  then show "WithinTx (movement_prog X ?m) (calm NoTx d) = (Inr res, calm NoTx (ot_writes t d))"
    by (intro calm_WithinTx_ok) (simp add: movement_prog_def)
  have w: "writable d (wager_row_of X (mv_tx ?m))" using s by (simp add: startable_def ok_to_save_def)
  have "books (ot_writes t d)"
    using processInTx_books [OF run] b w s by (simp add: startable_def)
  moreover have "tables_grow d (ot_writes t d)"
    using changesD [OF growth.movement_changes(3) run] by simp
  moreover have "final_kept d (ot_writes t d)"
    unfolding final_kept_def
  proof (intro allI impI)
    fix j q assume q: "lookup_by wr_id j (db_wagers d) = Some q" "TxStatus_IsTerminal (wr_status q)"
    have "others_kept (tx_id (mv_tx ?m)) d (ot_writes t d)"
      using settlement_frame(1) [OF processInTx_settlement [OF run refl]] by simp
    moreover have "j \<noteq> tx_id (mv_tx ?m)" using w q by (auto simp: writable_def wager_row_of_def)
    ultimately show "lookup_by wr_id j (db_wagers (ot_writes t d)) = Some q" using q(1) by (simp add: others_kept_def)
  qed
  ultimately show "elsewhere d (ot_writes t d)" by (simp add: elsewhere_def)
  show "same x d (ot_writes t d)" if "x \<notin> ot_claims t"
    using o near_refl [of "startable X ?m" d "ot_claims t"] s that by (simp add: on_track_def)
qed

lemma lock_step_ok:
  assumes "lock_step X s s'" and "locked_ok X s"
  shows "locked_ok X s' \<and> (serial_step X)\<^sup>*\<^sup>* (lk_db s) (lk_db s')"
  using assms
proof (induction rule: lock_step.induct)
  case (begins m s)
  have "tx_ok X (lk_db s) (begin_tx X m)"
    using begins(1) on_track_begin [OF steady_movement] by (simp add: tx_ok_def begin_tx_def)
  with begins show ?case by (auto simp: locked_ok_def apart_def begin_tx_def)
next
  case (executes s us t vs c e k)
  let ?t = "t\<lparr>ot_claims := ot_claims t \<union> c, ot_writes := e \<circ> ot_writes t, ot_rest := k (ot_writes t (lk_db s))\<rparr>"
  have "tx_ok X (lk_db s) t" using executes by (simp add: locked_ok_def)
  then have "tx_ok X (lk_db s) ?t"
    using executes(2) on_track_stmt by (auto simp: tx_ok_def)
  moreover have "sorted_wrt apart (us @ ?t # vs)"
    using executes(1,3,4) unfolding locked_ok_def apart_middle by (auto simp: apart_def apart_middle)
  ultimately show ?case using executes(1,4) by (auto simp: locked_ok_def)
next
  case (commits s us t vs res)
  have ok: "tx_ok X (lk_db s) t" "books (lk_db s)" "sorted_wrt apart (us @ vs)" "\<forall>u\<in>set us \<union> set vs. apart t u"
    "\<forall>u\<in>set us \<union> set vs. tx_ok X (lk_db s) u"
    using commits(1,3) by (auto simp: locked_ok_def apart_middle)
  note C = commit_moves [OF ok(1) commits(2) ok(2)]
  have "tx_ok X (ot_writes t (lk_db s)) u" if u: "u \<in> set us \<union> set vs" for u
  proof (rule tx_ok_others [OF bspec [OF ok(5) u] C(2)])
    show "\<forall>x\<in>ot_claims u. same x (lk_db s) (ot_writes t (lk_db s))"
      using C(3) bspec [OF ok(4) u] by (auto simp: apart_def)
  qed
  moreover have "serial_step X (lk_db s) (ot_writes t (lk_db s))"
    using ok(1) by (intro serial_step.moves [OF _ C(1)]) (simp add: tx_ok_def)
  ultimately show ?case using ok(3) C(2) by (auto simp: locked_ok_def elsewhere_def)
next
  case (rolls_back s us t vs)
  then show ?case by (auto simp: locked_ok_def apart_middle)
next
  case (others s d')
  then show ?case
    using tx_ok_others by (auto simp: locked_ok_def elsewhere_def intro!: r_into_rtranclp serial_step.others)
qed

lemma lock_steps_ok:
  assumes "(lock_step X)\<^sup>*\<^sup>* s s'" and "locked_ok X s"
  shows "locked_ok X s' \<and> (serial_step X)\<^sup>*\<^sup>* (lk_db s) (lk_db s')"
  using assms
proof (induction rule: rtranclp_induct)
  case (step t u)
  from step.IH [OF step.prems] lock_step_ok [OF step.hyps(2)] show ?case
    using rtranclp_trans [of "serial_step X" "lk_db s" "lk_db t" "lk_db u"] by blast
qed simp

lemma unopened_ok: "books (lk_db s) \<Longrightarrow> lk_open s = [] \<Longrightarrow> locked_ok X s"
  by (simp add: locked_ok_def)

text \<open>The round trips of \<open>Service\<close> are such other changes, as far as they respect what is claimed.\<close>

lemma service_elsewhere:
  assumes "service_ok X s" and "service_step X s s'"
  shows "elsewhere (sv_db s) (sv_db s')"
  using service_step_ok [OF assms(2,1)] by (simp add: elsewhere_def service_ok_def sound_def)

section \<open>Properties\<close>


section \<open>No deadlock\<close>

text \<open>A movement claims its wallet, then its idempotency key, then its ledger entry.\<close>

fun rank :: "claim \<Rightarrow> nat" where
  "rank (WagerRow i) = 0"
| "rank (WalletRow i) = 1"
| "rank (WagerKey p e) = 2"
| "rank (LedgerRow i) = 3"

primrec climbs :: "'a stmts \<Rightarrow> claim set \<Rightarrow> bool" where
  "climbs (Done x) = (\<lambda>H. True)"
| "climbs (Stmt c e k) = (\<lambda>H. (\<forall>x\<in>c - H. \<forall>y\<in>H. rank y < rank x) \<and> (\<forall>d. (climbs \<circ> k) d (H \<union> c)))"

lemma climbs_Stmt:
  "climbs (Stmt c e k) H \<longleftrightarrow> (\<forall>x\<in>c - H. \<forall>y\<in>H. rank y < rank x) \<and> (\<forall>d. climbs (k d) (H \<union> c))"
  by simp

declare climbs.simps(2) [simp del]

lemma climbs_checked: "(\<And>x. r = Inr x \<Longrightarrow> climbs (k x) H) \<Longrightarrow> climbs (checked r k) H"
  by (cases r) (simp_all add: checked_def)

lemma climbs_writing:
  "(\<And>x y. x \<in> c \<Longrightarrow> x \<notin> H \<Longrightarrow> y \<in> H \<Longrightarrow> rank y < rank x) \<Longrightarrow> climbs t (H \<union> c) \<Longrightarrow> climbs (writing c m e t) H"
  unfolding writing_def climbs_Stmt by (auto intro!: climbs_checked)

lemma climbs_save:
  assumes "tx_core tx' = tx_core tx" and "\<And>p e. climbs t {WagerRow (tx_id tx), WalletRow i, WagerKey p e}"
  shows "climbs (save_wager_stmt X tx' t) {WagerRow (tx_id tx), WalletRow i}"
  unfolding save_wager_stmt_def Let_def
proof (rule climbs_writing)
  let ?q = "wager_row_of X tx'"
  have id: "wr_id ?q = tx_id tx" using tx_core_eqD(1) [OF assms(1)] by simp
  show "climbs t ({WagerRow (tx_id tx), WalletRow i} \<union>
      {WagerRow (wr_id ?q), WagerKey (wr_provider_id ?q) (wr_external_transaction_id ?q)})"
    using assms(2) [of "wr_provider_id ?q" "wr_external_transaction_id ?q"] unfolding id by (simp add: insert_commute)
qed (use tx_core_eqD(1) [OF assms(1)] in auto)

lemma climbs_reject:
  "climbs (rejectInTx_stmts X dr tx code w cid) {WagerRow (tx_id tx), WalletRow i}"
  unfolding rejectInTx_stmts_def
  by (intro climbs_checked climbs_save climbs_writing) (auto dest: rejected.mark_core)

lemma climbs_move:
  assumes "w_id w = i"
  shows "climbs (moveInTx_stmts X dr tx dir w cid) {WagerRow (tx_id tx), WalletRow i}"
proof (cases "if dir = DirectionDebit then Wallet_Debit w (tx_amount tx) else Wallet_Credit w (tx_amount tx)")
  case (Inl e)
  then show ?thesis using climbs_reject by (simp add: moveInTx_stmts_def)
next
  case (Inr w')
  then have w': "w_id w' = i"
    using assms by (auto split: if_splits dest!: Wallet_Debit_Inr Wallet_Credit_Inr movedD(1))
  show ?thesis
    unfolding moveInTx_stmts_def Let_def Inr sum.case w'
    by (intro climbs_checked climbs_save climbs_writing) (auto dest: processed.mark_core)
qed

lemma climbs_locked:
  assumes "w_id w = tx_walletID tx"
  shows "climbs (lockedInTx_stmts X dr tx referenced dir cid w) {WagerRow (tx_id tx), WalletRow (tx_walletID tx)}"
    (is "climbs _ ?H")
proof -
  have "climbs (reading {} n k) ?H" if "\<And>r. climbs (k r) ?H"
    for n :: "(sess, error, transaction) prog" and k :: "error + transaction \<Rightarrow> (error + submit_result) stmts"
    using that by (simp add: reading_def climbs_Stmt)
  then show ?thesis
    unfolding lockedInTx_stmts_def
    using climbs_move [OF assms] climbs_reject by (auto split: option.split sum.split)
qed

lemma climbs_movement: "climbs (movement_stmts X m) {WagerRow (tx_id (mv_tx m))}"
proof -
  let ?wid = "tx_walletID (mv_tx m)"
  have w: "w_id w = ?wid" if "fst (Wallet_FindByID X ?wid (calm TxActive d)) = Inr w" for w d
    using that by (auto simp: calm_FindByID scanWallet_eq wallet_of_def dest: lookup_by_SomeD split: option.splits if_splits)
  have H: "{WagerRow (tx_id (mv_tx m))} \<union> {WalletRow ?wid} = {WagerRow (tx_id (mv_tx m)), WalletRow ?wid}" by blast
  have "climbs (checked (fst (Wallet_FindByID X ?wid (calm TxActive d)))
      (lockedInTx_stmts X (mv_draws m) (mv_tx m) (mv_referenced m) (mv_direction m) (mv_correlationID m)))
      {WagerRow (tx_id (mv_tx m)), WalletRow ?wid}" for d
    by (rule climbs_checked) (rule climbs_locked, erule w)
  then show ?thesis
    unfolding movement_stmts_def processInTx_stmts_def reading_def [of "{WalletRow _}"] climbs_Stmt H by auto
qed

lemma climbing_step:
  assumes "lock_step X s s'" and "\<forall>t\<in>set (lk_open s). climbs (ot_rest t) (ot_claims t)"
  shows "\<forall>t\<in>set (lk_open s'). climbs (ot_rest t) (ot_claims t)"
  using assms
  by (induction rule: lock_step.induct) (auto simp: begin_tx_def climbs_movement climbs_Stmt)

lemma climbing_steps:
  assumes "(lock_step X)\<^sup>*\<^sup>* s s'" and "lk_open s = []"
  shows "\<forall>t\<in>set (lk_open s'). climbs (ot_rest t) (ot_claims t)"
  using assms(1)
proof (induction rule: rtranclp_induct)
  case (step t u)
  from climbing_step [OF step.hyps(2) step.IH] show ?case .
qed (simp add: assms(2))

text \<open>\<open>held_up s t x\<close>: the next statement of \<open>t\<close> waits for \<open>x\<close>.\<close>

definition held_up :: "locked \<Rightarrow> open_tx \<Rightarrow> claim \<Rightarrow> bool" where
  "held_up s t x \<longleftrightarrow> (\<exists>us vs c e k. lk_open s = us @ t # vs \<and> ot_rest t = Stmt c e k \<and> x \<in> c \<and>
     (\<exists>u\<in>set us \<union> set vs. x \<in> ot_claims u))"

lemma held_up_chain:
  assumes "locked_ok X s" and "\<forall>t\<in>set (lk_open s). climbs (ot_rest t) (ot_claims t)"
    and "\<forall>t\<in>set (lk_open s). \<exists>x. held_up s t x" and "held_up s t x"
  shows "\<exists>u y. held_up s u y \<and> rank x < rank y"
proof -
  from assms(4) obtain us vs u where "lk_open s = us @ t # vs" "u \<in> set us \<union> set vs" and x: "x \<in> ot_claims u"
    unfolding held_up_def by blast
  then have u: "u \<in> set (lk_open s)" "x \<in> ot_claims u" by auto
  with assms(3) obtain y where y: "held_up s u y" by blast
  then obtain us vs c e k v where r: "lk_open s = us @ u # vs" "ot_rest u = Stmt c e k" "y \<in> c"
    "v \<in> set us \<union> set vs" "y \<in> ot_claims v" unfolding held_up_def by blast
  have "apart u v" using assms(1) r(1,4) by (simp add: locked_ok_def apart_middle)
  then have "y \<in> c - ot_claims u" using r(3,5) by (auto simp: apart_def)
  moreover have "climbs (Stmt c e k) (ot_claims u)" using assms(2) u(1) r(2) by metis
  ultimately have "rank x < rank y" using u(2) by (auto simp: climbs_Stmt)
  with y show ?thesis by blast
qed

lemma rank_bound: "rank x \<le> 3"
  by (cases x) simp_all

lemma not_all_blocked:
  assumes "locked_ok X s" and "\<forall>t\<in>set (lk_open s). climbs (ot_rest t) (ot_claims t)" and "lk_open s \<noteq> []"
  shows "\<exists>t\<in>set (lk_open s). \<forall>x. \<not> held_up s t x"
proof (rule ccontr)
  assume "\<not> ?thesis"
  then have all: "\<forall>t\<in>set (lk_open s). \<exists>x. held_up s t x" by blast
  have far: "\<exists>t x. held_up s t x \<and> n \<le> rank x" for n
  proof (induction n)
    case 0
    from assms(3) all show ?case by (cases "lk_open s") auto
  next
    case (Suc n)
    then obtain t x where "held_up s t x" "n \<le> rank x" by blast
    with held_up_chain [OF assms(1,2) all] show ?case by (metis Suc_leI le_less_trans)
  qed
  from far [of 4] obtain x where "4 \<le> rank x" by blast
  with rank_bound [of x] show False by simp
qed

text \<open>Claim C11. Movements cannot deadlock: while transactions are open, one of them is finished or has a next
  statement that waits for nobody. A transaction claims its wallet before its idempotency key and that
  before its ledger entry, so the waiting never closes a circle.\<close>

theorem movements_cannot_deadlock:
  assumes "books (lk_db s)" and "lk_open s = []" and "(lock_step X)\<^sup>*\<^sup>* s s'" and "lk_open s' \<noteq> []"
  shows "\<exists>us t vs. lk_open s' = us @ t # vs \<and>
    (case ot_rest t of Done r \<Rightarrow> True | Stmt c e k \<Rightarrow> \<forall>u\<in>set us \<union> set vs. c \<inter> ot_claims u = {})"
proof -
  have "locked_ok X s'" using lock_steps_ok [OF assms(3) unopened_ok [OF assms(1,2)]] by simp
  from not_all_blocked [OF this climbing_steps [OF assms(3,2)] assms(4)]
  obtain t where t: "t \<in> set (lk_open s')" "\<forall>x. \<not> held_up s' t x" by blast
  from split_list [OF t(1)] obtain us vs where "lk_open s' = us @ t # vs" by blast
  moreover have "case ot_rest t of Done r \<Rightarrow> True | Stmt c e k \<Rightarrow> \<forall>u\<in>set us \<union> set vs. c \<inter> ot_claims u = {}"
  proof (cases "ot_rest t")
    case (Stmt c e k)
    have "x \<notin> ot_claims u" if "u \<in> set us \<union> set vs" "x \<in> c" for u x
      using t(2) calculation Stmt that unfolding held_up_def by blast
    with Stmt show ?thesis by auto
  qed simp
  ultimately show ?thesis by blast
qed

section \<open>Two refunds in two transactions\<close>

text \<open>The transaction at a position does its next statement unless it has to wait, or ends.\<close>

definition lock_tick :: "nat \<Rightarrow> locked \<Rightarrow> locked" where
  "lock_tick n s =
     (if length (lk_open s) \<le> n then s
      else let t = lk_open s ! n; us = take n (lk_open s); vs = drop (Suc n) (lk_open s) in
        case ot_rest t of
          Done (Inl e) \<Rightarrow> s\<lparr>lk_open := us @ vs\<rparr>
        | Done (Inr res) \<Rightarrow> \<lparr>lk_db = ot_writes t (lk_db s), lk_open = us @ vs\<rparr>
        | Stmt c e k \<Rightarrow>
            if \<exists>u\<in>set (us @ vs). c \<inter> ot_claims u \<noteq> {} then s
            else s\<lparr>lk_open := us @ t\<lparr>ot_claims := ot_claims t \<union> c, ot_writes := e \<circ> ot_writes t,
              ot_rest := k (ot_writes t (lk_db s))\<rparr> # vs\<rparr>)"

lemma lock_tick_step: "(lock_step X)\<^sup>*\<^sup>* s (lock_tick n s)"
proof (cases "length (lk_open s) \<le> n")
  case False
  then have n: "n < length (lk_open s)" by simp
  note at = id_take_nth_drop [OF n]
  show ?thesis
  proof (cases "ot_rest (lk_open s ! n)")
    case (Done r)
    then show ?thesis
      using lock_step.commits [OF at] lock_step.rolls_back [OF at] n
      by (cases r) (auto simp: lock_tick_def Let_def intro!: r_into_rtranclp)
  next
    case (Stmt c e k)
    then show ?thesis
      using lock_step.executes [OF at Stmt] n by (auto simp: lock_tick_def Let_def intro!: r_into_rtranclp)
  qed
qed (simp add: lock_tick_def)

lemma lock_ticks_step: "(lock_step X)\<^sup>*\<^sup>* s (fold lock_tick ns s)"
proof (induction ns arbitrary: s)
  case (Cons n ns)
  from lock_tick_step Cons.IH show ?case by (simp add: rtranclp_trans [of _ s "lock_tick n s"])
qed simp

definition refund_movement :: "uuid \<Rightarrow> move_call" where
  "refund_movement i = \<lparr>mv_draws = sample_draws\<lparr>dr_entry_id := i + 1\<rparr>,
     mv_tx = (sample_refund TxStatusPending (Some 7))\<lparr>tx_id := i,
       tx_externalTransactionID := if i = 40 then ''refund-2'' else ''refund-1''\<rparr>,
     mv_referenced = Some (sample_bet TxStatusProcessed), mv_direction = DirectionCredit, mv_correlationID = ''c''\<rparr>"

definition unopened :: locked where
  "unopened = \<lparr>lk_db = bet_db, lk_open = []\<rparr>"

definition two_transactions :: locked where
  "two_transactions = unopened\<lparr>lk_open :=
     [begin_tx sample_external (refund_movement 40), begin_tx sample_external (refund_movement 50)]\<rparr>"

lemma refund_startable:
  assumes "i \<in> {40, 50}"
  shows "startable sample_external (refund_movement i) bet_db"
proof -
  let ?m = "refund_movement i"
  have "refers bet_db (mv_tx ?m) (mv_referenced ?m)"
    unfolding refers_def
    by (auto simp: refund_movement_def sample_refund_def sample_bet_def reference_ok_def referenceableKind_def tx_of_def
        wager_row_of_def nullableString_def stringOrEmpty_def
        intro!: bexI [OF _ bet_row])
  moreover have "ok_to_save sample_external (mv_tx ?m) bet_db"
    using assms books_bet
    by (auto simp: ok_to_save_def refund_movement_def sample_refund_def sample_bet_def writable_def bet_db_eq
        sample_opening_def wager_row_of_def)
  moreover have "movementDirection (tx_kind (mv_tx ?m)) (mv_referenced ?m) = Inr (mv_direction ?m)"
    by (simp add: refund_movement_def sample_refund_def sample_bet_def movementDirection_def)
  ultimately show ?thesis by (simp add: startable_def)
qed

lemma two_transactions_begun: "(lock_step sample_external)\<^sup>*\<^sup>* unopened two_transactions"
proof -
  have "lock_step sample_external unopened (unopened\<lparr>lk_open := begin_tx sample_external (refund_movement 50) # lk_open unopened\<rparr>)"
    by (rule lock_step.begins) (simp_all add: unopened_def refund_startable)
  moreover have "WagerRow (tx_id (mv_tx (refund_movement 40))) \<noteq> WagerRow (tx_id (mv_tx (refund_movement 50)))"
    by (simp add: refund_movement_def)
  then have "lock_step sample_external (unopened\<lparr>lk_open := [begin_tx sample_external (refund_movement 50)]\<rparr>)
      ((unopened\<lparr>lk_open := [begin_tx sample_external (refund_movement 50)]\<rparr>)
        \<lparr>lk_open := begin_tx sample_external (refund_movement 40) #
           lk_open (unopened\<lparr>lk_open := [begin_tx sample_external (refund_movement 50)]\<rparr>)\<rparr>)"
    by (intro lock_step.begins) (simp_all add: unopened_def refund_startable begin_tx_def)
  ultimately show ?thesis
    unfolding two_transactions_def by (simp add: unopened_def)
qed

text \<open>The second refund waits for the wallet until the first has committed, and then finds it.\<close>

abbreviation "after_waiting \<equiv> fold lock_tick [0, 1, 0, 1, 0, 0, 0, 0, 0, 0] two_transactions"


theorem movements_cannot_deadlock_witness:
  "\<exists>us t vs. lk_open two_transactions = us @ t # vs \<and>
    (case ot_rest t of Done r \<Rightarrow> True | Stmt c e k \<Rightarrow> list_all (\<lambda>u. c \<inter> ot_claims u = {}) (us @ vs))"
proof -
  have "lk_open two_transactions \<noteq> []" by (simp add: two_transactions_def)
  from movements_cannot_deadlock [OF _ _ two_transactions_begun this] books_bet
  obtain us t vs where at: "lk_open two_transactions = us @ t # vs"
    and free: "case ot_rest t of Done r \<Rightarrow> True | Stmt c e k \<Rightarrow> \<forall>u\<in>set us \<union> set vs. c \<inter> ot_claims u = {}"
    by (auto simp: unopened_def)
  have "case ot_rest t of Done r \<Rightarrow> True | Stmt c e k \<Rightarrow> list_all (\<lambda>u. c \<inter> ot_claims u = {}) (us @ vs)"
    using free by (cases "ot_rest t") (simp_all add: list_all_iff)
  with at show ?thesis by blast
qed

end
