(* ===== verification/Parking.thy ===== *)
theory Parking
  imports Concurrent
begin

text \<open>
  How long a reversal stays parked. \<open>resolver_rounds\<close> are the ticks of the resolver's loop, failed ones
  included, with the work of others in between. Every round that works through a parked transaction
  settles it or counts one more attempt, and at the configured number of attempts it is rejected.
\<close>

section \<open>What a resolution files\<close>

definition row_status :: "uuid \<Rightarrow> db \<Rightarrow> tx_status option" where
  "row_status i d = map_option wr_status (lookup_by wr_id i (db_wagers d))"

text \<open>With a result, the row has the status that is returned.\<close>

definition files :: "tx_status set \<Rightarrow> uuid \<Rightarrow> (sess, error, submit_result) prog \<Rightarrow> bool" where
  "files S i m \<longleftrightarrow> (\<forall>s res t. row_status i (s_db s) = Some TxStatusPendingReference \<longrightarrow> m s = (Inr res, t) \<longrightarrow>
     tx_status (sr_Transaction res) \<in> S \<and> row_status i (s_db t) = Some (tx_status (sr_Transaction res)))"

named_theorems files_rules "programs that file the outcome they return"

lemma filesD:
  "files S i m \<Longrightarrow> row_status i (s_db s) = Some TxStatusPendingReference \<Longrightarrow> m s = (Inr res, t) \<Longrightarrow>
     tx_status (sr_Transaction res) \<in> S \<and> row_status i (s_db t) = Some (tx_status (sr_Transaction res))"
  by (auto simp: files_def)

lemma files_fail [files_rules]: "files S i (fail e)"
  by (simp add: files_def)

lemma files_liftE [files_rules]: "(\<And>x. q = Inr x \<Longrightarrow> files S i (k x)) \<Longrightarrow> files S i (bindE (liftE q) k)"
  by (cases q) (auto simp: files_def bindE_def)

lemma files_cases [files_rules]:
  "files S i m \<Longrightarrow> files S i n \<Longrightarrow> files S i (if b then m else n)"
  "(\<And>e. files S i (f e)) \<Longrightarrow> (\<And>x. r = Inr x \<Longrightarrow> files S i (g x)) \<Longrightarrow> files S i (case r of Inl e \<Rightarrow> f e | Inr x \<Rightarrow> g x)"
  "files S i h \<Longrightarrow> (\<And>y. files S i (j y)) \<Longrightarrow> files S i (case v of None \<Rightarrow> h | Some y \<Rightarrow> j y)"
  by (auto split: sum.split option.split)

lemma files_reads [files_rules]:
  "(\<And>s r t. m s = (r, t) \<Longrightarrow> s_db t = s_db s) \<Longrightarrow> (\<And>x. files S i (k x)) \<Longrightarrow> files S i (bindE m k)"
  "(\<And>s r t. m s = (r, t) \<Longrightarrow> s_db t = s_db s) \<Longrightarrow> (\<And>r. files S i (k' r)) \<Longrightarrow> files S i (onResult m k')"
  unfolding files_def bindE_def onResult_def by (auto split: prod.splits sum.splits) metis+

lemma files_mono: "files S i m \<Longrightarrow> S \<subseteq> T \<Longrightarrow> files T i m"
  unfolding files_def by blast

lemma WithinTx_done:
  assumes "WithinTx fn s = (Inr x, t)"
  obtains s1 t1 where "s_db s1 = s_db s" "fn s1 = (Inr x, t1)" "s_db t = s_db t1"
proof (cases "s_tx s = NoTx")
  case True
  from assms True show thesis by (rule WithinTx_InrE) (rule that)
next
  case False
  with assms that show thesis by (simp add: WithinTx_nested)
qed

lemma files_WithinTx [files_rules]: "files S i fn \<Longrightarrow> files S i (WithinTx fn)"
  unfolding files_def by (auto elim!: WithinTx_done) metis+

lemma row_status_put [simp]:
  "row_status i (put_wager q d) = (if i = wr_id q then Some (wr_status q) else row_status i d)"
  "row_status i (put_event ev d) = row_status i d" "row_status i (put_outbox evs d) = row_status i d"
  "row_status i (booked q w l d) = (if i = wr_id q then Some (wr_status q) else row_status i d)"
  by (auto simp: row_status_def wagers.lookup_upsert wager_merge_def split: option.split)

lemma marked:
  "MarkRejected code now tx = Inr tx' \<Longrightarrow> tx_id tx' = tx_id tx \<and> tx_status tx' = TxStatusRejected"
  "MarkProcessed now tx = Inr tx' \<Longrightarrow> tx_id tx' = tx_id tx \<and> tx_status tx' = TxStatusProcessed"
  "MarkPendingReference now tx = Inr tx' \<Longrightarrow> tx_id tx' = tx_id tx \<and> tx_status tx' = TxStatusPendingReference"
  using rejected.mark_target rejected.mark_core processed.mark_target processed.mark_core parked.mark_target
    parked.mark_core tx_core_eqD(1) by metis+

lemma files_save [files_rules]: "tx_status tx \<in> S \<Longrightarrow> tx_id tx = i \<Longrightarrow> files S i (saveWithEvent X tx ev)"
  unfolding files_def saveWithEvent_def
  by (auto elim!: bindE_InrE WithinTx_done Wager_Save_InrE SaveAll_InrE dest!: Wallet_FindByID_db simp del: SaveAll.simps)

lemma files_reject [files_rules]: "tx_id tx = i \<Longrightarrow> files {TxStatusRejected} i (reject X dr tx code cid)"
  unfolding reject_def
  by (intro files_rules) (auto dest!: marked)

lemma files_rejectInTx: "tx_id tx = i \<Longrightarrow> files {TxStatusRejected} i (rejectInTx X dr tx code w cid)"
  unfolding files_def
  by (auto elim!: rejectInTx_InrE dest!: marked)

definition settled_statuses :: "tx_status set" where
  "settled_statuses = {TxStatusProcessed, TxStatusRejected}"

lemma files_moveInTx: "tx_id tx = i \<Longrightarrow> files settled_statuses i (moveInTx X dr tx dir w cid)"
  unfolding settled_statuses_def files_def [of "{TxStatusProcessed, TxStatusRejected}"]
proof (intro allI impI, erule moveInTx_InrE)
  fix s t :: sess and res
  assume i: "tx_id tx = i" and st: "row_status i (s_db s) = Some TxStatusPendingReference"
  show "tx_status (sr_Transaction res) \<in> {TxStatusProcessed, TxStatusRejected} \<and>
      row_status i (s_db t) = Some (tx_status (sr_Transaction res))"
    if "rejectInTx X dr tx (if tx_kind tx \<noteq> KindBet then FailureCodeReversalExceedsBalance
       else FailureCodeInsufficientBalance) w cid s = (Inr res, t)"
    using filesD [OF files_rejectInTx [OF i] st that] by auto
qed (auto dest!: marked)

lemma files_processInTx: "tx_id tx = i \<Longrightarrow> files settled_statuses i (processInTx X dr tx referenced dir cid)"
  unfolding files_def [of settled_statuses]
proof (intro allI impI, erule processInTx_InrE)
  fix s t s1 :: sess and res w
  assume i: "tx_id tx = i" and st: "row_status i (s_db s) = Some TxStatusPendingReference" "s_db s1 = s_db s"
  show "tx_status (sr_Transaction res) \<in> settled_statuses \<and> row_status i (s_db t) = Some (tx_status (sr_Transaction res))"
    if "rejectInTx X dr tx FailureCodeDuplicateReversal (wallet_of w) cid s1 = (Inr res, t)"
    using filesD [OF files_rejectInTx [OF i] _ that] st by (auto simp: settled_statuses_def)
  show "tx_status (sr_Transaction res) \<in> settled_statuses \<and> row_status i (s_db t) = Some (tx_status (sr_Transaction res))"
    if "moveInTx X dr tx dir (wallet_of w) cid s1 = (Inr res, t)"
    using filesD [OF files_moveInTx [OF i] _ that] st by simp
qed

lemma files_finish: "tx_id tx = i \<Longrightarrow> files settled_statuses i (finishWithoutMovement X dr tx cid)"
  unfolding finishWithoutMovement_def
  by (intro files_rules Wallet_FindByID_db, assumption) (auto dest!: marked simp: settled_statuses_def)

lemma files_movement: "tx_id tx = i \<Longrightarrow> files settled_statuses i (processMovement X dr tx referenced cid)"
  unfolding processMovement_def by (intro files_rules files_finish files_processInTx)

text \<open>A transaction that is parked already is left as it is.\<close>

lemma files_park:
  assumes "tx_status tx = TxStatusPendingReference" and "tx_id tx = i"
  shows "files {TxStatusPendingReference} i (parkPendingReference X dr tx cid)"
  unfolding files_def parkPendingReference_def Let_def using assms
  by (auto elim!: bindE_InrE dest!: marked Wallet_FindByID_db)

definition outcomes :: "tx_status set" where
  "outcomes = insert TxStatusPendingReference settled_statuses"

lemma files_process_tx:
  assumes "tx_status tx = TxStatusPendingReference" and "tx_id tx = i"
  shows "files outcomes i (process_tx X dr tx cid)"
proof -
  have park: "files outcomes i (parkPendingReference X dr tx cid)"
    using files_mono [OF files_park [OF assms]] by (simp add: outcomes_def)
  have rej: "files outcomes i (reject X dr tx code cid)" for code
    using files_mono [OF files_reject [OF assms(2)]] by (simp add: outcomes_def settled_statuses_def)
  have move: "files outcomes i (processMovement X dr tx' referenced cid)" if "tx_id tx' = i" for tx' referenced
    using files_mono [OF files_movement [OF that]] by (simp add: outcomes_def subset_insertI)
  have resolved: "files outcomes i (processMovement X dr tx' referenced cid)"
    if "ResolveReference now rid tx = Inr tx'" for now rid tx' referenced
    using ResolveReference_Inr [OF that] assms(2) tx_core_eqD(1) [of tx' tx] by (intro move) simp
  have "files outcomes i (processReferenced X dr tx cid r)" for r
    unfolding processReferenced_def
    by (intro files_cases files_fail park rej files_liftE resolved)
  then show ?thesis
    unfolding process_tx_def
    by (intro files_cases files_fail files_reads(2) move assms(2) readsD [OF reads_finds(4)])
qed

section \<open>One item\<close>

text \<open>A settlement writes the row in an outcome and leaves its count of attempts alone.\<close>

lemma tells_outcome: "tells X tx ev \<Longrightarrow> tx_status tx \<in> outcomes"
  by (auto simp: tells_def outcomes_def settled_statuses_def split: tx_status.splits)

lemma settlement_row:
  assumes "settlement X dr tx d d'" and "lookup_by wr_id (tx_id tx) (db_wagers d) = Some q"
  obtains q' where "lookup_by wr_id (tx_id tx) (db_wagers d') = Some q'" "wr_status q' \<in> outcomes"
    "wr_attempts q' = wr_attempts q"
proof -
  from assms(1) obtain tx' ev where "tx_core tx' = tx_core tx" "tells X tx' ev"
    "db_wagers d' = db_wagers (put_wager (wager_row_of X tx') d)"
    unfolding settlement_def saved_def moved_money_def by auto
  with assms(2) that show thesis
    using tells_outcome tx_core_eqD(1) [of tx' tx] by (simp add: wagers.lookup_upsert wager_merge_def)
qed

text \<open>From \<open>q\<close> to \<open>q'\<close> the transaction is settled, or it has used up an attempt that it had left, or, unless
  the work on it is \<open>done\<close>, nothing has changed.\<close>

definition advanced :: "resolver \<Rightarrow> time \<Rightarrow> bool \<Rightarrow> wager_row \<Rightarrow> wager_row \<Rightarrow> bool" where
  "advanced rs now worked q q' \<longleftrightarrow> wr_status q' \<in> settled_statuses \<or>
     wr_status q' = TxStatusPendingReference \<and>
       (\<not> is_expired rs now (tx_of q) (wr_attempts q) \<and> wr_attempts q' = wr_attempts q + 1 \<or>
        \<not> worked \<and> wr_attempts q' = wr_attempts q)"

lemma advanced_settles:
  assumes "settles X dr tx m" and "m s = (r, t)" and "s_tx s = NoTx"
    and q: "lookup_by wr_id (tx_id tx) (db_wagers (s_db s)) = Some q" "wr_status q = TxStatusPendingReference"
  obtains q' where "lookup_by wr_id (tx_id tx) (db_wagers (s_db t)) = Some q'" "wr_status q' \<in> outcomes"
    "wr_attempts q' = wr_attempts q"
proof -
  have "settled s r" using assms(3) by (simp add: settled_def)
  from settlesD [OF assms(1,2) this] show thesis
  proof
    assume "s_db t = s_db s"
    with q show thesis by (intro that [of q]) (simp_all add: outcomes_def)
  next
    assume "settlement X dr tx (s_db s) (s_db t)"
    from settlement_row [OF this q(1)] that show thesis by metis
  qed
qed

lemma scheduled_row:
  assumes "ScheduleNextPendingReferenceRetry i nxt s = (r, t)"
    and "lookup_by wr_id i (db_wagers (s_db s)) = Some q" "wr_status q = TxStatusPendingReference"
  obtains q' where "lookup_by wr_id i (db_wagers (s_db t)) = Some q'" "wr_status q' = TxStatusPendingReference"
    "wr_attempts q' = wr_attempts q + 1 \<or> (\<exists>e. r = Inl e) \<and> wr_attempts q' = wr_attempts q"
proof (cases "s_db t = s_db s \<and> (\<exists>e. r = Inl e)")
  case True
  with assms(2,3) that [of q] show thesis by simp
next
  case False
  let ?d = "(s_db s)\<lparr>db_wagers := map (reschedule i nxt) (db_wagers (s_db s))\<rparr>"
  have "s_db t = ?d"
    using assms(1) False query_db [OF assms(1) [unfolded ScheduleNextPendingReferenceRetry_def]]
    by (cases r) (auto simp: ScheduleNextPendingReferenceRetry_def reschedule_def [abs_def] elim!: query_InrE)
  moreover have "lookup_by wr_id i (db_wagers ?d) = Some (reschedule i nxt q)"
    using assms(2) by (simp add: lookup_by_map reschedule_def)
  ultimately show thesis
    using assms(3) lookup_by_SomeD [OF assms(2)] that [of "reschedule i nxt q"] by (simp add: reschedule_def)
qed

lemma resolveOne_advances:
  assumes run: "resolveOne X rs rd now (tx_of q, wr_attempts q) s = (r, t)" and s: "s_tx s = NoTx"
    and q: "lookup_by wr_id (wr_id q) (db_wagers (s_db s)) = Some q" "wr_status q = TxStatusPendingReference"
  obtains q' where "lookup_by wr_id (wr_id q) (db_wagers (s_db t)) = Some q'" "advanced rs now (\<exists>x. r = Inr x) q q'"
proof -
  have tx: "tx_id (tx_of q) = wr_id q" "tx_status (tx_of q) = TxStatusPendingReference"
    using q(2) by (simp_all add: tx_of_def)
  have row: "row_status (wr_id q) (s_db s) = Some TxStatusPendingReference" using q by (simp add: row_status_def)
  show thesis
  proof (cases "is_expired rs now (tx_of q) (wr_attempts q)")
    case True
    with run obtain p where p: "reject X (rd_draws rd) (tx_of q) FailureCodeReferenceNotFound
        (rd_correlationID rd) s = (p, t)" "(\<exists>x. r = Inr x) \<longleftrightarrow> (\<exists>y. p = Inr y)"
      by (auto simp: resolveOne_def bindE_def split: prod.splits sum.splits)
    from advanced_settles [OF settles_reject [OF refl] p(1) s] q tx(1)
    obtain q' where q': "lookup_by wr_id (wr_id q) (db_wagers (s_db t)) = Some q'" "wr_status q' \<in> outcomes"
      "wr_attempts q' = wr_attempts q" by metis
    moreover have "wr_status q' = TxStatusRejected" if "p = Inr y" for y
      using filesD [OF files_reject [OF tx(1)] row p(1) [unfolded that]] q'(1) by (simp add: row_status_def)
    ultimately show thesis
      using p(2) by (intro that [of q']) (auto simp: advanced_def outcomes_def settled_statuses_def)
  next
    case False
    obtain p s1 where p: "process_tx X (rd_draws rd) (tx_of q) (rd_correlationID rd) s = (p, s1)" by fastforce
    from advanced_settles [OF settles_process_tx p s] q tx(1)
    obtain q1 where q1: "lookup_by wr_id (wr_id q) (db_wagers (s_db s1)) = Some q1" "wr_status q1 \<in> outcomes"
      "wr_attempts q1 = wr_attempts q" by metis
    have res: "wr_status q1 = tx_status (sr_Transaction res)" if "p = Inr res" for res
      using filesD [OF files_process_tx [OF tx(2,1)] row p [unfolded that]] q1(1) by (simp add: row_status_def)
    from run False p consider (early) "t = s1" "(\<exists>x. r = Inr x) \<Longrightarrow> wr_status q1 \<noteq> TxStatusPendingReference"
      | (sched) nxt u where "ScheduleNextPendingReferenceRetry (wr_id q) nxt s1 = (u, t)"
          "wr_status q1 = TxStatusPendingReference" "(\<exists>x. r = Inr x) \<longleftrightarrow> u = Inr ()"
      using res tx(1)
      by (auto simp: resolveOne_def Let_def bindE_def split: prod.splits sum.splits if_splits)
    then show thesis
    proof cases
      case early
      with q1 show thesis
        by (intro that [of q1]) (auto simp: advanced_def outcomes_def)
    next
      case sched
      from scheduled_row [OF sched(1) q1(1) sched(2)] obtain q' where
        "lookup_by wr_id (wr_id q) (db_wagers (s_db t)) = Some q'" "wr_status q' = TxStatusPendingReference"
        "wr_attempts q' = wr_attempts q1 + 1 \<or> (\<exists>e. u = Inl e) \<and> wr_attempts q' = wr_attempts q1" by blast
      with sched(3) False q1(3) show thesis
        by (intro that [of q']) (auto simp: advanced_def)
    qed
  qed
qed

section \<open>One round\<close>

text \<open>The snapshot of a round is still the table when it is taken, and an item's work leaves the others.\<close>

definition snapshot :: "db \<Rightarrow> wager_row list \<Rightarrow> bool" where
  "snapshot d rows \<longleftrightarrow> distinct (map wr_id rows) \<and>
     (\<forall>r\<in>set rows. lookup_by wr_id (wr_id r) (db_wagers d) = Some r \<and> wr_status r = TxStatusPendingReference)"

abbreviation "items_of rows \<equiv> map (\<lambda>r. (tx_of r, wr_attempts r)) rows"

lemma resolveOne_untouched:
  "resolveOne X rs rd now (tx_of r, n) s = (q, t) \<Longrightarrow> i \<noteq> wr_id r \<Longrightarrow>
     lookup_by wr_id i (db_wagers (s_db t)) = lookup_by wr_id i (db_wagers (s_db s))"
  using changesD [OF resolveOne_others, of X rs rd now "(tx_of r, n)" s q t] by (simp add: others_kept_def tx_of_def)

lemma other_id: "wr_id row \<notin> wr_id ` set rows \<Longrightarrow> r \<in> set rows \<Longrightarrow> wr_id r \<noteq> wr_id row"
  by (metis imageI)

lemma snapshot_next:
  assumes "snapshot (s_db s) (r # rows)" and "resolveOne X rs rd now (tx_of r, n) s = (q, t)"
  shows "snapshot (s_db t) rows"
proof -
  from assms(1) have new: "wr_id r \<notin> wr_id ` set rows" and old: "snapshot (s_db s) rows"
    by (simp_all add: snapshot_def)
  with resolveOne_untouched [OF assms(2) other_id [OF new]] show ?thesis by (simp add: snapshot_def)
qed

lemma resolve_items_untouched:
  assumes "resolve_items X rs rds n now (items_of rows) s = (r, t)" and "i \<notin> wr_id ` set rows"
  shows "lookup_by wr_id i (db_wagers (s_db t)) = lookup_by wr_id i (db_wagers (s_db s))"
  using assms
proof (induction rows arbitrary: n s)
  case (Cons row rows)
  obtain q s1 where q: "resolveOne X rs (rds n) now (tx_of row, wr_attempts row) s = (q, s1)" by fastforce
  from Cons.prems q consider "t = s1" | "resolve_items X rs rds (Suc n) now (items_of rows) s1 = (r, t)"
    by (cases q) (auto simp: bindE_def)
  then show ?case using Cons.IH Cons.prems(2) resolveOne_untouched [OF q, of i] by cases auto
qed simp

lemma resolve_items_advance:
  assumes "resolve_items X rs rds n now (items_of rows) s = (r, t)" and "s_tx s = NoTx" and "snapshot (s_db s) rows"
    and "q \<in> set rows"
  obtains q' where "lookup_by wr_id (wr_id q) (db_wagers (s_db t)) = Some q'" "advanced rs now (r = Inr ()) q q'"
  using assms
proof (induction rows arbitrary: n s thesis)
  case (Cons row rows)
  obtain p s1 where p: "resolveOne X rs (rds n) now (tx_of row, wr_attempts row) s = (p, s1)" by fastforce
  have row: "lookup_by wr_id (wr_id row) (db_wagers (s_db s)) = Some row" "wr_status row = TxStatusPendingReference"
    "wr_id row \<notin> wr_id ` set rows"
    using Cons.prems(4) by (auto simp: snapshot_def)
  from Cons.prems(2) p consider (stops) e where "t = s1" "r = Inl e" "p = Inl e"
    | (goes) x where "resolve_items X rs rds (Suc n) now (items_of rows) s1 = (r, t)" "p = Inr x"
    by (cases p) (auto simp: bindE_def)
  note cases = this
  show ?case
  proof (cases "q = row")
    case True
    from resolveOne_advances [OF p Cons.prems(3) row(1,2)] obtain q' where
      q': "lookup_by wr_id (wr_id row) (db_wagers (s_db s1)) = Some q'" "advanced rs now (\<exists>x. p = Inr x) row q'" by blast
    from cases show ?thesis
    proof cases
      case stops
      with q' True Cons.prems(1) show ?thesis by simp
    next
      case goes
      with q' True resolve_items_untouched [OF goes(1) row(3)] Cons.prems(1) [of q'] show ?thesis
        by (auto simp: advanced_def)
    qed
  next
    case False
    then have q: "q \<in> set rows" "wr_id q \<noteq> wr_id row" using Cons.prems(5) other_id [OF row(3)] by auto
    from cases show ?thesis
    proof cases
      case stops
      with Cons.prems(1) [of q] Cons.prems(4,5) resolveOne_untouched [OF p q(2)] show ?thesis
        by (auto simp: advanced_def snapshot_def)
    next
      case goes
      have "s_tx s1 = NoTx" using outside_resolveOne p Cons.prems(3) by (rule outsideD)
      from Cons.IH [OF Cons.prems(1) goes(1) this snapshot_next [OF Cons.prems(4) p] q(1)] show ?thesis .
    qed
  qed
qed simp

text \<open>A round picks a transaction up if it is due and among the \<open>limit\<close> oldest that are.\<close>

definition picks_up :: "time \<Rightarrow> i64 \<Rightarrow> uuid \<Rightarrow> db \<Rightarrow> bool" where
  "picks_up now limit i d \<longleftrightarrow>
     i \<in> wr_id ` set (take (nat (sint limit)) (sort_key wr_created_at (filter (is_due_row now) (db_wagers d))))"

lemma picked_up:
  assumes "distinct (map wr_id (db_wagers d))" and "lookup_by wr_id i (db_wagers d) = Some q"
    and "is_due_row now q" and "length (filter (is_due_row now) (db_wagers d)) \<le> nat (sint limit)"
  shows "picks_up now limit i d"
  using lookup_by_SomeD [OF assms(2)] assms(3,4) by (auto simp: picks_up_def)

lemma ResolveDue_advances:
  assumes run: "ResolveDue X rs rds now limit s = (r, t)" and s: "s_tx s = NoTx" "books (s_db s)"
    and q: "lookup_by wr_id i (db_wagers (s_db s)) = Some q" "wr_status q = TxStatusPendingReference"
  obtains q' where "lookup_by wr_id i (db_wagers (s_db t)) = Some q'"
    "advanced rs now ((\<exists>n. r = Inr n) \<and> picks_up now limit i (s_db s)) q q'"
proof -
  note id = lookup_by_SomeD [OF q(1)]
  obtain p s1 where p: "FindDuePendingReferences X now limit s = (p, s1)" by fastforce
  have s1: "s_db s1 = s_db s" "s_tx s1 = NoTx"
    using p s(1) outsideD [OF outside_writes(6) p]
    by (auto simp: FindDuePendingReferences_def bindE_def split: prod.splits sum.splits dest: query_read_db)
  show thesis
  proof (cases p)
    case (Inl e)
    with run p s1 q show thesis by (intro that [of q]) (auto simp: ResolveDue_def bindE_def advanced_def)
  next
    case (Inr due)
    obtain rows where due: "due = items_of rows" and
      rows: "rows = take (nat (sint limit)) (sort_key wr_created_at (filter (is_due_row now) (db_wagers (s_db s))))"
      using p [unfolded Inr] by (rule FindDue_InrE)
    note R = due_rows [OF booksD(2) [OF s(2)] rows]
    have snap: "snapshot (s_db s1) rows"
      unfolding snapshot_def s1(1) using R lookup_by_eqI [OF booksD(2) [OF s(2)]] by blast
    obtain u t' where items: "resolve_items X rs rds 0 now (items_of rows) s1 = (u, t')" by fastforce
    have t: "t = t'" "(\<exists>n. r = Inr n) \<longleftrightarrow> u = Inr ()"
      using run p Inr due items by (auto simp: ResolveDue_def bindE_def split: sum.splits)
    show thesis
    proof (cases "i \<in> wr_id ` set rows")
      case True
      then have "q \<in> set rows" using snap q(1) s1(1) by (auto simp: snapshot_def)
      from resolve_items_advance [OF items s1(2) snap this] obtain q' where
        "lookup_by wr_id (wr_id q) (db_wagers (s_db t')) = Some q'" "advanced rs now (u = Inr ()) q q'" .
      moreover have "picks_up now limit i (s_db s)" using True unfolding picks_up_def rows .
      ultimately show thesis using that [of q'] id t by simp
    next
      case False
      then have "\<not> picks_up now limit i (s_db s)" unfolding picks_up_def rows .
      with resolve_items_untouched [OF items False] q s1 t(1) show thesis
        by (intro that [of q]) (simp_all add: advanced_def)
    qed
  qed
qed

lemma ResolveDue_settled:
  assumes run: "ResolveDue X rs rds now limit s = (r, t)" and s: "s_tx s = NoTx" "books (s_db s)"
    and q: "lookup_by wr_id i (db_wagers (s_db s)) = Some q" "wr_status q \<noteq> TxStatusPendingReference"
  shows "lookup_by wr_id i (db_wagers (s_db t)) = Some q"
proof -
  obtain p s1 where p: "FindDuePendingReferences X now limit s = (p, s1)" by fastforce
  have s1: "s_db s1 = s_db s"
    using p by (auto simp: FindDuePendingReferences_def bindE_def split: prod.splits sum.splits dest: query_read_db)
  show ?thesis
  proof (cases p)
    case (Inl e)
    with run p s1 q show ?thesis by (simp add: ResolveDue_def bindE_def)
  next
    case (Inr due)
    obtain rows where due: "due = items_of rows" and
      rows: "rows = take (nat (sint limit)) (sort_key wr_created_at (filter (is_due_row now) (db_wagers (s_db s))))"
      using p [unfolded Inr] by (rule FindDue_InrE)
    note R = due_rows [OF booksD(2) [OF s(2)] rows]
    obtain u t' where items: "resolve_items X rs rds 0 now (items_of rows) s1 = (u, t')" by fastforce
    have "t = t'" using run p Inr due items by (auto simp: ResolveDue_def bindE_def split: sum.splits)
    moreover have "i \<notin> wr_id ` set rows"
      using R(2) lookup_by_eqI [OF booksD(2) [OF s(2)]] q by force
    ultimately show ?thesis using resolve_items_untouched [OF items] q(1) s1 by simp
  qed
qed

section \<open>Rounds\<close>

text \<open>\<open>resolver_rounds X rs i n d d'\<close>: from \<open>d\<close> to \<open>d'\<close>, \<open>n\<close> rounds have run to their end and picked up \<open>i\<close> as long
  as it was parked; other rounds may have failed or not reached it, and others have worked on the tables.\<close>

inductive resolver_rounds :: "external \<Rightarrow> resolver \<Rightarrow> uuid \<Rightarrow> nat \<Rightarrow> db \<Rightarrow> db \<Rightarrow> bool"
  for X :: external and rs :: resolver and i :: uuid where
  starts: "resolver_rounds X rs i 0 d d"
| others: "resolver_rounds X rs i n d d1 \<Longrightarrow> rows_kept d1 d2 \<Longrightarrow> books d2 \<Longrightarrow> resolver_rounds X rs i n d d2"
| fails: "resolver_rounds X rs i n d d1 \<Longrightarrow> ResolveDue X rs rds now limit (on_pool d1 faults) = (r, s) \<Longrightarrow>
    resolver_rounds X rs i n d (s_db s)"
| runs: "resolver_rounds X rs i n d d1 \<Longrightarrow> ResolveDue X rs rds now limit (on_pool d1 faults) = (Inr k, s) \<Longrightarrow>
    row_status i d1 = Some TxStatusPendingReference \<longrightarrow> picks_up now limit i d1 \<Longrightarrow>
    resolver_rounds X rs i (Suc n) d (s_db s)"

text \<open>What is left of the attempts after \<open>n\<close> rounds.\<close>

definition used_up :: "resolver \<Rightarrow> nat \<Rightarrow> wager_row \<Rightarrow> wager_row \<Rightarrow> bool" where
  "used_up rs n q q' \<longleftrightarrow> wr_status q' \<in> settled_statuses \<or>
     wr_status q' = TxStatusPendingReference \<and> sint (wr_attempts q) + int n \<le> sint (wr_attempts q') \<and>
     (n = 0 \<or> sint (wr_attempts q') \<le> sint (rs_maxAttempts rs))"

lemma sint_next:
  fixes a m :: i64
  assumes "sint a < sint m"
  shows "sint (a + 1) = sint a + 1"
proof -
  have "fits_i64 (sint a + 1)" using assms sint_bounds [of a] sint_bounds [of m] by (simp add: fits_i64_def)
  moreover have "a + 1 = of_int (sint a + 1)" by simp
  ultimately show ?thesis by (simp only: sint_of_int_fits)
qed

lemma used_up_advanced:
  assumes "used_up rs n q q1" and "advanced rs now worked q1 q'" and "wr_status q1 = TxStatusPendingReference"
  shows "used_up rs (if worked then Suc n else n) q q'"
proof -
  have "sint (wr_attempts q1 + 1) = sint (wr_attempts q1) + 1 \<and> sint (wr_attempts q1) < sint (rs_maxAttempts rs)"
    if "\<not> is_expired rs now (tx_of q1) (wr_attempts q1)"
    using that sint_next [of "wr_attempts q1" "rs_maxAttempts rs"] by (simp add: is_expired_def)
  with assms show ?thesis by (auto simp: used_up_def advanced_def settled_statuses_def)
qed

lemma round_used_up:
  assumes run: "ResolveDue X rs rds now limit (on_pool d1 faults) = (r, s)" and b: "books d1"
    and q1: "lookup_by wr_id i (db_wagers d1) = Some q1" "used_up rs n q q1"
    and m: "m = n \<or> (\<exists>k. r = Inr k) \<and> m = Suc n \<and> (row_status i d1 = Some TxStatusPendingReference \<longrightarrow> picks_up now limit i d1)"
  shows "\<exists>q'. lookup_by wr_id i (db_wagers (s_db s)) = Some q' \<and> used_up rs m q q'"
proof (cases "wr_status q1 = TxStatusPendingReference")
  case True
  obtain q' where q': "lookup_by wr_id i (db_wagers (s_db s)) = Some q'"
    "advanced rs now ((\<exists>n. r = Inr n) \<and> picks_up now limit i d1) q1 q'"
    using ResolveDue_advances [OF run on_pool_simps(2) _ _ True] b q1(1) unfolding on_pool_simps by blast
  have "advanced rs now (m = Suc n) q1 q'"
    using q'(2) m True q1(1) by (auto simp: advanced_def row_status_def)
  with used_up_advanced [OF q1(2) this True] q'(1) m show ?thesis by (auto split: if_splits)
next
  case False
  with q1 have "lookup_by wr_id i (db_wagers (s_db s)) = Some q1" "used_up rs m q q1"
    using ResolveDue_settled [OF run] b by (simp_all add: used_up_def)
  then show ?thesis by blast
qed

lemma rounds_used_up:
  assumes "resolver_rounds X rs i n d d'" and "books d"
    and "lookup_by wr_id i (db_wagers d) = Some q" "wr_status q = TxStatusPendingReference"
  shows "books d' \<and> (\<exists>q'. lookup_by wr_id i (db_wagers d') = Some q' \<and> used_up rs n q q')"
  using assms
proof (induction rule: resolver_rounds.induct)
  case (starts d)
  then show ?case by (simp add: used_up_def)
next
  case (others n d d1 d2)
  then show ?case by (auto simp: rows_kept_def)
next
  case (fails n d d1 rds now limit faults r s)
  then obtain q1 where "books d1" "lookup_by wr_id i (db_wagers d1) = Some q1" "used_up rs n q q1" by blast
  with round_used_up [OF fails.hyps(2) this] ResolveDue_keeps_books [of "on_pool d1 faults" X rs rds now limit] fails.hyps(2)
  show ?case by simp
next
  case (runs n d d1 rds now limit faults k s)
  then obtain q1 where "books d1" "lookup_by wr_id i (db_wagers d1) = Some q1" "used_up rs n q q1" by blast
  with round_used_up [OF runs.hyps(2) this, of "Suc n"] runs.hyps(3)
    ResolveDue_keeps_books [of "on_pool d1 faults" X rs rds now limit] runs.hyps(2)
  show ?case by simp
qed

section \<open>Properties\<close>

text \<open>Claim C12. No reversal stays parked: whatever fails in between and whatever others do, once the rounds of
  the resolver that ran to their end and picked a parked transaction up are more than the attempts it
  had left, and at least one, it is processed or rejected.\<close>

theorem parked_is_decided:
  assumes "books d" and "lookup_by wr_id i (db_wagers d) = Some q" and "wr_status q = TxStatusPendingReference"
    and "resolver_rounds X rs i n d d'" and "0 < n" and "sint (rs_maxAttempts rs) < sint (wr_attempts q) + int n"
  shows "row_status i d' \<in> {Some TxStatusProcessed, Some TxStatusRejected}"
proof -
  obtain q' where "lookup_by wr_id i (db_wagers d') = Some q'" "used_up rs n q q'"
    using rounds_used_up [OF assms(4,1-3)] by blast
  with assms(5,6) show ?thesis by (auto simp: used_up_def row_status_def settled_statuses_def)
qed

text \<open>A refund whose bet never arrives, with one attempt: the first round finds nothing and schedules the next,
  which rejects it.\<close>

definition waiting_db :: db where
  "waiting_db = put_wager (wager_row_of sample_external (sample_refund TxStatusPendingReference None)) opened_db"

definition one_attempt :: resolver where
  "one_attempt = sample_resolver\<lparr>rs_maxAttempts := 1\<rparr>"

definition round_at :: "time \<Rightarrow> db \<Rightarrow> (error + nat) \<times> sess" where
  "round_at now d = ResolveDue sample_external one_attempt (\<lambda>_. sample_resolve_draws 40) now 50 (on_pool d [])"

definition round_db :: "time \<Rightarrow> db \<Rightarrow> db" where
  "round_db now d = s_db (snd (round_at now d))"

lemma waiting_row:
  "lookup_by wr_id 8 (db_wagers waiting_db) =
     Some (wager_row_of sample_external (sample_refund TxStatusPendingReference None))"
  "books waiting_db"
proof -
  show "lookup_by wr_id 8 (db_wagers waiting_db) =
     Some (wager_row_of sample_external (sample_refund TxStatusPendingReference None))"
    by code_simp
  show "books waiting_db"
    unfolding waiting_db_def
    by (rule books_put_wager [OF books_opened])
      (simp_all add: writable_new opened_db_eq wager_row_of_def sample_refund_def sample_opening_def writable_def)
qed

lemma rounds_run:
  "fst (round_at 100 waiting_db) = Inr 1" "fst (round_at 2000 (round_db 100 waiting_db)) = Inr 1"
  "picks_up 100 50 8 waiting_db" "picks_up 2000 50 8 (round_db 100 waiting_db)"
  by code_simp+

lemma two_rounds: "resolver_rounds sample_external one_attempt 8 2 waiting_db (round_db 2000 (round_db 100 waiting_db))"
proof -
  have run: "ResolveDue sample_external one_attempt (\<lambda>_. sample_resolve_draws 40) now 50 (on_pool d []) =
      (fst (round_at now d), snd (round_at now d))" for now d
    by (simp add: round_at_def)
  have "resolver_rounds sample_external one_attempt 8 1 waiting_db (round_db 100 waiting_db)"
    using resolver_rounds.runs [OF resolver_rounds.starts run [of 100 waiting_db, unfolded rounds_run(1)]] rounds_run(3)
    by (simp add: round_db_def)
  from resolver_rounds.runs [OF this run [of 2000 "round_db 100 waiting_db", unfolded rounds_run(2)]] rounds_run(4) show ?thesis
    by (simp add: round_db_def numeral_2_eq_2)
qed

theorem parked_is_decided_witness:
  "row_status 8 (round_db 2000 (round_db 100 waiting_db)) \<in> {Some TxStatusProcessed, Some TxStatusRejected}"
  using parked_is_decided [OF waiting_row(2,1) _ two_rounds]
  by (simp add: one_attempt_def sample_resolver_def sample_refund_def wager_row_of_def)

end
