(* ===== verification/Background.thy ===== *)
theory Background
  imports Publishing Resolving Process
begin

text \<open>
  The outbox worker and the resolver with their reports to the metrics. The registry is not a table: what
  a run has counted stays counted when the transaction around it is rolled back. \<open>erases\<close> says that a
  program on a node is a program on its session as far as the session goes; the jobs that count are
  the jobs of \<open>Worker\<close> and \<open>Resolver\<close> in that sense.
\<close>

section \<open>Transactions of a node\<close>

definition entered :: "(node, error, 'a) prog \<Rightarrow> node \<Rightarrow> node" where
  "entered fn n =
     (if s_tx (nd_sess n) \<noteq> NoTx then snd (fn n)
      else case next_fault (nd_sess n) of
        (Some f, s) \<Rightarrow> n
      | (None, s) \<Rightarrow> snd (fn (n\<lparr>nd_sess := s\<lparr>s_tx := TxActive\<rparr>\<rparr>)))"

definition WithinTx_node :: "(node, error, 'a) prog \<Rightarrow> (node, error, 'a) prog" where
  "WithinTx_node fn n =
     (case WithinTx (\<lambda>s. map_prod id nd_sess (fn (n\<lparr>nd_sess := s\<rparr>))) (nd_sess n) of
        (r, s) \<Rightarrow> (r, (entered fn n)\<lparr>nd_sess := s\<rparr>))"

section \<open>The jobs\<close>

definition attempt_counted ::
  "external \<Rightarrow> (sqs_message \<Rightarrow> error option) \<Rightarrow> string \<Rightarrow> i64 \<Rightarrow> time \<Rightarrow> outbox_entry \<Rightarrow> (node, error, unit) prog" where
  "attempt_counted X send queueURL backoffBase now entry =
     (case Publish X send queueURL entry of
        Some pubErr \<Rightarrow>
          bindE (liftE (ScheduleRetry (now + sint (backoffDelay backoffBase (oe_retryCount entry))) entry)) (\<lambda>entry.
          bindE (observe (ObserveOutboxPublish ''retry'' 0)) (\<lambda>_.
          on_db (SaveAll [entry])))
      | None \<Rightarrow>
          bindE (on_db (SaveAll [MarkPublished entry])) (\<lambda>_.
          observe (ObserveOutboxPublish ''success'' (Time_Sub now (oe_occurredAt entry)))))"

definition RunOnce_counted ::
  "external \<Rightarrow> (sqs_message \<Rightarrow> error option) \<Rightarrow> string \<Rightarrow> i64 \<Rightarrow> time \<Rightarrow> time \<Rightarrow> (node, error, bool) prog" where
  "RunOnce_counted X send queueURL backoffBase now_db now =
     WithinTx_node (onResult (on_db (FindDueForUpdate now_db)) (\<lambda>r.
     case r of
       Inl e \<Rightarrow> if e = AppE ErrOutboxEntryNotFound then ret False else fail e
     | Inr entry \<Rightarrow> bindE (attempt_counted X send queueURL backoffBase now entry) (\<lambda>_. ret True)))"

definition resolution_label :: "resolution \<Rightarrow> string" where
  "resolution_label r = (case r of Expired \<Rightarrow> ''expired'' | Resolved \<Rightarrow> ''resolved'' | StillPending \<Rightarrow> ''still_pending'')"

definition count_resolution :: "resolution \<Rightarrow> (node, error, unit) prog" where
  "count_resolution r = observe (ObservePendingReferenceResolution (resolution_label r))"

definition resolveOne_counted ::
  "external \<Rightarrow> resolver \<Rightarrow> resolve_draws \<Rightarrow> time \<Rightarrow> transaction \<times> i64 \<Rightarrow> (node, error, resolution) prog" where
  "resolveOne_counted X rs rd now item =
     (let tx = fst item; attempts = snd item; correlationID = rd_correlationID rd in
      if is_expired rs now tx attempts
      then bindE (on_db (reject X (rd_draws rd) tx FailureCodeReferenceNotFound correlationID)) (\<lambda>_.
        bindE (count_resolution Expired) (\<lambda>_. ret Expired))
      else bindE (on_db (process_tx X (rd_draws rd) tx correlationID)) (\<lambda>res.
        if tx_status (sr_Transaction res) \<noteq> TxStatusPendingReference
        then bindE (count_resolution Resolved) (\<lambda>_. ret Resolved)
        else bindE (count_resolution StillPending) (\<lambda>_.
          bindE (on_db (ScheduleNextPendingReferenceRetry (tx_id tx)
            (now + sint (backoffDelay (rs_backoffBase rs) attempts)))) (\<lambda>_. ret StillPending))))"

fun resolve_items_counted ::
  "external \<Rightarrow> resolver \<Rightarrow> (nat \<Rightarrow> resolve_draws) \<Rightarrow> nat \<Rightarrow> time \<Rightarrow> (transaction \<times> i64) list \<Rightarrow> (node, error, unit) prog" where
  "resolve_items_counted X rs rds n now [] = ret ()"
| "resolve_items_counted X rs rds n now (item # items) =
     bindE (resolveOne_counted X rs (rds n) now item) (\<lambda>_. resolve_items_counted X rs rds (Suc n) now items)"

definition ResolveDue_counted ::
  "external \<Rightarrow> resolver \<Rightarrow> (nat \<Rightarrow> resolve_draws) \<Rightarrow> time \<Rightarrow> i64 \<Rightarrow> (node, error, nat) prog" where
  "ResolveDue_counted X rs rds now limit =
     bindE (on_db (FindDuePendingReferences X now limit)) (\<lambda>items.
     bindE (resolve_items_counted X rs rds 0 now items) (\<lambda>_.
     ret (length items)))"

section \<open>The counting jobs are the jobs\<close>

definition erases :: "(node, 'e, 'a) prog \<Rightarrow> (sess, 'e, 'a) prog \<Rightarrow> bool" where
  "erases m m' \<longleftrightarrow> (\<forall>n. map_prod id nd_sess (m n) = m' (nd_sess n))"

named_theorems erases_rules "programs of a node and their sessions"

lemma erases_basic [erases_rules]:
  "erases (on_db m) m" "erases (ret x) (ret x)" "erases (fail e) (fail e)" "erases (liftE r) (liftE r)"
  by (auto simp: erases_def on_db_def ret_def fail_def liftE_def split: prod.split)

lemma erasesD: "erases m m' \<Longrightarrow> m n = (r, n') \<Longrightarrow> m' (nd_sess n) = (r, nd_sess n')"
  unfolding erases_def by (metis id_apply map_prod_simp)

lemma erases_bindE [erases_rules]:
  assumes "erases m m'" and "\<And>x. erases (k x) (k' x)"
  shows "erases (bindE m k) (bindE m' k')"
  unfolding erases_def
proof
  fix n
  obtain r n' where r: "m n = (r, n')" by fastforce
  from erasesD [OF assms(1) r] r assms(2) show "map_prod id nd_sess (bindE m k n) = bindE m' k' (nd_sess n)"
    by (cases r) (simp_all add: bindE_def erases_def)
qed

lemma erases_onResult [erases_rules]:
  assumes "erases m m'" and "\<And>r. erases (k r) (k' r)"
  shows "erases (onResult m k) (onResult m' k')"
  unfolding erases_def
proof
  fix n
  obtain r n' where r: "m n = (r, n')" by fastforce
  from erasesD [OF assms(1) r] r assms(2) show "map_prod id nd_sess (onResult m k n) = onResult m' k' (nd_sess n)"
    by (simp add: onResult_def erases_def)
qed

text \<open>A report is nothing to the session.\<close>

lemma erases_observe:
  "erases (k ()) m' \<Longrightarrow> erases (bindE (observe f) k) m'"
  "erases m u \<Longrightarrow> erases (bindE m (\<lambda>_. observe f)) u"
proof -
  show "erases (bindE (observe f) k) m'" if "erases (k ()) m'"
    using that by (simp add: erases_def bindE_def observe_def)
  show "erases (bindE m (\<lambda>_. observe f)) u" if m: "erases m u" for m and u :: "(sess, error, unit) prog"
    unfolding erases_def
  proof
    fix n
    obtain r n' where r: "m n = (r, n')" by fastforce
    from erasesD [OF m r] r show "map_prod id nd_sess (bindE m (\<lambda>_. observe f) n) = u (nd_sess n)"
      by (cases r) (simp_all add: bindE_def observe_def)
  qed
qed

lemma erases_cases [erases_rules]:
  "erases m m' \<Longrightarrow> erases n n' \<Longrightarrow> erases (if b then m else n) (if b then m' else n')"
  "(\<And>e. erases (f e) (f' e)) \<Longrightarrow> (\<And>x. erases (g x) (g' x)) \<Longrightarrow>
     erases (case r of Inl e \<Rightarrow> f e | Inr x \<Rightarrow> g x) (case r of Inl e \<Rightarrow> f' e | Inr x \<Rightarrow> g' x)"
  "erases h h' \<Longrightarrow> (\<And>y. erases (j y) (j' y)) \<Longrightarrow>
     erases (case v of None \<Rightarrow> h | Some y \<Rightarrow> j y) (case v of None \<Rightarrow> h' | Some y \<Rightarrow> j' y)"
  by (auto split: sum.split option.split)

lemma erases_WithinTx [erases_rules]: "erases m m' \<Longrightarrow> erases (WithinTx_node m) (WithinTx m')"
  by (auto simp: erases_def WithinTx_node_def split: prod.split)

lemma worker_erases: "erases (RunOnce_counted X send q base now_db now) (RunOnce X send q base now_db now)"
  unfolding RunOnce_counted_def RunOnce_def RunOnce_body_def attempt_counted_def attempt_def
  by ((rule erases_observe | rule erases_rules)+)

lemma item_erases: "erases (resolveOne_counted X rs rd now item) (resolveOne X rs rd now item)"
  unfolding resolveOne_counted_def resolveOne_def Let_def count_resolution_def
  by ((rule erases_observe | rule erases_rules)+)

lemma resolver_erases: "erases (ResolveDue_counted X rs rds now limit) (ResolveDue X rs rds now limit)"
proof -
  have "erases (resolve_items_counted X rs rds n now items) (resolve_items X rs rds n now items)" for n items
    by (induction items arbitrary: n) (auto intro!: erases_rules item_erases)
  then show ?thesis unfolding ResolveDue_counted_def ResolveDue_def by (intro erases_rules)
qed

section \<open>What is counted\<close>

definition publish_report ::
  "external \<Rightarrow> (sqs_message \<Rightarrow> error option) \<Rightarrow> string \<Rightarrow> time \<Rightarrow> outbox_entry \<Rightarrow> registry \<Rightarrow> registry" where
  "publish_report X send queueURL now e =
     (if send (event_message X queueURL e) = None
      then ObserveOutboxPublish ''success'' (Time_Sub now (oe_occurredAt e)) else ObserveOutboxPublish ''retry'' 0)"

lemma on_db_metrics: "on_db m n = (r, n') \<Longrightarrow> nd_metrics n' = nd_metrics n"
  by (auto simp: on_db_def split: prod.splits)

lemma attempt_report:
  assumes "attempt_counted X send q base now e n = (r, n')" and "oe_status e = StatusPending"
  shows "nd_metrics n' = publish_report X send q now e (nd_metrics n) \<or> nd_metrics n' = nd_metrics n \<and> r \<noteq> Inr ()"
  using assms
  by (auto simp: attempt_counted_def Publish_def publish_report_def ScheduleRetry_def bindE_def observe_def liftE_def
      simp del: SaveAll.simps split: option.splits prod.splits sum.splits dest!: on_db_metrics)

lemma in_node_tx:
  assumes "WithinTx_node fn n = (r, n')" and "s_tx (nd_sess n) = NoTx"
  obtains (refused) e where "r = Inl e" "nd_metrics n' = nd_metrics n"
    | (ran) s q m where "s_db s = s_db (nd_sess n)" "fn (n\<lparr>nd_sess := s\<rparr>) = (q, m)" "nd_metrics n' = nd_metrics m"
        "\<And>x. r = Inr x \<Longrightarrow> q = Inr x"
proof -
  obtain f s where f: "next_fault (nd_sess n) = (f, s)" by fastforce
  have db: "s_db s = s_db (nd_sess n)" using f by (auto simp: next_fault_def split: list.splits)
  show thesis
  proof (cases f)
    case (Some v)
    with f assms refused show thesis by (auto simp: WithinTx_node_def WithinTx_def entered_def)
  next
    case None
    obtain q m where q: "fn (n\<lparr>nd_sess := s\<lparr>s_tx := TxActive\<rparr>\<rparr>) = (q, m)" by fastforce
    have "nd_metrics n' = nd_metrics m"
      using assms f None q by (auto simp: WithinTx_node_def entered_def split: prod.splits)
    moreover have "q = Inr x" if "r = Inr x" for x
      using assms f None q that
      by (auto simp: WithinTx_node_def WithinTx_def split: prod.splits sum.splits if_splits option.splits)
    ultimately show thesis using ran [of "s\<lparr>s_tx := TxActive\<rparr>" q m] q db by simp
  qed
qed

text \<open>What the worker reports: a run on a node is the run on its session, and it counts nothing
  or one publication, a success exactly when the queue accepted the message of the event it found. A run
  that publishes is always counted; a run whose transaction is rolled back after the queue has
  answered leaves its count behind.\<close>

lemma worker_counts:
  assumes "RunOnce_counted X send q base now_db now n = (r, n')" and "s_tx (nd_sess n) = NoTx"
  shows "RunOnce X send q base now_db now (nd_sess n) = (r, nd_sess n') \<and>
    (nd_metrics n' = nd_metrics n \<and> r \<noteq> Inr True \<or>
     (\<exists>e. due now_db (s_db (nd_sess n)) = Some e \<and> r \<noteq> Inr False \<and>
        nd_metrics n' = publish_report X send q now e (nd_metrics n)))"
proof
  show "RunOnce X send q base now_db now (nd_sess n) = (r, nd_sess n')"
    using worker_erases assms(1) by (rule erasesD)
  let ?body = "onResult (on_db (FindDueForUpdate now_db)) (\<lambda>r.
     case r of
       Inl e \<Rightarrow> if e = AppE ErrOutboxEntryNotFound then ret False else fail e
     | Inr entry \<Rightarrow> bindE (attempt_counted X send q base now entry) (\<lambda>_. ret True))"
  from assms(1) have run: "WithinTx_node ?body n = (r, n')" by (simp add: RunOnce_counted_def)
  show "nd_metrics n' = nd_metrics n \<and> r \<noteq> Inr True \<or>
     (\<exists>e. due now_db (s_db (nd_sess n)) = Some e \<and> r \<noteq> Inr False \<and>
        nd_metrics n' = publish_report X send q now e (nd_metrics n))"
    using run assms(2)
  proof (cases rule: in_node_tx)
    case (ran s p m)
    obtain found s1 where found: "FindDueForUpdate now_db s = (found, s1)" by fastforce
    show ?thesis
    proof (cases found)
      case (Inl e)
      with ran found show ?thesis by (auto simp: onResult_def on_db_def ret_def fail_def split: if_splits)
    next
      case (Inr e)
      from found [unfolded Inr finds_read_one] have e: "due now_db (s_db s) = Some e"
        by (auto elim!: read_one_InrE simp: due_def scan_entry)
      obtain u m1 where u: "attempt_counted X send q base now e (n\<lparr>nd_sess := s1\<rparr>) = (u, m1)" by fastforce
      with ran(2) found Inr have "p = map_sum id (\<lambda>_. True) u" "m = m1"
        by (auto simp: onResult_def on_db_def bindE_def ret_def split: sum.splits)
      with attempt_report [OF u dueD(3) [OF e]] ran e show ?thesis by (cases u; cases r) auto
    qed
  qed simp
qed

abbreviation report :: "resolution list \<Rightarrow> registry \<Rightarrow> registry" where
  "report qs \<equiv> fold (\<lambda>q. ObservePendingReferenceResolution (resolution_label q)) qs"

lemma item_report:
  assumes "resolveOne_counted X rs rd now item n = (r, n')"
  shows "\<exists>qs. nd_metrics n' = report qs (nd_metrics n) \<and> (\<forall>q. r = Inr q \<longrightarrow> qs = [q])"
proof -
  have "nd_metrics n' = report [] (nd_metrics n) \<and> (\<forall>q. r \<noteq> Inr q) \<or>
      (\<exists>q. nd_metrics n' = report [q] (nd_metrics n) \<and> (\<forall>q'. r = Inr q' \<longrightarrow> q' = q))"
    using assms
    by (auto simp: resolveOne_counted_def Let_def count_resolution_def bindE_def observe_def ret_def
        split: prod.splits sum.splits if_splits dest!: on_db_metrics)
  then show ?thesis by (elim disjE exE) (rule exI, blast)+
qed

lemma items_report:
  "resolve_items_counted X rs rds k now items n = (r, n') \<Longrightarrow>
     \<exists>qs. nd_metrics n' = report qs (nd_metrics n) \<and> (r = Inr () \<longrightarrow> length qs = length items)"
proof (induction items arbitrary: k n)
  case Nil
  then show ?case by (intro exI [of _ "[]"]) (simp add: ret_def)
next
  case (Cons item items)
  obtain q n1 where q: "resolveOne_counted X rs (rds k) now item n = (q, n1)" by fastforce
  from item_report [OF q] obtain qs where qs: "nd_metrics n1 = report qs (nd_metrics n)" "\<forall>x. q = Inr x \<longrightarrow> qs = [x]"
    by blast
  show ?case
  proof (cases q)
    case (Inl e)
    with Cons.prems q qs show ?thesis by (auto simp: bindE_def)
  next
    case (Inr x)
    with Cons.prems q have "resolve_items_counted X rs rds (Suc k) now items n1 = (r, n')" by (simp add: bindE_def)
    from Cons.IH [OF this] obtain qs' where
      "nd_metrics n' = report qs' (nd_metrics n1)" "r = Inr () \<longrightarrow> length qs' = length items" by blast
    with qs Inr show ?thesis by (intro exI [of _ "x # qs'"]) simp
  qed
qed

text \<open>What the resolver reports: a run on a node is the run on its session, it touches no series
  but the one of resolutions, and a run that returns \<open>n\<close> has counted exactly \<open>n\<close> outcomes, one for each
  item it processed.\<close>

lemma resolver_counts:
  assumes "ResolveDue_counted X rs rds now limit n = (r, n')"
  shows "ResolveDue X rs rds now limit (nd_sess n) = (r, nd_sess n') \<and>
    (\<exists>qs. nd_metrics n' = report qs (nd_metrics n) \<and> (\<forall>k. r = Inr k \<longrightarrow> length qs = k))"
proof
  show "ResolveDue X rs rds now limit (nd_sess n) = (r, nd_sess n')"
    using resolver_erases assms by (rule erasesD)
  obtain q n1 where q: "on_db (FindDuePendingReferences X now limit) n = (q, n1)" by fastforce
  show "\<exists>qs. nd_metrics n' = report qs (nd_metrics n) \<and> (\<forall>k. r = Inr k \<longrightarrow> length qs = k)"
  proof (cases q)
    case (Inl e)
    with assms q on_db_metrics [OF q] show ?thesis
      by (intro exI [of _ "[]"]) (auto simp: ResolveDue_counted_def bindE_def)
  next
    case (Inr items)
    obtain u n2 where u: "resolve_items_counted X rs rds 0 now items n1 = (u, n2)" by fastforce
    from items_report [OF u] on_db_metrics [OF q] obtain qs where
      "nd_metrics n2 = report qs (nd_metrics n)" "u = Inr () \<longrightarrow> length qs = length items" by auto
    with assms q Inr u show ?thesis
      by (cases u) (auto simp: ResolveDue_counted_def bindE_def ret_def)
  qed
qed

section \<open>Witnesses\<close>

definition worker_node :: "fault option list \<Rightarrow> db \<Rightarrow> node" where
  "worker_node faults d = \<lparr>nd_sess = \<lparr>s_db = d, s_tx = NoTx, s_faults = faults\<rparr>, nd_metrics = Metrics_New, nd_deleted = []\<rparr>"

text \<open>The queue takes the message, then the commit is refused: the event is still pending, and counted.\<close>

abbreviation "refused_commit \<equiv> RunOnce_counted sample_external accept ''q'' 1000 5 5
  (worker_node [None, None, None, Some Refused] two_events)"

lemma worker_counts_sample:
  "mr_outboxPublishTotal (nd_metrics (snd refused_commit)) ''success'' = 1 \<and>
   map oe_status (db_outbox (s_db (nd_sess (snd refused_commit)))) = [StatusPending, StatusPending]"
proof
  obtain r n' where run: "refused_commit = (r, n')" by fastforce
  have "mr_outboxPublishTotal (nd_metrics (snd refused_commit)) ''success'' \<noteq> 0" by code_simp
  then have none: "nd_metrics (snd refused_commit) \<noteq> Metrics_New" by (auto simp: Metrics_New_def)
  have "s_tx (nd_sess (worker_node [None, None, None, Some Refused] two_events)) = NoTx" by (simp add: worker_node_def)
  from worker_counts [OF run this] none
  have "\<exists>e. nd_metrics (snd refused_commit) = publish_report sample_external accept ''q'' 5 e Metrics_New"
    unfolding run by (auto simp: worker_node_def)
  then show "mr_outboxPublishTotal (nd_metrics (snd refused_commit)) ''success'' = 1"
    by (auto simp: publish_report_def accept_def ObserveOutboxPublish_def Let_def Metrics_New_def Inc_def)
  show "map oe_status (db_outbox (s_db (nd_sess (snd refused_commit)))) = [StatusPending, StatusPending]" by code_simp
qed

abbreviation "one_resolved \<equiv> ResolveDue_counted sample_external sample_resolver (\<lambda>_. sample_resolve_draws 40) 100 50
  (worker_node [] parked_db)"

lemma resolver_counts_sample:
  "\<exists>q. nd_metrics (snd one_resolved) = report [q] Metrics_New"
proof -
  obtain r n' where run: "one_resolved = (r, n')" by fastforce
  have "fst one_resolved = Inr 1" by code_simp
  then have "r = Inr 1" unfolding run by simp
  with resolver_counts [OF run] show ?thesis
    unfolding run by (auto simp: worker_node_def length_Suc_conv)
qed

end
