(* ===== verification/Blocking.thy ===== *)
theory Blocking
  imports Resolving WalletOps
begin

text \<open>
  What one parked transaction that keeps failing does to the others. \<open>ResolveDue\<close> returns at the first
  item that fails, without rescheduling it, and the next run starts with the same item.
\<close>

section \<open>A full wallet\<close>

text \<open>From empty tables: a wallet is opened with the largest balance, two refunds arrive before their
  bets and are parked, the bets of 3000 and of 10 arrive, and a win of 3000 fills the wallet again up to
  those 10. Now the first refund does not fit in the balance, the second one does.\<close>

definition draws_from :: "nat \<Rightarrow> draws" where
  "draws_from n = sample_draws\<lparr>dr_tx_id := of_nat n, dr_tx_now := int n, dr_entry_id := of_nat (n + 1),
     dr_event := sample_draw\<lparr>ed_id := of_nat (n + 2)\<rparr>, dr_event2 := sample_draw\<lparr>ed_id := of_nat (n + 3)\<rparr>\<rparr>"

definition play :: "nat \<times> submit_input \<Rightarrow> sess \<Rightarrow> sess" where
  "play p s = snd (Submit sample_external (draws_from (fst p)) (snd p) s)"

definition full_wallet :: create_wallet_input where
  "full_wallet = sample_create\<lparr>cw_InitialBalance := \<lparr>m_currency = ''BRL'', m_amount = 9223372036854775807\<rparr>\<rparr>"

definition rounds :: "(nat \<times> submit_input) list" where
  "rounds = [(40, sample_input KindRefund ''refund-1'' 3000 (Some ''bet-1'')),
     (50, sample_input KindRefund ''refund-2'' 10 (Some ''bet-2'')),
     (60, sample_input KindBet ''bet-1'' 3000 None), (70, sample_input KindBet ''bet-2'' 10 None),
     (80, sample_input KindWin ''win-1'' 3000 None)]"

definition blocked :: sess where
  "blocked = fold play rounds (snd (Create sample_external sample_create_draws full_wallet (calm NoTx no_tables)))"

abbreviation "blocked_db \<equiv> s_db blocked"

definition parked_rows :: "wager_row list" where
  "parked_rows = filter (\<lambda>r. wr_status r = TxStatusPendingReference) (db_wagers blocked_db)"

definition parked_items :: "(transaction \<times> i64) list" where
  "parked_items = map (\<lambda>r. (tx_of r, wr_attempts r)) parked_rows"

lemma parked_rows_eq:
  "map (\<lambda>r. (wr_external_transaction_id r, wr_created_at r)) parked_rows = [(Some ''refund-1'', 40), (Some ''refund-2'', 50)]"
  "list_all (\<lambda>r. wr_next_retry_at r = None) (db_wagers blocked_db)"
  "scan_rows (scanWagerTransactionWithAttempts sample_external) parked_rows = Inr parked_items"
  by code_simp+

lemma blocked_calm: "blocked = calm NoTx blocked_db"
  by code_simp

lemma blocked_due: "FindDuePendingReferences sample_external now 50 blocked = (Inr parked_items, blocked)"
proof -
  have "filter (is_due_row now) (db_wagers blocked_db) = parked_rows"
    unfolding parked_rows_def using parked_rows_eq(2)
    by (auto intro!: filter_cong simp: is_due_row_def list_all_iff)
  moreover have "sorted (map wr_created_at parked_rows)"
    using arg_cong [OF parked_rows_eq(1), of "map snd"] by (simp add: comp_def)
  moreover have "length parked_rows = 2" using arg_cong [OF parked_rows_eq(1), of length] by simp
  ultimately have "take (nat (sint (50 :: i64))) (sort_key wr_created_at (filter (is_due_row now) (db_wagers blocked_db))) = parked_rows"
    by (simp add: sort_key_id_if_sorted)
  then show ?thesis
    by (subst (1 2) blocked_calm)
      (simp add: FindDuePendingReferences_def calm_query calm_bindE parked_rows_eq(3))
qed

lemma first_fails:
  "process_tx sample_external (rd_draws (sample_resolve_draws 90)) (fst (hd parked_items)) ''c'' blocked =
     (Inl (MoneyE ErrOverflow), blocked)"
  "snd (hd parked_items) = 0" "tx_createdAt (fst (hd parked_items)) = 40"
  by code_simp+

lemma second_resolves:
  "fst (resolveOne sample_external sample_resolver (sample_resolve_draws 90) 100 (parked_items ! 1) blocked) = Inr Resolved"
  by code_simp

text \<open>Claim C40. One item that keeps failing blocks every later one. The credit of the first refund does
  not fit in 64 bits, so a run returns \<open>ErrOverflow\<close> at it and changes nothing: not the second refund,
  which would be paid if it were reached, and not the schedule of the first, which is first again in the
  next run. It is the same at every time until the first refund expires.\<close>

theorem failing_item_blocks_the_rest:
  assumes "now < 40 + sint (rs_ttl sample_resolver)"
  shows "ResolveDue sample_external sample_resolver (\<lambda>_. sample_resolve_draws 90) now 50 blocked =
      (Inl (MoneyE ErrOverflow), blocked) \<and>
    fst (resolveOne sample_external sample_resolver (sample_resolve_draws 90) 100 (parked_items ! 1) blocked) = Inr Resolved"
proof -
  let ?item = "hd parked_items"
  have items: "parked_items = ?item # tl parked_items"
    using arg_cong [OF parked_rows_eq(1), of length] by (cases parked_items) (auto simp: parked_items_def)
  have "\<not> is_expired sample_resolver now (fst ?item) (snd ?item)"
    using assms first_fails(2,3) by (simp add: is_expired_def Time_Sub_def sample_resolver_def)
  then have "resolveOne sample_external sample_resolver (sample_resolve_draws 90) now ?item blocked =
      (Inl (MoneyE ErrOverflow), blocked)"
    using first_fails(1) by (simp add: resolveOne_def Let_def bindE_def sample_resolve_draws_def)
  then have "resolve_items sample_external sample_resolver (\<lambda>_. sample_resolve_draws 90) 0 now parked_items blocked =
      (Inl (MoneyE ErrOverflow), blocked)"
    by (subst items) (simp add: bindE_def)
  with blocked_due [of now] second_resolves show ?thesis by (simp add: ResolveDue_def bindE_def)
qed

theorem failing_item_blocks_the_rest_witness:
  "fst (ResolveDue sample_external sample_resolver (\<lambda>_. sample_resolve_draws 90) 100 50 blocked) = Inl (MoneyE ErrOverflow)"
  using failing_item_blocks_the_rest [of 100] by (simp add: sample_resolver_def)

end
