(* ===== verification/Lifecycle.thy ===== *)
theory Lifecycle
  imports Assembly "HOL-Library.Sublist"
begin

text \<open>
  \<open>cmd/croupier/lifecycle.go\<close> and \<open>newFxApp\<close> of \<open>main.go\<close>: the hooks the parts of the process register, and
  what starting and stopping them does to the pool, the server and the background loops. A hook is what
  it answers and the events it causes, given the answers of the operating system and of \<open>net/http\<close>. Which
  hooks run is up to Fx; \<open>fx_runs\<close> states what it documents.
\<close>

section \<open>Hooks\<close>

datatype proc_event =
    Listening string
  | ServerShutDown
  | LoopStarted string
  | LoopCancelled string
  | LoopReturned string
  | PoolClosed

datatype start_error = HTTPServerErr error

record hook =
  hk_OnStart :: "start_error option \<times> proc_event list"
  hk_OnStop :: "stop_error option \<times> proc_event list"

text \<open>The answers: of \<open>net.Listen\<close> for an address, of \<open>http.Server.Shutdown\<close> for the time it is given, and what
  ends the wait for a cancelled loop. \<open>Shutdown\<close> answers nil once no request is in flight.\<close>

record world =
  wd_Listen :: "string \<Rightarrow> error option"
  wd_Shutdown :: "i64 \<Rightarrow> error option"
  wd_Stop :: "string \<Rightarrow> stop_event"

definition registerPostgresPool :: hook where
  "registerPostgresPool = \<lparr>hk_OnStart = (None, []), hk_OnStop = (None, [PoolClosed])\<rparr>"

definition registerHTTPServer :: "world \<Rightarrow> config \<Rightarrow> hook" where
  "registerHTTPServer wd cfg =
     \<lparr>hk_OnStart = (case wd_Listen wd (CHR '':'' # cf_AppPort cfg) of
          Some e \<Rightarrow> (Some (HTTPServerErr e), [])
        | None \<Rightarrow> (None, [Listening (cf_AppPort cfg)])),
      hk_OnStop = (case wd_Shutdown wd (cf_ShutdownTimeout cfg) of
          Some e \<Rightarrow> (Some (StopErr e), [])
        | None \<Rightarrow> (None, [ServerShutDown]))\<rparr>"

definition background_hook :: "world \<Rightarrow> string \<Rightarrow> hook" where
  "background_hook wd name =
     \<lparr>hk_OnStart = (None, [LoopStarted name]),
      hk_OnStop = (loop_OnStop (wd_Stop wd name),
        LoopCancelled name # (case wd_Stop wd name of LoopDone \<Rightarrow> [LoopReturned name] | _ \<Rightarrow> []))\<rparr>"

definition registerConsumer :: "world \<Rightarrow> hook" where
  "registerConsumer wd = background_hook wd ''sqs-consumer''"

record fx_app =
  fx_hooks :: "hook list"
  fx_StartTimeout :: i64
  fx_StopTimeout :: i64

definition newFxApp :: "world \<Rightarrow> config \<Rightarrow> fx_app" where
  "newFxApp wd cfg =
     \<lparr>fx_hooks = [registerPostgresPool, registerHTTPServer wd cfg, registerConsumer wd,
        background_hook wd ''pending-reference-resolver'', background_hook wd ''outbox-worker'',
        background_hook wd ''dlq-depth-poller''],
      fx_StartTimeout = cf_ShutdownTimeout cfg, fx_StopTimeout = cf_ShutdownTimeout cfg + seconds 5\<rparr>"

section \<open>What Fx does with them\<close>

text \<open>Starting goes through the hooks in the order of their registration and ends at the first error.
  Stopping goes back through the ones that were started, also when one of them fails, until it is
  through or its time is up.\<close>

definition fx_runs :: "hook list \<Rightarrow> hook list \<Rightarrow> hook list \<Rightarrow> bool" where
  "fx_runs hooks started stopped \<longleftrightarrow> prefix started hooks \<and>
     list_all (\<lambda>h. fst (hk_OnStart h) = None) started \<and> prefix stopped (rev started)"

definition start_events :: "hook list \<Rightarrow> proc_event list" where
  "start_events hooks = concat (map (snd \<circ> hk_OnStart) hooks)"

definition stop_events :: "hook list \<Rightarrow> proc_event list" where
  "stop_events hooks = concat (map (snd \<circ> hk_OnStop) hooks)"

definition all_stopped :: "hook list \<Rightarrow> bool" where
  "all_stopped hooks \<longleftrightarrow> list_all (\<lambda>h. fst (hk_OnStop h) = None) hooks"

section \<open>The process\<close>

record proc =
  pc_pool :: bool
  pc_serving :: bool
  pc_loops :: "string list"

fun happens :: "proc_event \<Rightarrow> proc \<Rightarrow> proc" where
  "happens (Listening port) p = p\<lparr>pc_serving := True\<rparr>"
| "happens ServerShutDown p = p\<lparr>pc_serving := False\<rparr>"
| "happens (LoopStarted name) p = p\<lparr>pc_loops := name # pc_loops p\<rparr>"
| "happens (LoopCancelled name) p = p"
| "happens (LoopReturned name) p = p\<lparr>pc_loops := filter (\<lambda>n. n \<noteq> name) (pc_loops p)\<rparr>"
| "happens PoolClosed p = p\<lparr>pc_pool := False\<rparr>"

definition proc_after :: "proc_event list \<Rightarrow> proc" where
  "proc_after evs = fold happens evs \<lparr>pc_pool = True, pc_serving = False, pc_loops = []\<rparr>"

section \<open>Lemmas\<close>

lemmas hook_defs = registerPostgresPool_def registerConsumer_def registerHTTPServer_def background_hook_def newFxApp_def

lemma only_pool_closes:
  "PoolClosed \<notin> set (snd (hk_OnStop (registerHTTPServer wd cfg)))"
  "PoolClosed \<notin> set (snd (hk_OnStop (background_hook wd name)))"
  by (auto simp: hook_defs split: option.splits stop_event.splits)

text \<open>A prefix of the hooks in reverse that closes the pool is all of them.\<close>

lemma stops_all:
  assumes "prefix stopped (rev (registerPostgresPool # hs))" and "PoolClosed \<in> set (stop_events stopped)"
    and "PoolClosed \<notin> set (stop_events hs)"
  shows "stopped = rev hs @ [registerPostgresPool]"
proof -
  have "\<not> prefix stopped (rev hs)"
    using assms(2,3) by (auto simp: stop_events_def dest!: set_mono_prefix)
  with assms(1) show ?thesis by simp
qed

lemma stop_events_rev: "set (stop_events (rev hs)) = set (stop_events hs)"
  by (simp add: stop_events_def)

lemma app_hooks: "fx_hooks (newFxApp wd cfg) = registerPostgresPool # registerHTTPServer wd cfg #
    map (background_hook wd) [''sqs-consumer'', ''pending-reference-resolver'', ''outbox-worker'', ''dlq-depth-poller'']"
  by (simp add: newFxApp_def registerConsumer_def)

lemma app_started:
  assumes "prefix started (fx_hooks (newFxApp wd cfg))" and "started \<noteq> []"
  obtains (pool) "started = [registerPostgresPool]"
    | (all) names where "started = registerPostgresPool # registerHTTPServer wd cfg # map (background_hook wd) names"
        "distinct names"
proof -
  let ?names = "[''sqs-consumer'', ''pending-reference-resolver'', ''outbox-worker'', ''dlq-depth-poller'']"
  from assms consider "started = [registerPostgresPool]"
    | hs where "started = registerPostgresPool # registerHTTPServer wd cfg # hs" "prefix hs (map (background_hook wd) ?names)"
    unfolding app_hooks by (auto simp: prefix_Cons)
  then show thesis
  proof cases
    case (2 hs)
    from 2(2) obtain k where k: "hs = take k (map (background_hook wd) ?names)"
      by (metis append_eq_conv_conj prefix_def)
    have "hs = map (background_hook wd) (take k ?names)" unfolding k take_map ..
    moreover have "distinct (take k ?names)" by (rule distinct_take) simp
    ultimately show thesis using 2(1) by (intro all [of "take k ?names"]) simp_all
  qed (rule pool)
qed

lemma loops_started:
  "start_events (map (background_hook wd) names) = map LoopStarted names"
  by (induction names) (simp_all add: start_events_def background_hook_def)

lemma loops_running:
  "fold happens (map LoopStarted names) p = p\<lparr>pc_loops := rev names @ pc_loops p\<rparr>"
  by (induction names arbitrary: p) simp_all

lemma loops_stopped:
  assumes "\<forall>n\<in>set names. wd_Stop wd n = LoopDone"
  shows "fold happens (stop_events (map (background_hook wd) names)) p =
    p\<lparr>pc_loops := filter (\<lambda>n. n \<notin> set names) (pc_loops p)\<rparr>"
  using assms
proof (induction names arbitrary: p)
  case (Cons name names)
  then show ?case
    by (simp add: stop_events_def background_hook_def)
qed (simp add: stop_events_def)

lemma loops_cancelled: "name \<in> set names \<Longrightarrow> LoopCancelled name \<in> set (stop_events (map (background_hook wd) names))"
  by (auto simp: stop_events_def background_hook_def)

lemma loop_OnStop_None: "loop_OnStop ev = None \<longleftrightarrow> ev = LoopDone"
  by (cases ev) (simp_all add: loop_OnStop_def)

lemma loops_all_stopped: "all_stopped (map (background_hook wd) names) \<longleftrightarrow> (\<forall>n\<in>set names. wd_Stop wd n = LoopDone)"
  by (simp add: all_stopped_def list_all_iff background_hook_def loop_OnStop_None)

lemma loops_named:
  "LoopStarted name \<in> set (start_events (registerPostgresPool # registerHTTPServer wd cfg # map (background_hook wd) names)) \<Longrightarrow>
     name \<in> set names"
  by (auto simp: start_events_def hook_defs split: option.splits)

text \<open>What the hooks leave behind when all of them stopped cleanly.\<close>

lemma stopped_cleanly:
  assumes "all_stopped (registerHTTPServer wd cfg # map (background_hook wd) names)"
    and "list_all (\<lambda>h. fst (hk_OnStart h) = None) [registerHTTPServer wd cfg]" and "distinct names"
  shows "proc_after (start_events (registerPostgresPool # registerHTTPServer wd cfg # map (background_hook wd) names) @
      stop_events (map (background_hook wd) (rev names)) @ snd (hk_OnStop (registerHTTPServer wd cfg))) =
    \<lparr>pc_pool = True, pc_serving = False, pc_loops = []\<rparr>"
proof -
  have stop: "\<forall>n\<in>set (rev names). wd_Stop wd n = LoopDone" "wd_Shutdown wd (cf_ShutdownTimeout cfg) = None"
    using assms(1) loops_all_stopped [of wd names]
    by (simp_all add: all_stopped_def registerHTTPServer_def split: option.splits)
  have start: "start_events (registerPostgresPool # registerHTTPServer wd cfg # map (background_hook wd) names) =
      Listening (cf_AppPort cfg) # map LoopStarted names"
    using assms(2) loops_started [of wd names]
    by (simp add: start_events_def registerPostgresPool_def registerHTTPServer_def split: option.splits)
  have http: "snd (hk_OnStop (registerHTTPServer wd cfg)) = [ServerShutDown]"
    using stop(2) by (simp add: registerHTTPServer_def)
  show ?thesis
    unfolding proc_after_def start http
    by (simp add: loops_running loops_stopped [OF stop(1)] filter_False)
qed

section \<open>Properties\<close>

text \<open>Claim C24. The pool is closed last. However far the start got and however the stop went, when the
  pool is closed every background loop that was started has been told to end, and nothing else is
  stopped afterwards; and if every hook stopped without an error, no request is being served and no loop
  is running any more when the pool closes.\<close>

theorem pool_closes_last:
  assumes "fx_runs (fx_hooks (newFxApp wd cfg)) started stopped" and "PoolClosed \<in> set (stop_events stopped)"
  shows "\<exists>evs. stop_events stopped = evs @ [PoolClosed] \<and> PoolClosed \<notin> set evs \<and>
    (\<forall>name. LoopStarted name \<in> set (start_events started) \<longrightarrow> LoopCancelled name \<in> set evs) \<and>
    (all_stopped stopped \<longrightarrow>
       proc_after (start_events started @ evs) = \<lparr>pc_pool = True, pc_serving = False, pc_loops = []\<rparr>)"
proof -
  have fx: "prefix started (fx_hooks (newFxApp wd cfg))" "list_all (\<lambda>h. fst (hk_OnStart h) = None) started"
    "prefix stopped (rev started)"
    using assms(1) by (simp_all add: fx_runs_def)
  have "started \<noteq> []" using fx(3) assms(2) by (auto simp: stop_events_def)
  with fx(1) show ?thesis
  proof (cases rule: app_started)
    case pool
    with stops_all [of stopped "[]"] fx(3) assms(2) have "stopped = [registerPostgresPool]"
      by (simp add: stop_events_def)
    with pool show ?thesis by (auto simp: stop_events_def start_events_def registerPostgresPool_def proc_after_def)
  next
    case (all names)
    let ?hs = "registerHTTPServer wd cfg # map (background_hook wd) names"
    have none: "PoolClosed \<notin> set (stop_events ?hs)" using only_pool_closes by (auto simp: stop_events_def)
    have st: "stopped = rev ?hs @ [registerPostgresPool]"
      using stops_all [OF _ assms(2) none] fx(3) all(1) by simp
    let ?evs = "stop_events (map (background_hook wd) (rev names)) @ snd (hk_OnStop (registerHTTPServer wd cfg))"
    have evs: "stop_events stopped = ?evs @ [PoolClosed]"
      unfolding st by (simp add: stop_events_def registerPostgresPool_def rev_map)
    have "LoopCancelled name \<in> set ?evs" if "LoopStarted name \<in> set (start_events started)" for name
      using loops_named [OF that [unfolded all(1)]] loops_cancelled [of name "rev names" wd] by simp
    moreover have "PoolClosed \<notin> set ?evs" using none by (auto simp: stop_events_def)
    moreover have "proc_after (start_events started @ ?evs) = \<lparr>pc_pool = True, pc_serving = False, pc_loops = []\<rparr>"
      if "all_stopped stopped"
      unfolding all(1)
    proof (rule stopped_cleanly)
      show "all_stopped ?hs" using that by (simp add: st all_stopped_def conj_commute)
    qed (use fx(2) all in simp_all)
    ultimately show ?thesis using evs by blast
  qed
qed

text \<open>The comment of \<open>registerPostgresPool\<close> says that the handlers and workers using the pool have finished
  when it is closed. A loop that does not return within its time only makes its hook fail: the pool is
  closed under it.\<close>

definition slow_world :: world where
  "slow_world = \<lparr>wd_Listen = (\<lambda>_. None), wd_Shutdown = (\<lambda>_. None),
     wd_Stop = (\<lambda>n. if n = ''sqs-consumer'' then TimedOut else LoopDone)\<rparr>"

definition quick_world :: world where
  "quick_world = slow_world\<lparr>wd_Stop := \<lambda>_. LoopDone\<rparr>"

lemma pool_closes_under_a_slow_loop:
  "fx_runs (fx_hooks (newFxApp slow_world cfg)) (fx_hooks (newFxApp slow_world cfg)) (rev (fx_hooks (newFxApp slow_world cfg))) \<and>
   proc_after (start_events (fx_hooks (newFxApp slow_world cfg)) @ stop_events (rev (fx_hooks (newFxApp slow_world cfg)))) =
     \<lparr>pc_pool = False, pc_serving = False, pc_loops = [''sqs-consumer'']\<rparr>"
  by (simp add: fx_runs_def hook_defs slow_world_def start_events_def stop_events_def proc_after_def)

definition sample_config :: config where
  "sample_config = \<lparr>cf_PostgresDSN = ''dsn'', cf_SQSEndpoint = ''sqs'', cf_AWSRegion = ''us-east-1'',
     cf_WagerTransactionsQueueName = ''in'', cf_WagerTransactionsDLQName = ''dlq'', cf_WalletEventsQueueName = ''out'',
     cf_SQSConsumerName = ''c'', cf_DLQDepthPollInterval = seconds 30, cf_KeycloakIssuerURL = ''issuer'',
     cf_AppPort = ''8080'', cf_PendingReferencePollInterval = seconds 5, cf_PendingReferenceMaxAttempts = 10,
     cf_PendingReferenceTTL = seconds 60, cf_PendingReferenceBackoffBase = seconds 1, cf_OutboxPollInterval = seconds 1,
     cf_OutboxBackoffBase = seconds 1, cf_ShutdownTimeout = seconds 10\<rparr>"

theorem pool_closes_last_witness:
  "PoolClosed \<notin> set (butlast (stop_events (rev (fx_hooks (newFxApp quick_world sample_config)))))"
proof -
  let ?hs = "fx_hooks (newFxApp quick_world sample_config)"
  have "fx_runs ?hs ?hs (rev ?hs)" "PoolClosed \<in> set (stop_events (rev ?hs))"
    by (simp_all add: fx_runs_def hook_defs quick_world_def slow_world_def stop_events_def)
  from pool_closes_last [OF this] show ?thesis by auto
qed

end
