(* ===== verification/Spec2Isabelle.thy ===== *)
theory Spec2Isabelle
  imports Wiring Banking Keys Locks Parking Background Blocking Lifecycle
begin

text \<open>
  Croupier, a wallet and wagering service written in Go: players' wallets, a double-entry style
  ledger, and wager transactions that game providers submit over HTTP or through a queue.

  \<^bold>\<open>The parts and how they interact.\<close> A provider submits a wager transaction to \<open>internal/httpapi\<close> or
  as a message that \<open>internal/sqs/consumer.go\<close> receives. Both call \<open>WagerSubmitter.Submit\<close> of
  \<open>internal/app\<close>, which decides it with the domain types of \<open>internal/wager\<close>, \<open>internal/wallet\<close> and
  \<open>internal/money\<close> and stores the transaction, the ledger entry, the wallet and the events to publish
  in one PostgreSQL transaction through \<open>internal/postgres\<close>. A reversal whose reference has not arrived
  is parked; the pending reference resolver retries it. The outbox worker publishes the stored
  events. \<open>cmd/croupier\<close> reads the configuration, wires the parts and runs the background loops.

  \<^bold>\<open>Theories and the code they model.\<close>
  \<^item> \<open>Prelude\<close>: Go's error idiom as programs with explicit state (\<open>bindE\<close>, \<open>onResult\<close>), 64-bit
    integers as \<open>i64\<close>. \<open>Gostd\<close>: \<open>strconv\<close> and \<open>strings.ToLower\<close>. \<open>Errors\<close>: the sentinel errors.
  \<^item> \<open>Money\<close> (\<open>internal/money\<close>), \<open>Wallet\<close> (\<open>internal/wallet\<close>), \<open>Wager\<close> (\<open>internal/wager\<close>), \<open>Inbox\<close>
    (\<open>internal/inbox\<close>), \<open>Outbox\<close> (\<open>internal/outbox\<close> and \<open>backoffDelay\<close>), \<open>Events\<close> (\<open>internal/app/events.go\<close>,
    \<open>failure_codes.go\<close>): the domain types as records and datatypes with their operations.
  \<^item> \<open>Table\<close> and \<open>Store\<close>: the five tables of \<open>internal/postgres/migrations\<close>, every SQL statement of the
    repositories as a function on them with the constraints the migrations declare, and
    \<open>TxManager.WithinTx\<close> with commit, rollback, joining and aborted transactions.
  \<^item> \<open>Submit\<close> (\<open>wager_submit.go\<close>), \<open>WalletOps\<close> (\<open>wallet_create.go\<close>, \<open>wallet_get.go\<close>,
    \<open>wallet_ledger_list.go\<close>, \<open>wallet_reconcile.go\<close>, \<open>wager_get.go\<close>), \<open>Resolver\<close>
    (\<open>pending_reference_resolver.go\<close>), \<open>Worker\<close> (\<open>outbox_worker.go\<close>, \<open>internal/sqs/publisher.go\<close>): the use
    cases, each as the composition of repository calls the code makes.
  \<^item> \<open>Process\<close>, \<open>Metrics\<close> (\<open>internal/metrics\<close>), \<open>Auth\<close> (\<open>internal/auth\<close>), \<open>Consumer\<close>
    (\<open>internal/sqs/consumer.go\<close>), \<open>Http\<close> (\<open>internal/httpapi\<close>): the adapters, on a process that holds a
    database session, the metrics registry and the messages it asked the queue to delete.
  \<^item> \<open>Interleaving\<close>, \<open>Concurrent\<close>, \<open>Traffic\<close> and \<open>Service\<close>: the use cases as threads of database round
    trips, and the service as a pool of them on shared tables.
  \<^item> \<open>Assembly\<close> and \<open>Wiring\<close>: \<open>cmd/croupier\<close>, \<open>internal/sqs/client.go\<close> and \<open>internal/postgres/migrate.go\<close>.

  \<^bold>\<open>What the lemmas show.\<close>
  \<^item> \<open>Money\<close>, \<open>Wallet\<close>, \<open>Wager\<close>, \<open>Outbox\<close>: exact behaviour of every operation on 64-bit amounts, round
    trips of printing and parsing, the life cycle of a transaction as a step relation the marks refine.
  \<^item> \<open>Laws\<close>: the effect of each repository call, and the locale \<open>table_law\<close>, which lifts a relation
    between tables from the statements to every program built from them; \<open>History\<close> interprets it.
  \<^item> \<open>Books\<close>: the invariant \<open>books\<close> of the tables (ledger chains, one ledger entry per processed movement,
    one reversal per transaction). \<open>Settlement\<close>, \<open>WalletOps\<close>, \<open>Resolving\<close>, \<open>Consumer\<close>: every use case
    keeps it whatever fails on the way, driver failures and lost replies included.
  \<^item> \<open>Bank\<close> and \<open>Banking\<close>: the abstract specification of a submission, a bank of accounts that decides
    it in one step; \<open>Submit\<close> refines it, so resubmissions replay and well-formed submissions are decided.
  \<^item> \<open>Nested\<close>: a submission inside the consumer's transaction. \<open>Publishing\<close>: what is published, the
    termination of the drain loop, the order of events. \<open>Background\<close>: the worker and the resolver with
    their reports to the metrics, and what these count. \<open>Blocking\<close>: a parked item that keeps failing.
    \<open>Parking\<close>: every round of the resolver that picks a parked item up settles it or uses up an attempt.
  \<^item> \<open>Consumer\<close>: a message is deleted only when recorded, delivered entirely or not at all, and harmless
    when delivered again. \<open>Http\<close>: who may call what, and which providers see what.
  \<^item> \<open>Effects\<close>: a submission changes the tables by one \<open>settlement\<close> or not at all, and a settlement keeps the
    outbox complete: every stored transaction and ledger entry has the event that tells it.
  \<^item> \<open>Interleaving\<close>: a thread run alone is the use case. \<open>Concurrent\<close>, \<open>Traffic\<close>: a rely/guarantee judgement
    and its proof for every kind of job. \<open>Service\<close>: the invariant of all reachable states, hence the
    books, the outbox and the outcomes in every interleaving. \<open>Keys\<close>: the locale \<open>free_law\<close> lifts a law from
    the statements to the whole service; the unique key is one, so a key moves money at most once.
  \<^item> \<open>Locks\<close>: the transaction of a movement statement by statement, under row locks: what commits is what
    whole transactions do one after the other, which is how \<open>Service\<close> runs them, and nothing deadlocks.
  \<^item> \<open>Assembly\<close>, \<open>Wiring\<close>: the restart delays, the configuration and the retry window it gives.
    \<open>Lifecycle\<close>: the hooks of the process and the order in which stopping goes through them.

  \<^bold>\<open>Parameters.\<close> The record \<open>external\<close> of \<open>Store\<close> collects what belongs to libraries: the ISO currency
  table, SHA-256 of a payload and of a message, the text of a UUID and of event data. The clock readings
  and identifiers a call draws are arguments (\<open>draws\<close>). The driver's failures are the schedule \<open>s_faults\<close>
  of a session, universally quantified in the theorems.

  \<^bold>\<open>Bounds and fuel.\<close> Loops over lists are structural. \<open>duration_terms\<close> takes the length of its text as
  fuel, enough by \<open>duration_terms_fuel\<close>. The drain loop is a partial function; that it returns is
  a theorem. \<open>Run\<close> and the polling loops follow a given sequence of events.

  \<^bold>\<open>Not modelled.\<close> Interleavings inside the other transactions at READ COMMITTED: \<open>Service\<close> interleaves
  whole transactions and single statements, and \<open>Locks\<close> justifies that for the transactions that move
  money, with anything else as committed changes that respect what they hold; a delivery keeps the locks
  of its movement until its own commit, which is left to the database. One resolver runs at a time; \<open>two_resolvers_pay_twice\<close> shows what two
  would do. Log lines. JSON text beyond the fields it carries, and the verification of tokens, which belong to libraries. The
  dependency graph, the HTTP listener and the connection pool of \<open>cmd/croupier\<close>, which belong to Fx,
  \<open>net/http\<close> and pgx: \<open>Lifecycle\<close> takes their answers and the order of Fx's hooks as given. \<open>internal/testdb\<close>, which starts a container for the tests.
\<close>

end
